(* ===== verification/Prelude.thy ===== *)
theory Prelude
  imports Main "HOL-Library.Word"
begin

text \<open>
  The shared vocabulary of the development.

  \<^item> Machine integers are words of the C width; a \<^verbatim>\<open>char\<close> buffer is a list of bytes.
  \<^item> Every C function that can stop the process returns a \<^verbatim>\<open>res\<close>: \<^verbatim>\<open>Abort\<close> is a failed
    \<^verbatim>\<open>INVARIANT\<close> (\<^verbatim>\<open>abort()\<close>, src/common/helper.h), \<^verbatim>\<open>Exit\<close> is \<^verbatim>\<open>exit(-1)\<close>, and
    \<^verbatim>\<open>Undefined\<close> is behaviour the C standard leaves undefined (an access outside an array,
    signed overflow, a null dereference), so that its absence can be proved.
  \<^item> \<^verbatim>\<open>le16\<close> and \<^verbatim>\<open>le32\<close> are the bytes of an integer in the memory of the
    little-endian hosts the program runs on, and \<^verbatim>\<open>htons\<close>, \<^verbatim>\<open>htonl\<close> swap them.
\<close>

unbundle bit_operations_syntax

section \<open>Machine types and failures\<close>

type_synonym byte = "8 word"
type_synonym u16 = "16 word"
type_synonym u32 = "32 word"
type_synonym u64 = "64 word"

datatype c_error = Abort | Exit | Undefined

type_synonym 'a res = "c_error + 'a"

named_theorems res_simps \<open>unfolding of the failure monad\<close>

definition bind_res :: "'a res \<Rightarrow> ('a \<Rightarrow> 'b res) \<Rightarrow> 'b res" where
  "bind_res m f = (case m of Inl e \<Rightarrow> Inl e | Inr x \<Rightarrow> f x)"

definition invariant :: "bool \<Rightarrow> unit res" where
  "invariant b = (if b then Inr () else Inl Abort)"

definition ensure_defined :: "bool \<Rightarrow> unit res" where
  "ensure_defined b = (if b then Inr () else Inl Undefined)"

lemma bind_res_simps [simp, res_simps]:
  "bind_res (Inr x) f = f x"
  "bind_res (Inl e) f = Inl e"
  by (simp_all add: bind_res_def)

lemma invariant_simps [simp, res_simps]:
  "invariant True = Inr ()" "invariant False = Inl Abort"
  by (simp_all add: invariant_def)

lemma ensure_defined_simps [simp, res_simps]:
  "ensure_defined True = Inr ()" "ensure_defined False = Inl Undefined"
  by (simp_all add: ensure_defined_def)

lemma bind_res_eq_Inr: "bind_res m f = Inr y \<longleftrightarrow> (\<exists>x. m = Inr x \<and> f x = Inr y)"
  by (cases m) auto

lemma bind_res_assoc: "bind_res (bind_res m f) g = bind_res m (\<lambda>x. bind_res (f x) g)"
  by (cases m) auto

lemma invariant_eq_Inr [simp]: "invariant b = Inr u \<longleftrightarrow> b"
  by (cases b) auto

lemma ensure_defined_eq_Inr [simp]: "ensure_defined b = Inr u \<longleftrightarrow> b"
  by (cases b) auto

text \<open>The value of an \<^verbatim>\<open>int\<close> expression: signed overflow is undefined behaviour.\<close>

definition c_int :: "int \<Rightarrow> int res" where
  "c_int x = (if - (2 ^ 31) \<le> x \<and> x < 2 ^ 31 then Inr x else Inl Undefined)"

lemma c_int_in_range: "- (2 ^ 31) \<le> x \<Longrightarrow> x < 2 ^ 31 \<Longrightarrow> c_int x = Inr x"
  by (simp add: c_int_def)

lemma c_int_eq_Inr: "c_int x = Inr y \<longleftrightarrow> y = x \<and> - (2 ^ 31) \<le> x \<and> x < 2 ^ 31"
  by (auto simp: c_int_def)

section \<open>Integers in memory\<close>

definition le16 :: "u16 \<Rightarrow> byte list" where
  "le16 w = [ucast w, ucast (drop_bit 8 w)]"

definition le32 :: "u32 \<Rightarrow> byte list" where
  "le32 w = [ucast w, ucast (drop_bit 8 w), ucast (drop_bit 16 w), ucast (drop_bit 24 w)]"

definition of_le16 :: "byte \<Rightarrow> byte \<Rightarrow> u16" where
  "of_le16 a b = ucast a OR push_bit 8 (ucast b)"

definition of_le32 :: "byte \<Rightarrow> byte \<Rightarrow> byte \<Rightarrow> byte \<Rightarrow> u32" where
  "of_le32 a b c d = ucast a OR push_bit 8 (ucast b) OR push_bit 16 (ucast c) OR push_bit 24 (ucast d)"

text \<open>The integer whose memory image starts a byte string; short strings read as zero bytes
  (every use below checks the length first).\<close>

fun load16 :: "byte list \<Rightarrow> u16" where
  "load16 (a # b # bs) = of_le16 a b"
| "load16 bs = 0"

fun load32 :: "byte list \<Rightarrow> u32" where
  "load32 (a # b # c # d # bs) = of_le32 a b c d"
| "load32 bs = 0"

definition htons :: "u16 \<Rightarrow> u16" where
  "htons w = load16 (rev (le16 w))"

definition htonl :: "u32 \<Rightarrow> u32" where
  "htonl w = load32 (rev (le32 w))"

lemma length_le16 [simp]: "length (le16 w) = 2"
  by (simp add: le16_def)

lemma length_le32 [simp]: "length (le32 w) = 4"
  by (simp add: le32_def)

lemma byte_bit_high [simp]: "8 \<le> n \<Longrightarrow> \<not> bit (b :: byte) n"
  using bit_imp_le_length [of b n] by auto

lemma of_le16_le16 [simp]: "of_le16 (ucast w) (ucast (drop_bit 8 w)) = w"
  unfolding of_le16_def
  by (rule bit_word_eqI, rename_tac n, case_tac "n < 8") (auto simp: bit_simps)

lemma of_le32_le32 [simp]:
  "of_le32 (ucast w) (ucast (drop_bit 8 w)) (ucast (drop_bit 16 w)) (ucast (drop_bit 24 w)) = w"
  unfolding of_le32_def
  by (rule bit_word_eqI, rename_tac n, case_tac "n < 8"; case_tac "n < 16"; case_tac "n < 24")
    (auto simp: bit_simps)

lemma le16_of_le16 [simp]: "le16 (of_le16 a b) = [a, b]"
  unfolding of_le16_def le16_def
  by (auto intro!: bit_word_eqI simp: bit_simps)

lemma le32_of_le32 [simp]: "le32 (of_le32 a b c d) = [a, b, c, d]"
  unfolding of_le32_def le32_def
  by (auto intro!: bit_word_eqI simp: bit_simps)

lemma load16_le16 [simp]: "load16 (le16 w @ bs) = w" "load16 (le16 w) = w"
  by (simp_all add: le16_def)

lemma load32_le32 [simp]: "load32 (le32 w @ bs) = w" "load32 (le32 w) = w"
  by (simp_all add: le32_def)

lemma htons_alt: "htons w = of_le16 (ucast (drop_bit 8 w)) (ucast w)"
  by (simp add: htons_def le16_def)

lemma htonl_alt:
  "htonl w = of_le32 (ucast (drop_bit 24 w)) (ucast (drop_bit 16 w)) (ucast (drop_bit 8 w)) (ucast w)"
  by (simp add: htonl_def le32_def)

lemma le16_htons: "le16 (htons w) = rev (le16 w)"
  by (simp only: htons_alt le16_of_le16) (simp add: le16_def)

lemma le32_htonl: "le32 (htonl w) = rev (le32 w)"
  by (simp only: htonl_alt le32_of_le32) (simp add: le32_def)

lemma htons_htons [simp]: "htons (htons w) = w"
  by (metis htons_def le16_htons load16_le16(2) rev_rev_ident)

lemma htonl_htonl [simp]: "htonl (htonl w) = w"
  by (metis htonl_def le32_htonl load32_le32(2) rev_rev_ident)

lemma le16_inject [simp]: "le16 a = le16 b \<longleftrightarrow> a = b"
  by (metis load16_le16(2))

lemma le32_inject [simp]: "le32 a = le32 b \<longleftrightarrow> a = b"
  by (metis load32_le32(2))

text \<open>The masks of the casts to narrower integers.\<close>

lemma and_byte_mask: "w AND 0xFF = take_bit 8 (w :: 'a::len word)"
  by (simp add: take_bit_eq_mask mask_eq_exp_minus_1)

lemma and_u16_mask: "w AND 0xFFFF = take_bit 16 (w :: 'a::len word)"
  by (simp add: take_bit_eq_mask mask_eq_exp_minus_1)

section \<open>Unsigned values\<close>

lemma unat_ucast_id:
  assumes "LENGTH('a::len) \<le> LENGTH('b::len)"
  shows "unat (ucast (w :: 'a word) :: 'b word) = unat w"
proof -
  have "unat w < 2 ^ LENGTH('a)" by (rule unsigned_less)
  also have "\<dots> \<le> 2 ^ LENGTH('b)" using assms by (intro power_increasing) simp_all
  finally show ?thesis by (simp only: unsigned_ucast_eq) (rule take_bit_nat_eq_self)
qed

lemma nat_or_push_bit:
  assumes "(x :: nat) < 2 ^ n"
  shows "x OR push_bit n y = x + 2 ^ n * y"
proof -
  have "take_bit n x = x" using assms by (rule take_bit_nat_eq_self)
  then have "x AND push_bit n y = take_bit n x AND push_bit n y" by simp
  also have "\<dots> = 0" by (rule bit_eqI) (auto simp: bit_simps)
  finally have "x + push_bit n y = x OR push_bit n y" by (rule disjunctive_add_eq_or)
  then show ?thesis by (simp add: push_bit_eq_mult mult.commute)
qed

lemma unat_or_push_bit:
  fixes x y :: "'a::len word"
  assumes "unat x < 2 ^ n" "2 ^ n * unat y < 2 ^ LENGTH('a)"
  shows "unat (x OR push_bit n y) = unat x + 2 ^ n * unat y"
proof -
  have "push_bit n (unat y) < 2 ^ LENGTH('a)"
    using assms(2) by (simp add: push_bit_eq_mult mult.commute)
  then have "unat (push_bit n y) = push_bit n (unat y)"
    by (simp only: unsigned_push_bit_eq) (rule take_bit_nat_eq_self)
  then have "unat (x OR push_bit n y) = unat x OR push_bit n (unat y)"
    by (simp only: unsigned_or_eq)
  also have "\<dots> = unat x + 2 ^ n * unat y" by (rule nat_or_push_bit [OF assms(1)])
  finally show ?thesis .
qed

lemma unat_byte [simp]: "unat (b :: byte) < 256"
  using unsigned_less [of b, where ?'a = nat] by simp

lemma unat_of_le16: "unat (of_le16 a b) = unat a + 256 * unat b"
  using unat_byte [of a] unat_byte [of b]
    unat_or_push_bit [where x = "ucast a :: u16" and y = "ucast b" and n = 8]
  by (simp add: of_le16_def unat_ucast_id)

lemma of_le32_of_le16:
  "of_le32 a b c d = ucast (of_le16 a b) OR push_bit 16 (ucast (of_le16 c d))"
  unfolding of_le32_def of_le16_def by (rule bit_word_eqI) (auto simp: bit_simps)

lemma unat_u16 [simp]: "unat (w :: u16) < 65536"
  using unsigned_less [of w, where ?'a = nat] by simp

lemma unat_of_le32: "unat (of_le32 a b c d) = unat (of_le16 a b) + 65536 * unat (of_le16 c d)"
  using unat_u16 [of "of_le16 a b"] unat_u16 [of "of_le16 c d"]
    unat_or_push_bit [where x = "ucast (of_le16 a b) :: u32" and y = "ucast (of_le16 c d)" and n = 16]
  by (simp add: of_le32_of_le16 unat_ucast_id)

end
