(* ===== verification/Hashing.thy ===== *)
theory Hashing
  imports Prelude
begin

text \<open>
  The two hash functions of src/common/crc32.c: \<^verbatim>\<open>crc32\<close>, which maps a key to the server that
  stores it, and \<^verbatim>\<open>cksum16\<close>, which maps a key to its spine switch. The inner loop runs eight
  times for every byte; the outer loops are recursive functions over the index, respectively the
  advancing pointer, and reading outside the message is \<^verbatim>\<open>Undefined\<close>.
\<close>

section \<open>CRC-32\<close>

text \<open>One round of the inner loop: \<^verbatim>\<open>mask = -(crc & 1)\<close> selects the polynomial.\<close>

definition crc_bit :: "u32 \<Rightarrow> u32" where
  "crc_bit crc = drop_bit 1 crc XOR (0xEDB88320 AND (- (crc AND 1)))"

definition crc_byte :: "byte \<Rightarrow> u32 \<Rightarrow> u32" where
  "crc_byte b crc = (crc_bit ^^ 8) (crc XOR ucast b)"

function crc32_loop :: "byte list \<Rightarrow> int \<Rightarrow> nat \<Rightarrow> u32 \<Rightarrow> u32 res" where
  "crc32_loop message sz i crc =
     (if length message \<le> i then Inl Undefined
      else let crc' = crc_byte (message ! i) crc
           in if int (i + 1) = sz then Inr (NOT crc')
              else crc32_loop message sz (i + 1) crc')"
  by pat_completeness auto
termination
  by (relation "measure (\<lambda>(message, sz, i, crc). length message - i)") auto

declare crc32_loop.simps [simp del]

definition crc32 :: "byte list \<Rightarrow> u32 \<Rightarrow> u32 res" where
  "crc32 message sz = crc32_loop message (sint sz) 0 0xFFFFFFFF"

text \<open>The shift register run over a message.\<close>

definition crc_reg :: "byte list \<Rightarrow> u32 \<Rightarrow> u32" where
  "crc_reg bs crc = fold crc_byte bs crc"

lemma crc32_loop_fold:
  assumes "0 < n" "i + n \<le> length message"
  shows "crc32_loop message (int (i + n)) i crc = Inr (NOT (crc_reg (take n (drop i message)) crc))"
  using assms
proof (induction n arbitrary: i crc rule: nat_induct)
  case (Suc n)
  have i: "i < length message" using Suc.prems by simp
  then have d: "take (Suc n) (drop i message) = message ! i # take n (drop (Suc i) message)"
    by (simp add: Cons_nth_drop_Suc [symmetric])
  show ?case
  proof (cases n)
    case 0
    with i d show ?thesis by (simp add: crc32_loop.simps [of message] crc_reg_def Let_def)
  next
    case (Suc k)
    with Suc.IH [of "Suc i" "crc_byte (message ! i) crc"] Suc.prems i d show ?thesis
      by (simp add: crc32_loop.simps [of message _ i] crc_reg_def Let_def)
  qed
qed simp

lemma sint_small_u32: "unat (sz :: u32) < 2 ^ 31 \<Longrightarrow> sint sz = int (unat sz)"
proof -
  assume "unat sz < 2 ^ 31"
  then have "int (unat sz) < int (2 ^ 31)" by (simp only: of_nat_less_iff)
  then have "uint sz < 2 ^ 31" by simp
  moreover have "- (2 ^ 31) \<le> uint sz" by (rule order_trans [of _ 0]) simp_all
  ultimately have "signed_take_bit 31 (uint sz) = uint sz"
    by (intro signed_take_bit_int_eq_self)
  then show ?thesis by (simp add: sint_uint)
qed

lemma crc32_eq:
  assumes "0 < unat sz" "unat sz \<le> length message" "unat sz < 2 ^ 31"
  shows "crc32 message sz = Inr (NOT (crc_reg (take (unat sz) message) 0xFFFFFFFF))"
  using crc32_loop_fold [of "unat sz" 0 message] assms by (simp add: crc32_def sint_small_u32)

text \<open>With \<^verbatim>\<open>size = 0\<close> the loop does not stop before the end of the message: the index is
  compared after it was incremented.\<close>

lemma crc32_loop_overrun:
  "sz \<le> int i \<Longrightarrow> crc32_loop message sz i crc = Inl Undefined"
proof (induction message sz i crc rule: crc32_loop.induct)
  case (1 message sz i crc)
  then show ?case by (subst crc32_loop.simps) (auto simp: Let_def)
qed

text \<open>The register is linear over exclusive or, so the checksum is affine.\<close>

lemma mask_low: "- (c AND 1) = (if bit c 0 then - 1 else (0 :: u32))"
  by (simp add: and_one_eq mod_2_eq_odd bit_0)

lemma crc_bit_xor: "crc_bit (a XOR b) = crc_bit a XOR crc_bit b"
  by (rule bit_word_eqI) (auto simp: crc_bit_def mask_low bit_simps)

lemma crc_bit_pow_xor: "(crc_bit ^^ n) (a XOR b) = (crc_bit ^^ n) a XOR (crc_bit ^^ n) b"
  by (induction n) (simp_all add: crc_bit_xor)

lemma crc_byte_xor: "crc_byte (a XOR b) (c XOR d) = crc_byte a c XOR crc_byte b d"
proof -
  have "(c XOR d) XOR ucast (a XOR b) = (c XOR ucast a) XOR (d XOR (ucast b :: u32))"
    by (rule bit_word_eqI) (auto simp: bit_simps)
  then show ?thesis by (simp add: crc_byte_def crc_bit_pow_xor)
qed

lemma crc_reg_xor:
  "length xs = length ys \<Longrightarrow>
   crc_reg (map2 (XOR) xs ys) (c XOR d) = crc_reg xs c XOR crc_reg ys d"
  by (induction xs ys arbitrary: c d rule: list_induct2) (simp_all add: crc_reg_def crc_byte_xor)

subsection \<open>Division of polynomials\<close>

text \<open>The reference does not mention the register: CRC-32 (IEEE 802.3) is the remainder of a division of polynomials over the
  field of two elements, which are lists of their coefficients, the highest power first. \<^verbatim>\<open>poly_rem g\<close> divides by the
  polynomial with leading coefficient 1 and the other coefficients \<^verbatim>\<open>g\<close>.\<close>

definition xor_head :: "bool list \<Rightarrow> bool list \<Rightarrow> bool list" where
  "xor_head ys xs = map2 (\<noteq>) ys xs @ drop (length ys) xs"

function poly_rem :: "bool list \<Rightarrow> bool list \<Rightarrow> bool list" where
  "poly_rem g [] = []"
| "poly_rem g (x # xs) = (if length xs < length g then x # xs else poly_rem g (if x then xor_head g xs else xs))"
  by pat_completeness auto
termination
  by (relation "measure (length \<circ> snd)") (auto simp: xor_head_def)

declare poly_rem.simps(2) [simp del]

text \<open>The generator without its leading power 32, the bits of a message in the order of their transmission, and the
  remainder of the message with its first 32 bits inverted and 32 zeros appended.\<close>

definition crc_generator :: "bool list" where
  "crc_generator = map (\<lambda>e. e \<in> set [26, 23, 22, 16, 12, 11, 10, 8, 7, 5, 4, 2, 1, 0]) (rev [0..<32 :: nat])"

definition byte_bits :: "byte \<Rightarrow> bool list" where
  "byte_bits b = map (bit b) [0..<8]"

definition crc_remainder :: "byte list \<Rightarrow> bool list" where
  "crc_remainder bs = (let m = concat (map byte_bits bs) @ replicate 32 False in poly_rem crc_generator (map Not (take 32 m) @ drop 32 m))"

definition reg_bits :: "u32 \<Rightarrow> bool list" where
  "reg_bits r = map (bit r) [0..<32]"

definition reg_step :: "bool \<Rightarrow> bool list \<Rightarrow> bool list" where
  "reg_step b r = (let s = tl r @ [False] in if hd r \<noteq> b then map2 (\<noteq>) crc_generator s else s)"

lemma length_generator [simp]: "length crc_generator = 32"
  by (simp add: crc_generator_def)

lemma length_reg_bits [simp]: "length (reg_bits r) = 32"
  by (simp add: reg_bits_def)

lemma length_reg_step [simp]: "length r = 32 \<Longrightarrow> length (reg_step b r) = 32"
  by (simp add: reg_step_def Let_def)

lemma length_xor_head: "length ys \<le> length xs \<Longrightarrow> length (xor_head ys xs) = length xs"
  by (simp add: xor_head_def)

lemma nth_xor_head:
  "length ys \<le> length xs \<Longrightarrow> i < length xs \<Longrightarrow> xor_head ys xs ! i = (if i < length ys then ys ! i \<noteq> xs ! i else xs ! i)"
  by (simp add: xor_head_def nth_append)

lemma xor_head_shift: "length t < length zs \<Longrightarrow> xor_head t zs = xor_head (t @ [False]) zs"
  by (rule nth_equalityI) (auto simp: length_xor_head nth_xor_head nth_append less_Suc_eq)

lemma xor_head_twice: "length p = length r \<Longrightarrow> length r \<le> length zs \<Longrightarrow> xor_head p (xor_head r zs) = xor_head (map2 (\<noteq>) p r) zs"
  by (rule nth_equalityI) (auto simp: length_xor_head nth_xor_head)

text \<open>One step of the division is one step of the register.\<close>

lemma poly_rem_step:
  assumes "length r = 32" "32 \<le> length zs"
  shows "poly_rem crc_generator (xor_head r (b # zs)) = poly_rem crc_generator (xor_head (reg_step b r) zs)"
proof -
  obtain h t where r: "r = h # t" "length t = 31" using assms(1) by (cases r) auto
  have "xor_head r (b # zs) = (h \<noteq> b) # xor_head t zs" by (simp add: xor_head_def r)
  moreover have "length (xor_head t zs) = length zs" using r assms by (simp add: length_xor_head)
  moreover have "xor_head t zs = xor_head (t @ [False]) zs" using r assms by (intro xor_head_shift) simp
  moreover have "xor_head crc_generator (xor_head (t @ [False]) zs) = xor_head (map2 (\<noteq>) crc_generator (t @ [False])) zs"
    using r assms by (intro xor_head_twice) simp_all
  ultimately show ?thesis using assms(2) by (simp add: poly_rem.simps(2) reg_step_def r Let_def)
qed

lemma poly_rem_run:
  "length r = 32 \<Longrightarrow> poly_rem crc_generator (xor_head r (bs @ replicate 32 False)) = fold reg_step bs r"
proof (induction bs arbitrary: r)
  case Nil
  then have "xor_head r (replicate 32 False) = r" by (intro nth_equalityI) (simp_all add: length_xor_head nth_xor_head)
  then show ?case using Nil by (cases r) (simp_all add: poly_rem.simps(2))
next
  case (Cons b bs)
  then show ?case using poly_rem_step [of r "bs @ replicate 32 False" b] by simp
qed

text \<open>The register of the code takes in one bit of the message at its low end, and a byte as its eight bits.\<close>

lemma generator_bits: "map (bit (0xEDB88320 :: u32)) [0..<32] = crc_generator"
  by (simp add: crc_generator_def upt_conv_Cons)

lemma generator_nth: "i < 32 \<Longrightarrow> bit (0xEDB88320 :: u32) i = crc_generator ! i"
  by (simp flip: generator_bits)

lemma reg_bits_step: "reg_bits (crc_bit (r XOR of_bool b)) = reg_step b (reg_bits r)"
proof (rule nth_equalityI)
  fix i
  assume "i < length (reg_bits (crc_bit (r XOR of_bool b)))"
  then have i: "i < 32" by simp
  have "bit (crc_bit (r XOR of_bool b)) i = ((i + 1 < 32 \<and> bit r (i + 1)) \<noteq> ((bit r 0 \<noteq> b) \<and> crc_generator ! i))"
    using i generator_nth [OF i] by (auto simp: crc_bit_def mask_low bit_simps dest: bit_imp_le_length)
  moreover have "hd (reg_bits r) = bit r 0" by (simp add: reg_bits_def upt_conv_Cons)
  moreover have "(tl (reg_bits r) @ [False]) ! i = (i + 1 < 32 \<and> bit r (i + 1))"
    using i by (auto simp: nth_append nth_tl reg_bits_def)
  ultimately show "reg_bits (crc_bit (r XOR of_bool b)) ! i = reg_step b (reg_bits r) ! i"
    using i by (auto simp: reg_step_def Let_def) (auto simp: reg_bits_def)
qed simp

lemma crc_bit_split: "crc_bit (r XOR w) = crc_bit (r XOR of_bool (bit w 0)) XOR drop_bit 1 w"
  by (rule bit_word_eqI) (auto simp: crc_bit_def mask_low bit_simps)

lemma crc_byte_bits: "(crc_bit ^^ n) (r XOR w) = fold (\<lambda>i r. crc_bit (r XOR of_bool (bit w i))) [0..<n] r XOR drop_bit n w"
proof (induction n)
  case (Suc n)
  show ?case
    using crc_bit_split [of _ "drop_bit n w"] by (simp add: Suc.IH bit_drop_bit_eq drop_bit_drop_bit)
qed simp

lemma fold_reg_bits: "reg_bits (fold (\<lambda>b r. crc_bit (r XOR of_bool b)) bs r) = fold reg_step bs (reg_bits r)"
  by (induction bs arbitrary: r) (simp_all add: reg_bits_step)

lemma reg_bits_byte: "reg_bits (crc_byte b r) = fold reg_step (byte_bits b) (reg_bits r)"
proof -
  have "drop_bit 8 (ucast b :: u32) = 0" by (rule bit_word_eqI) (auto simp: bit_simps)
  moreover have "bit (ucast b :: u32) i = bit b i" if "i < 8" for i using that by (simp add: bit_simps)
  then have "fold (\<lambda>i r. crc_bit (r XOR of_bool (bit (ucast b :: u32) i))) [0..<8] r = fold (\<lambda>i r. crc_bit (r XOR of_bool (bit b i))) [0..<8] r"
    by (intro fold_cong) simp_all
  ultimately have "crc_byte b r = fold (\<lambda>b r. crc_bit (r XOR of_bool b)) (byte_bits b) r"
    unfolding crc_byte_def crc_byte_bits byte_bits_def fold_map by (simp add: comp_def)
  then show ?thesis by (simp add: fold_reg_bits)
qed

lemma reg_bits_message: "reg_bits (crc_reg bs r) = fold reg_step (concat (map byte_bits bs)) (reg_bits r)"
  by (induction bs arbitrary: r) (simp_all add: crc_reg_def reg_bits_byte)

lemma crc_remainder_reg: "reg_bits (crc_reg bs 0xFFFFFFFF) = crc_remainder bs"
proof -
  let ?m = "concat (map byte_bits bs) @ replicate 32 False"
  have ones: "reg_bits 0xFFFFFFFF = replicate 32 True" by (simp add: reg_bits_def upt_conv_Cons numeral_eq_Suc)
  have "map Not (take 32 xs) @ drop 32 xs = xor_head (replicate 32 True) xs" if "32 \<le> length xs" for xs
    using that by (intro nth_equalityI) (auto simp: length_xor_head nth_xor_head nth_append)
  from this [of ?m] have "map Not (take 32 ?m) @ drop 32 ?m = xor_head (replicate 32 True) ?m" by simp
  then show ?thesis
    using poly_rem_run [of "replicate 32 True" "concat (map byte_bits bs)"] by (simp add: crc_remainder_def Let_def reg_bits_message ones)
qed

section \<open>The 16-bit checksum\<close>

text \<open>\<^verbatim>\<open>*(const uint64_t *)b\<close> on a little-endian host.\<close>

definition load64 :: "byte list \<Rightarrow> u64" where
  "load64 bs = ucast (load32 bs) OR push_bit 32 (ucast (load32 (drop 4 bs)))"

text \<open>\<^verbatim>\<open>sum += s; if (sum < s) sum++;\<close> at the width of the accumulator.\<close>

definition add_carry :: "'a::len word \<Rightarrow> 'a word \<Rightarrow> 'a word" where
  "add_carry acc s = (let acc' = acc + s in if acc' < s then acc' + 1 else acc')"

fun cksum16_loop :: "byte list \<Rightarrow> nat \<Rightarrow> u64 \<Rightarrow> (byte list \<times> nat \<times> u64) res" where
  "cksum16_loop b len acc =
     (if 8 \<le> len then
        if length b < 8 then Inl Undefined
        else cksum16_loop (drop 8 b) (len - 8) (add_carry acc (load64 b))
      else Inr (b, len, acc))"

declare cksum16_loop.simps [simp del]

text \<open>\<^verbatim>\<open>if (len & n) { s = *(uintN_t *)tail; sum += s; if (sum < s) sum++; tail += n; }\<close>\<close>

definition cksum16_tail :: "nat \<Rightarrow> (byte list \<Rightarrow> u64) \<Rightarrow> nat \<Rightarrow> byte list \<times> u64 \<Rightarrow> (byte list \<times> u64) res" where
  "cksum16_tail n load len st = (case st of (tail, acc) \<Rightarrow>
     if len div n mod 2 = 1 then
       if length tail < n then Inl Undefined
       else Inr (drop n tail, add_carry acc (load tail))
     else Inr (tail, acc))"

definition cksum16_fold :: "u64 \<Rightarrow> u16" where
  "cksum16_fold acc =
     (let t1 = (ucast acc :: u32); t2 = (ucast (drop_bit 32 acc) :: u32);
          t1' = add_carry t1 t2;
          t3 = (ucast t1' :: u16); t4 = (ucast (drop_bit 16 t1') :: u16)
      in add_carry t3 t4)"

definition cksum16 :: "byte list \<Rightarrow> u32 \<Rightarrow> u16 res" where
  "cksum16 buf len =
     bind_res (cksum16_loop buf (unat len) 0) (\<lambda>(b, n, acc).
     bind_res (cksum16_tail 4 (\<lambda>t. ucast (load32 t)) n (b, acc)) (\<lambda>st.
     bind_res (cksum16_tail 2 (\<lambda>t. ucast (load16 t)) n st) (\<lambda>st.
     bind_res (cksum16_tail 1 (\<lambda>t. ucast (hd t)) n st) (\<lambda>(t, acc).
     Inr (htons (NOT (cksum16_fold acc)))))))"

text \<open>The reference: the one's complement sum of the little-endian 16-bit words of the message,
  an odd last byte counting as a word of its own.\<close>

fun sum16 :: "byte list \<Rightarrow> nat" where
  "sum16 (a # b # bs) = unat (of_le16 a b) + sum16 bs"
| "sum16 [a] = unat a"
| "sum16 [] = 0"

text \<open>Adding with the carry put back is addition modulo one less than the range.\<close>

lemma add_carry_mod:
  fixes a b :: "'a::len word"
  assumes "m dvd 2 ^ LENGTH('a) - 1"
  shows "unat (add_carry a b) mod m = (unat a + unat b) mod m"
proof -
  let ?M = "2 ^ LENGTH('a) :: nat"
  have ab: "unat a < ?M" "unat b < ?M" by (rule unsigned_less)+
  have eq: "unat (a + b) = (if unat a + unat b < ?M then unat a + unat b else unat a + unat b - ?M)"
    by (rule unat_plus_if')
  show ?thesis
  proof (cases "unat a + unat b < ?M")
    case True
    then have "\<not> a + b < b" by (simp add: word_less_nat_alt eq)
    with True show ?thesis by (simp add: add_carry_def eq)
  next
    case False
    then have ge: "unat (a + b) = unat a + unat b - ?M" using eq by simp
    have "unat (a + b) < unat b" "unat (a + b) + 1 < ?M" using ab False ge by linarith+
    then have lt: "a + b < b" and "unat (a + b + 1) = unat (a + b) + 1"
      by (simp_all add: word_less_nat_alt unat_word_ariths)
    then have "unat (add_carry a b) = unat a + unat b - (?M - 1)"
      using lt False ge by (simp add: add_carry_def)
    moreover have "unat a + unat b = unat a + unat b - (?M - 1) + (?M - 1)" using False by simp
    moreover obtain c where "?M - 1 = m * c" using assms by (auto elim: dvdE)
    ultimately show ?thesis by (metis mod_mult_self2 mult.commute)
  qed
qed

lemma sum16_append: "even (length xs) \<Longrightarrow> sum16 (xs @ ys) = sum16 xs + sum16 ys"
  by (induction xs rule: sum16.induct) simp_all

lemma sum16_take_add:
  "even d \<Longrightarrow> d \<le> length bs \<Longrightarrow> sum16 (take (d + n) bs) = sum16 (take d bs) + sum16 (take n (drop d bs))"
  by (simp add: take_add sum16_append min_def)

lemma mod_radix: "(x + (65535 * k + 1) * y) mod 65535 = (x + y) mod (65535::nat)"
proof -
  have "x + (65535 * k + 1) * y = x + y + 65535 * (k * y)" by (simp add: algebra_simps)
  then show ?thesis by (simp only: mod_mult_self2)
qed

lemma unat_load32:
  "4 \<le> length bs \<Longrightarrow> unat (load32 bs) mod 65535 = sum16 (take 4 bs) mod 65535"
proof -
  assume "4 \<le> length bs"
  then obtain a b c d r where "bs = a # b # c # d # r"
    by (auto simp: numeral_eq_Suc Suc_le_length_iff)
  then show ?thesis
    using mod_radix [of "unat (of_le16 a b)" 1 "unat (of_le16 c d)"]
    by (simp add: unat_of_le32 take_Cons')
qed

lemma unat_load16: "2 \<le> length bs \<Longrightarrow> unat (load16 bs) = sum16 (take 2 bs)"
  by (auto simp: numeral_2_eq_2 Suc_le_length_iff)

lemma sum16_hd: "Suc 0 \<le> length bs \<Longrightarrow> sum16 (take (Suc 0) bs) = unat (hd bs)"
  by (cases bs) simp_all

lemma unat_load64:
  "8 \<le> length bs \<Longrightarrow> unat (load64 bs) mod 65535 = sum16 (take 8 bs) mod 65535"
proof -
  assume l: "8 \<le> length bs"
  let ?lo = "load32 bs" and ?hi = "load32 (drop 4 bs)"
  have lt: "unat (w :: u32) < 4294967296" for w
    using unsigned_less [of w, where ?'a = nat] by simp
  have "unat (load64 bs) = unat ?lo + 4294967296 * unat ?hi"
    using lt [of ?lo] lt [of ?hi]
      unat_or_push_bit [where x = "ucast ?lo :: u64" and y = "ucast ?hi" and n = 32]
    by (simp add: load64_def unat_ucast_id)
  also have "\<dots> mod 65535 = (unat ?lo + unat ?hi) mod 65535"
    using mod_radix [of "unat ?lo" 65537 "unat ?hi"] by simp
  also have "\<dots> = (sum16 (take 4 bs) + sum16 (take 4 (drop 4 bs))) mod 65535"
    using l by (intro mod_add_cong unat_load32) simp_all
  also have "take 8 bs = take 4 bs @ take 4 (drop 4 bs)"
    by (simp flip: take_add)
  then have "sum16 (take 4 bs) + sum16 (take 4 (drop 4 bs)) = sum16 (take 8 bs)"
    using l by (simp add: sum16_append min_def)
  finally show ?thesis .
qed

lemma add_carry_u64: "unat (add_carry a (b :: u64)) mod 65535 = (unat a + unat b) mod 65535"
  by (rule add_carry_mod) (simp add: dvd_eq_mod_eq_0)

lemma cksum16_loop_sum:
  assumes "len \<le> length b"
  shows "\<exists>acc'. cksum16_loop b len acc = Inr (drop (len - len mod 8) b, len mod 8, acc') \<and>
    unat acc' mod 65535 = (unat acc + sum16 (take (len - len mod 8) b)) mod 65535"
  using assms
proof (induction b len acc rule: cksum16_loop.induct)
  case (1 b len acc)
  show ?case
  proof (cases "8 \<le> len")
    case False
    then show ?thesis by (simp add: cksum16_loop.simps [of b])
  next
    case True
    define k where "k = len - 8 - (len - 8) mod 8"
    have m: "(len - 8) mod 8 = len mod 8" using True by (simp add: le_mod_geq)
    have k: "len - len mod 8 = 8 + k"
      using True m mod_less_eq_dividend [of "len - 8" 8] by (simp add: k_def)
    have b: "8 \<le> length b" using True "1.prems" by simp
    obtain acc' where IH: "cksum16_loop (drop 8 b) (len - 8) (add_carry acc (load64 b)) =
        Inr (drop k (drop 8 b), len mod 8, acc')"
      "unat acc' mod 65535 = (unat (add_carry acc (load64 b)) + sum16 (take k (drop 8 b))) mod 65535"
      using "1.IH" [OF True] "1.prems" b m unfolding k_def by fastforce
    have "unat acc' mod 65535 = (unat acc + unat (load64 b) + sum16 (take k (drop 8 b))) mod 65535"
      unfolding IH(2) by (rule mod_add_cong [OF add_carry_u64 refl])
    also have "\<dots> = (unat acc + (sum16 (take 8 b) + sum16 (take k (drop 8 b)))) mod 65535"
      unfolding add.assoc by (rule mod_add_cong [OF refl mod_add_cong [OF unat_load64 [OF b] refl]])
    also have "sum16 (take 8 b) + sum16 (take k (drop 8 b)) = sum16 (take (8 + k) b)"
      using b by (intro sum16_take_add [symmetric]) simp_all
    finally show ?thesis
      using IH(1) True b unfolding k by (simp add: cksum16_loop.simps [of b len] add.commute)
  qed
qed

text \<open>A tail step extends the summed prefix from a multiple of \<^verbatim>\<open>2 * n\<close> to one of \<^verbatim>\<open>n\<close>.\<close>

lemma cksum16_tail_sum:
  assumes len: "len \<le> length buf" and n: "n \<in> {1, 2, 4}"
    and load: "\<And>t. n \<le> length t \<Longrightarrow> unat (load t) mod 65535 = sum16 (take n t) mod 65535"
    and acc: "unat acc mod 65535 = sum16 (take (len - len mod (2 * n)) buf) mod 65535"
  shows "\<exists>acc'. cksum16_tail n load (len mod 8) (drop (len - len mod (2 * n)) buf, acc) =
      Inr (drop (len - len mod n) buf, acc') \<and>
    unat acc' mod 65535 = sum16 (take (len - len mod n) buf) mod 65535"
proof -
  define d where "d = len - len mod (2 * n)"
  have split: "len mod (2 * n) = n * (len div n mod 2) + len mod n"
    by (metis mod_mult2_eq mult.commute)
  have bit: "len mod 8 div n mod 2 = len div n mod 2"
  proof -
    have "len mod (n * (8 div n)) div n = len div n mod (8 div n)"
      using n by (auto simp: mod_mult2_eq)
    moreover have "n * (8 div n) = 8" "2 dvd 8 div n" using n by auto
    ultimately show ?thesis by (simp add: mod_mod_cancel)
  qed
  show ?thesis
  proof (cases "len div n mod 2 = 1")
    case True
    have dn: "len - len mod n = d + n"
      using split True mod_less_eq_dividend [of len "2 * n"] by (simp add: d_def)
    have le: "n \<le> length (drop d buf)" using dn len by simp
    have "even d" by (simp add: d_def minus_mod_eq_mult_div)
    then have "sum16 (take (d + n) buf) = sum16 (take d buf) + sum16 (take n (drop d buf))"
      using len by (intro sum16_take_add) (simp_all add: d_def)
    then have "(unat acc + unat (load (drop d buf))) mod 65535 = sum16 (take (d + n) buf) mod 65535"
      using mod_add_cong [OF acc [folded d_def] load [OF le]] by simp
    then show ?thesis
      using True le bit unfolding d_def [symmetric] dn
      by (simp add: cksum16_tail_def add_carry_u64 add.commute)
  next
    case False
    then have "len mod (2 * n) = len mod n" using split by (simp add: not_mod_2_eq_1_eq_0)
    with False bit acc show ?thesis by (simp add: cksum16_tail_def)
  qed
qed

lemma unat_halves:
  fixes w :: "'a::len word"
  assumes "LENGTH('a) = 2 * LENGTH('b::len)"
  shows "unat w = unat (ucast w :: 'b word) + 2 ^ LENGTH('b) * unat (ucast (drop_bit LENGTH('b) w) :: 'b word)"
proof -
  let ?B = "2 ^ LENGTH('b) :: nat"
  have "unat w < 2 ^ LENGTH('a)" by (rule unsigned_less)
  then have "unat w < ?B * ?B" by (simp only: assms mult_2 power_add)
  then have "unat w div ?B < ?B" by (rule less_mult_imp_div_less)
  then have "take_bit LENGTH('b) (unat w div ?B) = unat w div ?B" by (rule take_bit_nat_eq_self)
  then have "unat (ucast (drop_bit LENGTH('b) w) :: 'b word) = unat w div ?B"
    by (simp only: unsigned_ucast_eq unat_drop_bit_eq drop_bit_eq_div [where ?'a = nat])
  moreover have "unat (ucast w :: 'b word) = unat w mod ?B"
    by (simp only: unsigned_ucast_eq take_bit_eq_mod)
  ultimately show ?thesis by (simp only: mod_mult_div_eq)
qed

lemma cksum16_fold_sum: "unat (cksum16_fold acc) mod 65535 = unat acc mod 65535"
proof -
  let ?t1 = "ucast acc :: u32" and ?t2 = "ucast (drop_bit 32 acc) :: u32"
  let ?t = "add_carry ?t1 ?t2"
  let ?t3 = "ucast ?t :: u16" and ?t4 = "ucast (drop_bit 16 ?t) :: u16"
  have s1: "unat acc = unat ?t1 + 4294967296 * unat ?t2"
    using unat_halves [of acc, where ?'b = 32] by simp
  have s2: "unat ?t = unat ?t3 + 65536 * unat ?t4"
    using unat_halves [of ?t, where ?'b = 16] by simp
  have "unat (cksum16_fold acc) mod 65535 = (unat ?t3 + unat ?t4) mod 65535"
    unfolding cksum16_fold_def Let_def by (rule add_carry_mod) simp
  also have "\<dots> = unat ?t mod 65535"
    using mod_radix [of "unat ?t3" 1 "unat ?t4"] s2 by simp
  also have "\<dots> = (unat ?t1 + unat ?t2) mod 65535"
    by (rule add_carry_mod) (simp add: dvd_eq_mod_eq_0)
  also have "\<dots> = unat acc mod 65535"
    using mod_radix [of "unat ?t1" 65537 "unat ?t2"] s1 by simp
  finally show ?thesis .
qed

lemma cksum16_total:
  assumes "unat len \<le> length buf"
  shows "\<exists>t. cksum16 buf len = Inr (htons (NOT t)) \<and>
    unat t mod 65535 = sum16 (take (unat len) buf) mod 65535"
proof -
  let ?n = "unat len"
  let ?sums = "\<lambda>acc k. unat acc mod 65535 = sum16 (take (?n - ?n mod k) buf) mod 65535"
  obtain a0 where a0: "cksum16_loop buf ?n 0 = Inr (drop (?n - ?n mod 8) buf, ?n mod 8, a0)" "?sums a0 8"
    using cksum16_loop_sum [OF assms, of 0] by auto
  obtain a1 where a1: "cksum16_tail 4 (\<lambda>t. ucast (load32 t)) (?n mod 8) (drop (?n - ?n mod 8) buf, a0) =
      Inr (drop (?n - ?n mod 4) buf, a1)" "?sums a1 4"
    using cksum16_tail_sum [OF assms, of 4 "\<lambda>t. ucast (load32 t)" a0] a0(2)
    by (auto simp: unat_ucast_id unat_load32)
  obtain a2 where a2: "cksum16_tail 2 (\<lambda>t. ucast (load16 t)) (?n mod 8) (drop (?n - ?n mod 4) buf, a1) =
      Inr (drop (?n - ?n mod 2) buf, a2)" "?sums a2 2"
    using cksum16_tail_sum [OF assms, of 2 "\<lambda>t. ucast (load16 t)" a1] a1(2)
    by (auto simp: unat_ucast_id unat_load16)
  obtain a3 where a3: "cksum16_tail 1 (\<lambda>t. ucast (hd t)) (?n mod 8) (drop (?n - ?n mod 2) buf, a2) =
      Inr (drop ?n buf, a3)" "?sums a3 1"
    using cksum16_tail_sum [OF assms, of 1 "\<lambda>t. ucast (hd t)" a2] a2(2)
    by (auto simp: unat_ucast_id sum16_hd)
  show ?thesis
    using a0(1) a1(1) a2(1) a3 by (auto simp: cksum16_def cksum16_fold_sum)
qed

section \<open>Properties\<close>

text \<open>C35: \<^verbatim>\<open>crc32\<close> is CRC-32: on a non-empty message that is inside its buffer, bit i of the result is the
  complement of the coefficient of power 31 - i of the remainder which the message, its first 32 bits inverted and 32 zeros
  appended, leaves when it is divided by the polynomial x^32 + x^26 + x^23 + x^22 + x^16 + x^12 + x^11 + x^10 + x^8 + x^7 + x^5 +
  x^4 + x^2 + x + 1. The checksum of the exclusive or of three messages of one length is the exclusive or of their
  checksums. On an empty message the code does not stop: it reads behind the buffer.\<close>

theorem crc32_spec:
  "(0 < unat sz \<and> unat sz \<le> length message \<and> unat sz < 2 ^ 31 \<longrightarrow>
     (\<exists>c. crc32 message sz = Inr c \<and> map (bit c) [0..<32] = map Not (crc_remainder (take (unat sz) message)))) \<and>
   (length a = unat sz \<and> length b = unat sz \<and> length c = unat sz \<and> 0 < unat sz \<and> unat sz < 2 ^ 31 \<longrightarrow>
     (\<exists>x y z. crc32 a sz = Inr x \<and> crc32 b sz = Inr y \<and> crc32 c sz = Inr z \<and>
       crc32 (map2 (XOR) (map2 (XOR) a b) c) sz = Inr (x XOR y XOR z))) \<and>
   crc32 message 0 = Inl Undefined"
proof (intro conjI impI)
  assume h: "0 < unat sz \<and> unat sz \<le> length message \<and> unat sz < 2 ^ 31"
  have "map (bit (NOT r)) [0..<32] = map Not (reg_bits r)" for r :: u32 by (simp add: reg_bits_def bit_simps)
  then show "\<exists>c. crc32 message sz = Inr c \<and> map (bit c) [0..<32] = map Not (crc_remainder (take (unat sz) message))"
    using crc32_eq [of sz message] h by (simp flip: crc_remainder_reg)
next
  assume h: "length a = unat sz \<and> length b = unat sz \<and> length c = unat sz \<and> 0 < unat sz \<and> unat sz < 2 ^ 31"
  let ?r = "\<lambda>m. crc_reg m 0xFFFFFFFF"
  have eq: "crc32 m sz = Inr (NOT (?r m))" if "length m = unat sz" for m
    using crc32_eq [of sz m] h that by simp
  have "?r (map2 (XOR) (map2 (XOR) a b) c) = ?r a XOR ?r b XOR ?r c"
    using crc_reg_xor [of "map2 (XOR) a b" c "0xFFFFFFFF XOR 0xFFFFFFFF" "0xFFFFFFFF"] h
      crc_reg_xor [of a b "0xFFFFFFFF" "0xFFFFFFFF"] by (simp add: xor.assoc)
  moreover have "NOT (u XOR v XOR w) = NOT u XOR NOT v XOR NOT w" for u v w :: u32
    by (rule bit_word_eqI) (auto simp: bit_simps)
  ultimately show "\<exists>x y z. crc32 a sz = Inr x \<and> crc32 b sz = Inr y \<and> crc32 c sz = Inr z \<and>
      crc32 (map2 (XOR) (map2 (XOR) a b) c) sz = Inr (x XOR y XOR z)"
    using h by (simp add: eq)
next
  show "crc32 message 0 = Inl Undefined" using crc32_loop_overrun [of 0 0] by (simp add: crc32_def)
qed

text \<open>The division on the letter a.\<close>

lemma crc_remainder_a: "map Not (crc_remainder [0x61]) = map (bit (0xE8B7BE43 :: u32)) [0..<32]"
  by code_simp

theorem crc32_spec_witness:
  "crc32 [0x61] 1 = Inr 0xE8B7BE43 \<and>
   (\<exists>x y z. crc32 [1, 2] 2 = Inr x \<and> crc32 [3, 4] 2 = Inr y \<and> crc32 [5, 6] 2 = Inr z \<and>
     crc32 [7, 0] 2 = Inr (x XOR y XOR z))"
proof
  obtain c where "crc32 [0x61] 1 = Inr c" "map (bit c) [0..<32] = map (bit (0xE8B7BE43 :: u32)) [0..<32]"
    using crc32_spec [of 1 "[0x61]" "[]" "[]" "[]"] crc_remainder_a by auto
  moreover from this(2) have "c = 0xE8B7BE43" by (intro bit_word_eqI) (simp add: map_eq_conv)
  ultimately show "crc32 [0x61] 1 = Inr 0xE8B7BE43" by simp
  show "\<exists>x y z. crc32 [1, 2] 2 = Inr x \<and> crc32 [3, 4] 2 = Inr y \<and> crc32 [5, 6] 2 = Inr z \<and>
     crc32 [7, 0] 2 = Inr (x XOR y XOR z)"
    using crc32_spec [of 2 "[]" "[1, 2]" "[3, 4]" "[5, 6]"] by simp
qed

text \<open>C36: \<^verbatim>\<open>cksum16\<close> reads exactly the message (eight bytes at a time, then the rest) and returns
  the byte-swapped complement of a 16-bit one's-complement sum of the message: a number congruent
  modulo 65535 to the sum of its little-endian 16-bit words.\<close>

theorem cksum16_sum:
  assumes "unat len \<le> length buf"
  shows "\<exists>t. cksum16 buf len = Inr (htons (NOT t)) \<and>
    unat t mod 65535 = sum16 (take (unat len) buf) mod 65535"
  by (rule cksum16_total [OF assms])

theorem cksum16_sum_witness:
  "\<exists>t. cksum16 [1, 2, 3, 4, 5, 6, 7, 8, 9] 9 = Inr (htons (NOT t)) \<and>
     unat t mod 65535 = sum16 [1, 2, 3, 4, 5, 6, 7, 8, 9] mod 65535"
  using cksum16_sum [of 9 "[1, 2, 3, 4, 5, 6, 7, 8, 9]"] by simp

end
