(* ===== verification/Wire.thy ===== *)
theory Wire
  imports Prelude
begin

text \<open>
  Writing into and reading from a packet buffer through a moving pointer, as every
  \<^verbatim>\<open>serialize\<close> and \<^verbatim>\<open>deserialize\<close> of the program does: the state is the array the
  pointer \<^verbatim>\<open>data\<close> points to and the offset \<^verbatim>\<open>begin - data\<close>. The remaining size passed
  along in the code (\<^verbatim>\<open>max_size - uint32_t(begin - data)\<close>) is the length of the array
  minus the offset.

  A pattern lists the bytes a writer stores, with \<^verbatim>\<open>None\<close> for a byte it skips without
  writing. \<^verbatim>\<open>emits\<close> says that a writer stores exactly its pattern and nothing else,
  \<^verbatim>\<open>parses\<close> that a reader returns a value from every buffer that holds the pattern. The
  locale \<^verbatim>\<open>codec\<close> is the contract between a \<^verbatim>\<open>serialize\<close> and its \<^verbatim>\<open>deserialize\<close>; each
  packet part interprets it and the round trips follow.
\<close>

type_synonym wbuf = "byte list \<times> nat"
type_synonym writer = "wbuf \<Rightarrow> wbuf res"
type_synonym 'a reader = "wbuf \<Rightarrow> ('a \<times> wbuf) res"
type_synonym pattern = "byte option list"

named_theorems emits_intros \<open>what the writers store\<close>
named_theorems parses_intros \<open>what the readers return\<close>

section \<open>Primitive writers and readers\<close>

text \<open>\<^verbatim>\<open>memcpy(begin, src, n); begin += n;\<close>\<close>

definition overwrite :: "nat \<Rightarrow> byte list \<Rightarrow> byte list \<Rightarrow> byte list" where
  "overwrite off bs buf = take off buf @ bs @ drop (off + length bs) buf"

definition put_bytes :: "byte list \<Rightarrow> writer" where
  "put_bytes bs s = (case s of (buf, off) \<Rightarrow>
     if off + length bs \<le> length buf then Inr (overwrite off bs buf, off + length bs)
     else Inl Undefined)"

text \<open>\<^verbatim>\<open>begin += n;\<close> moves the pointer and touches no memory.\<close>

definition skip_bytes :: "nat \<Rightarrow> writer" where
  "skip_bytes n s = (case s of (buf, off) \<Rightarrow> Inr (buf, off + n))"

text \<open>\<^verbatim>\<open>INVARIANT(remaining >= n)\<close> on the space left behind the pointer.\<close>

definition require_space :: "nat \<Rightarrow> writer" where
  "require_space n s = (case s of (buf, off) \<Rightarrow>
     if off + n \<le> length buf then Inr s else Inl Abort)"

definition require :: "bool \<Rightarrow> writer" where
  "require b s = (if b then Inr s else Inl Abort)"

fun wseq :: "writer list \<Rightarrow> writer" where
  "wseq [] s = Inr s"
| "wseq (w # ws) s = bind_res (w s) (wseq ws)"

text \<open>\<^verbatim>\<open>memcpy(dst, begin, n); begin += n;\<close>\<close>

definition get_bytes :: "nat \<Rightarrow> byte list reader" where
  "get_bytes n s = (case s of (buf, off) \<Rightarrow>
     if off + n \<le> length buf then Inr (take n (drop off buf), (buf, off + n))
     else Inl Undefined)"

definition rbind :: "'a reader \<Rightarrow> ('a \<Rightarrow> 'b reader) \<Rightarrow> 'b reader" where
  "rbind r f s = bind_res (r s) (\<lambda>(x, s'). f x s')"

definition rreturn :: "'a \<Rightarrow> 'a reader" where
  "rreturn x s = Inr (x, s)"

definition rthen :: "writer \<Rightarrow> 'a reader \<Rightarrow> 'a reader" where
  "rthen w r s = bind_res (w s) r"

definition get16 :: "u16 reader" where
  "get16 = rbind (get_bytes 2) (\<lambda>bs. rreturn (load16 bs))"

definition get32 :: "u32 reader" where
  "get32 = rbind (get_bytes 4) (\<lambda>bs. rreturn (load32 bs))"

section \<open>What a writer stores\<close>

definition fill :: "byte option \<Rightarrow> byte \<Rightarrow> byte" where
  "fill p b = (case p of None \<Rightarrow> b | Some x \<Rightarrow> x)"

definition overlay :: "nat \<Rightarrow> pattern \<Rightarrow> byte list \<Rightarrow> byte list" where
  "overlay off pat buf =
     take off buf @ map2 fill pat (take (length pat) (drop off buf)) @ drop (off + length pat) buf"

definition emits :: "writer \<Rightarrow> pattern \<Rightarrow> bool" where
  "emits w pat \<longleftrightarrow> (\<forall>buf off. off + length pat \<le> length buf \<longrightarrow>
     w (buf, off) = Inr (overlay off pat buf, off + length pat))"

definition holds_pat :: "nat \<Rightarrow> pattern \<Rightarrow> byte list \<Rightarrow> bool" where
  "holds_pat off pat buf \<longleftrightarrow> off + length pat \<le> length buf \<and>
     (\<forall>i < length pat. \<forall>x. pat ! i = Some x \<longrightarrow> buf ! (off + i) = x)"

definition parses :: "'a reader \<Rightarrow> pattern \<Rightarrow> 'a \<Rightarrow> bool" where
  "parses r pat x \<longleftrightarrow> (\<forall>buf off. holds_pat off pat buf \<longrightarrow>
     r (buf, off) = Inr (x, (buf, off + length pat)))"

abbreviation bytes_pat :: "byte list \<Rightarrow> pattern" where
  "bytes_pat bs \<equiv> map Some bs"

abbreviation gap_pat :: "nat \<Rightarrow> pattern" where
  "gap_pat n \<equiv> replicate n None"

lemma length_overlay [simp]: "off + length pat \<le> length buf \<Longrightarrow> length (overlay off pat buf) = length buf"
  by (auto simp: overlay_def)

lemma length_overwrite [simp]: "off + length bs \<le> length buf \<Longrightarrow> length (overwrite off bs buf) = length buf"
  by (auto simp: overwrite_def)

lemma nth_overlay:
  assumes "off + length pat \<le> length buf" "i < length buf"
  shows "overlay off pat buf ! i =
    (if off \<le> i \<and> i < off + length pat then fill (pat ! (i - off)) (buf ! i) else buf ! i)"
  using assms by (auto simp: overlay_def nth_append min_def)

lemma nth_overwrite:
  assumes "off + length bs \<le> length buf" "i < length buf"
  shows "overwrite off bs buf ! i =
    (if off \<le> i \<and> i < off + length bs then bs ! (i - off) else buf ! i)"
  using assms by (auto simp: overwrite_def nth_append min_def)

lemma overlay_bytes:
  assumes "off + length bs \<le> length buf"
  shows "overlay off (bytes_pat bs) buf = overwrite off bs buf"
  using assms by (intro nth_equalityI) (auto simp: nth_overlay nth_overwrite fill_def)

lemma overlay_gap: "off + n \<le> length buf \<Longrightarrow> overlay off (gap_pat n) buf = buf"
  by (rule nth_equalityI) (auto simp: nth_overlay fill_def)

lemma overlay_append:
  assumes "off + length p + length q \<le> length buf"
  shows "overlay (off + length p) q (overlay off p buf) = overlay off (p @ q) buf"
  using assms by (auto intro!: nth_equalityI simp: nth_overlay nth_append)

lemma holds_pat_overlay: "off + length pat \<le> length buf \<Longrightarrow> holds_pat off pat (overlay off pat buf)"
  by (auto simp: holds_pat_def nth_overlay fill_def)

lemma holds_pat_append:
  "holds_pat off (p @ q) buf \<longleftrightarrow> holds_pat off p buf \<and> holds_pat (off + length p) q buf"
proof
  assume h: "holds_pat off (p @ q) buf"
  have "buf ! (off + i) = x" if "i < length p" "p ! i = Some x" for i x
    using h that by (auto simp: holds_pat_def nth_append dest!: spec [where x = i])
  moreover have "buf ! (off + length p + i) = x" if "i < length q" "q ! i = Some x" for i x
    using h that by (auto simp: holds_pat_def nth_append add.assoc dest!: spec [where x = "length p + i"])
  ultimately show "holds_pat off p buf \<and> holds_pat (off + length p) q buf"
    using h by (auto simp: holds_pat_def)
next
  assume h: "holds_pat off p buf \<and> holds_pat (off + length p) q buf"
  have "buf ! (off + i) = x" if "i < length (p @ q)" "(p @ q) ! i = Some x" for i x
  proof (cases "i < length p")
    case True
    with h that show ?thesis by (auto simp: holds_pat_def nth_append)
  next
    case False
    then have "off + i = off + length p + (i - length p)" by simp
    with h that False show ?thesis
      by (auto simp: holds_pat_def nth_append dest!: spec [where x = "i - length p"])
  qed
  with h show "holds_pat off (p @ q) buf" by (auto simp: holds_pat_def)
qed

lemma holds_pat_bytes:
  "holds_pat off (bytes_pat bs) buf \<longleftrightarrow>
     off + length bs \<le> length buf \<and> take (length bs) (drop off buf) = bs"
  by (auto simp: holds_pat_def list_eq_iff_nth_eq)

section \<open>Composition\<close>

lemma emits_put_bytes [emits_intros]: "emits (put_bytes bs) (bytes_pat bs)"
  by (simp add: emits_def put_bytes_def overlay_bytes)

lemma emits_skip_bytes [emits_intros]: "emits (skip_bytes n) (gap_pat n)"
  by (simp add: emits_def skip_bytes_def overlay_gap)

lemma emits_wseq_Nil [emits_intros]: "emits (wseq []) []"
  by (simp add: emits_def overlay_def)

lemma emits_wseq_Cons [emits_intros]:
  assumes "emits w p" "emits (wseq ws) q"
  shows "emits (wseq (w # ws)) (p @ q)"
  using assms by (simp add: emits_def overlay_append add.assoc)

lemma emits_wseq_single: "emits w p \<Longrightarrow> emits (wseq [w]) p"
  using emits_wseq_Cons [OF _ emits_wseq_Nil] by simp

text \<open>A writer behind a size check that its own pattern justifies.\<close>

lemma emits_require_space:
  assumes "emits (wseq ws) p" "n \<le> length p"
  shows "emits (wseq (require_space n # ws)) p"
  using assms by (simp add: emits_def require_space_def)

lemma emits_require: "b \<Longrightarrow> emits (wseq ws) p \<Longrightarrow> emits (wseq (require b # ws)) p"
  by (simp add: emits_def require_def)

lemma parses_rreturn [parses_intros]: "parses (rreturn x) [] x"
  by (simp add: parses_def rreturn_def)

lemma parses_rbind [parses_intros]:
  assumes "parses r p x" "parses (f x) q y"
  shows "parses (rbind r f) (p @ q) y"
  using assms by (auto simp: parses_def rbind_def holds_pat_append add.assoc)

lemma parses_rbind_final: "parses r p x \<Longrightarrow> f x = rreturn y \<Longrightarrow> parses (rbind r f) p y"
  using parses_rbind [of r p x f "[]" y] parses_rreturn [of y] by simp

lemma parses_get_bytes [parses_intros]: "n = length bs \<Longrightarrow> parses (get_bytes n) (bytes_pat bs) bs"
  by (auto simp: parses_def get_bytes_def holds_pat_bytes)

lemma parses_rthen_skip:
  assumes "parses r q y" "length p = n"
  shows "parses (rthen (skip_bytes n) r) (p @ q) y"
  using assms by (auto simp: parses_def rthen_def skip_bytes_def holds_pat_append add.assoc)

lemma parses_rthen_space:
  assumes "parses r q y" "n \<le> length q"
  shows "parses (rthen (require_space n) r) q y"
  using assms by (auto simp: parses_def rthen_def require_space_def holds_pat_def)

lemma parses_rthen_require: "b \<Longrightarrow> parses r q y \<Longrightarrow> parses (rthen (require b) r) q y"
  by (auto simp: parses_def rthen_def require_def)

lemma parses_get16 [parses_intros]: "parses get16 (bytes_pat (le16 w)) w"
  unfolding get16_def by (rule parses_rbind_final [OF parses_get_bytes]) simp_all

lemma parses_get32 [parses_intros]: "parses get32 (bytes_pat (le32 w)) w"
  unfolding get32_def by (rule parses_rbind_final [OF parses_get_bytes]) simp_all

section \<open>The contract of a serializer and its deserializer\<close>

locale codec =
  fixes enc :: "'a \<Rightarrow> writer"
    and dec :: "'a reader"
    and pat :: "'a \<Rightarrow> pattern"
    and ok :: "'a \<Rightarrow> bool"
  assumes enc_emits: "ok x \<Longrightarrow> emits (enc x) (pat x)"
    and dec_parses: "ok x \<Longrightarrow> parses dec (pat x) x"
begin

lemma enc_total:
  "ok x \<Longrightarrow> off + length (pat x) \<le> length buf \<Longrightarrow>
   enc x (buf, off) = Inr (overlay off (pat x) buf, off + length (pat x))"
  using enc_emits by (simp add: emits_def)

text \<open>What was written at an offset is read back from it, and the reader stops where the
  writer stopped.\<close>

lemma enc_dec:
  assumes "ok x" "off + length (pat x) \<le> length buf"
  shows "\<exists>buf' off'. enc x (buf, off) = Inr (buf', off') \<and> dec (buf', off) = Inr (x, (buf', off'))"
  using assms enc_total [OF assms] dec_parses [OF assms(1)] holds_pat_overlay [OF assms(2)]
  by (auto simp: parses_def)

text \<open>Bytes outside the written range keep their value.\<close>

lemma enc_frame:
  assumes "ok x" "off + length (pat x) \<le> length buf" "enc x (buf, off) = Inr (buf', off')"
    "i < length buf" "i < off \<or> off' \<le> i"
  shows "length buf' = length buf \<and> buf' ! i = buf ! i"
  using assms enc_total [OF assms(1,2)] by (auto simp: nth_overlay)

text \<open>Reading succeeds on any buffer that agrees with the written one on the written range, in
  particular on the received datagram, which ends where the sender stopped.\<close>

lemma dec_take:
  assumes "ok x" "off + length (pat x) \<le> length buf" "enc x (buf, off) = Inr (buf', off')"
  shows "dec (take off' buf', off) = Inr (x, (take off' buf', off'))"
proof -
  have "holds_pat off (pat x) (take off' buf')"
    using assms enc_total [OF assms(1,2)]
    by (auto simp: holds_pat_def nth_overlay fill_def)
  with dec_parses [OF assms(1)] enc_total [OF assms(1,2)] assms(3) show ?thesis
    by (auto simp: parses_def)
qed

end

text \<open>The 16-bit and 32-bit fields in network order.\<close>

definition put16_be :: "u16 \<Rightarrow> writer" where
  "put16_be w = put_bytes (le16 (htons w))"

definition put32_be :: "u32 \<Rightarrow> writer" where
  "put32_be w = put_bytes (le32 (htonl w))"

definition get16_be :: "u16 reader" where
  "get16_be = rbind get16 (\<lambda>w. rreturn (htons w))"

definition get32_be :: "u32 reader" where
  "get32_be = rbind get32 (\<lambda>w. rreturn (htonl w))"

abbreviation be16_pat :: "u16 \<Rightarrow> pattern" where
  "be16_pat w \<equiv> bytes_pat (le16 (htons w))"

abbreviation be32_pat :: "u32 \<Rightarrow> pattern" where
  "be32_pat w \<equiv> bytes_pat (le32 (htonl w))"

lemma emits_put16_be [emits_intros]: "emits (put16_be w) (be16_pat w)"
  unfolding put16_be_def by (rule emits_put_bytes)

lemma emits_put32_be [emits_intros]: "emits (put32_be w) (be32_pat w)"
  unfolding put32_be_def by (rule emits_put_bytes)

lemma parses_get16_be [parses_intros]: "parses get16_be (be16_pat w) w"
  unfolding get16_be_def by (rule parses_rbind_final [OF parses_get16]) simp

lemma parses_get32_be [parses_intros]: "parses get32_be (be32_pat w) w"
  unfolding get32_be_def by (rule parses_rbind_final [OF parses_get32]) simp

interpretation net16: codec put16_be get16_be "\<lambda>w. be16_pat w" "\<lambda>_. True"
  by unfold_locales (rule emits_put16_be parses_get16_be)+

interpretation net32: codec put32_be get32_be "\<lambda>w. be32_pat w" "\<lambda>_. True"
  by unfold_locales (rule emits_put32_be parses_get32_be)+

end
