(* ===== verification/Dyn_Array.thy ===== *)
theory Dyn_Array
  imports Wire
begin

text \<open>
  \<^verbatim>\<open>DynamicArray\<close> of src/common/dynamic_array.c: a byte array that doubles its capacity on demand
  up to a maximum, used for packets of large values and as the slots of the packet ring buffer.
  \<^verbatim>\<open>int\<close> fields are integers; an \<^verbatim>\<open>int\<close> expression that leaves the 32-bit range is
  \<^verbatim>\<open>Undefined\<close>, exceeding the maximal capacity is \<^verbatim>\<open>Exit\<close>, and \<^verbatim>\<open>new char[n]\<close> with a negative
  size throws, which nothing catches, so it is \<^verbatim>\<open>Abort\<close>.
\<close>

record dyn_array =
  da_cursize :: int
  da_curcapability :: int
  da_array :: "byte list option"
  da_mincapability :: int
  da_maxcapability :: int

definition da_default :: dyn_array where
  "da_default = \<lparr>da_cursize = 0, da_curcapability = 0, da_array = None,
     da_mincapability = 0, da_maxcapability = 0\<rparr>"

definition da_init :: "dyn_array \<Rightarrow> int \<Rightarrow> int \<Rightarrow> dyn_array res" where
  "da_init d mincap maxcap =
     (if maxcap \<le> mincap then Inl Exit
      else if mincap < 0 then Inl Abort
      else Inr (d\<lparr>da_mincapability := mincap, da_maxcapability := maxcap,
        da_curcapability := mincap, da_array := Some (replicate (nat mincap) 0)\<rparr>))"

text \<open>The constructor with capacities.\<close>

definition da_new :: "int \<Rightarrow> int \<Rightarrow> dyn_array res" where
  "da_new mincap maxcap = da_init da_default mincap maxcap"

definition da_at :: "dyn_array \<Rightarrow> int \<Rightarrow> byte res" where
  "da_at d idx =
     (if \<not> (0 \<le> idx \<and> idx < da_cursize d) then Inl Exit
      else case da_array d of
        None \<Rightarrow> Inl Undefined
      | Some a \<Rightarrow> if nat idx < length a then Inr (a ! nat idx) else Inl Undefined)"

text \<open>The doubling loop of \<^verbatim>\<open>dynamic_reserve\<close>. The \<^verbatim>\<open>INVARIANT\<close> in front of it makes the
  starting capacity positive, so every round makes progress.\<close>

function da_grow :: "int \<Rightarrow> int \<Rightarrow> int res" where
  "da_grow newcap target =
     (if 0 < newcap \<and> newcap < target
      then if 2 * newcap < 2 ^ 31 then da_grow (2 * newcap) target else Inl Undefined
      else Inr newcap)"
  by pat_completeness auto
termination
  by (relation "measure (\<lambda>(newcap, target). nat (target - newcap))") auto

declare da_grow.simps [simp del]

definition da_reserve :: "dyn_array \<Rightarrow> int \<Rightarrow> int \<Rightarrow> dyn_array res" where
  "da_reserve d off len =
     bind_res (c_int (off + len)) (\<lambda>target.
     if da_maxcapability d < target then Inl Exit
     else if da_curcapability d < target then
       if da_maxcapability d \<le> da_curcapability d then Inl Exit
       else bind_res (invariant (0 < da_curcapability d \<and> 0 < da_maxcapability d)) (\<lambda>_.
         bind_res (c_int (2 * da_curcapability d)) (\<lambda>start.
         bind_res (da_grow start target) (\<lambda>newcap0.
         let newcap = (if da_maxcapability d < newcap0 then da_maxcapability d else newcap0)
         in case da_array d of
              None \<Rightarrow> Inl Undefined
            | Some a \<Rightarrow>
                if nat (da_curcapability d) \<le> length a \<and> da_curcapability d \<le> newcap
                then Inr (d\<lparr>da_array := Some (overwrite 0 (take (nat (da_curcapability d)) a)
                        (replicate (nat newcap) 0)),
                      da_curcapability := newcap\<rparr>)
                else Inl Undefined)))
     else Inr d)"

text \<open>\<^verbatim>\<open>memcpy\<close>/\<^verbatim>\<open>memset\<close> into \<^verbatim>\<open>_array + off\<close> and the update of \<^verbatim>\<open>_cursize\<close>; a negative
  offset or length leaves the array.\<close>

definition da_store :: "dyn_array \<Rightarrow> int \<Rightarrow> byte list \<Rightarrow> dyn_array res" where
  "da_store d off bs =
     (case da_array d of
        None \<Rightarrow> Inl Undefined
      | Some a \<Rightarrow>
          if 0 \<le> off \<and> nat off + length bs \<le> length a
          then Inr (d\<lparr>da_array := Some (overwrite (nat off) bs a),
                 da_cursize := (if da_cursize d < off + int (length bs) then off + int (length bs)
                                else da_cursize d)\<rparr>)
          else Inl Undefined)"

definition dynamic_memcpy :: "dyn_array \<Rightarrow> int \<Rightarrow> byte list \<Rightarrow> dyn_array res" where
  "dynamic_memcpy d off src =
     bind_res (da_reserve d off (int (length src))) (\<lambda>d'. da_store d' off src)"

definition dynamic_memset :: "dyn_array \<Rightarrow> int \<Rightarrow> byte \<Rightarrow> int \<Rightarrow> dyn_array res" where
  "dynamic_memset d off v len =
     bind_res (da_reserve d off len) (\<lambda>d'.
     if len < 0 then Inl Undefined else da_store d' off (replicate (nat len) v))"

definition da_clear :: "dyn_array \<Rightarrow> dyn_array res" where
  "da_clear d =
     bind_res
       (if da_curcapability d \<noteq> da_mincapability d
        then case da_array d of
            None \<Rightarrow> Inl Exit
          | Some _ \<Rightarrow> if da_mincapability d < 0 then Inl Abort
                      else Inr (d\<lparr>da_array := Some (replicate (nat (da_mincapability d)) 0),
                             da_curcapability := da_mincapability d\<rparr>)
        else Inr d)
       (\<lambda>d. case da_array d of
          None \<Rightarrow> if da_mincapability d = 0 then Inr (d\<lparr>da_cursize := 0\<rparr>) else Inl Undefined
        | Some a \<Rightarrow>
            if 0 \<le> da_mincapability d \<and> nat (da_mincapability d) \<le> length a
            then Inr (d\<lparr>da_array := Some (overwrite 0 (replicate (nat (da_mincapability d)) 0) a),
                   da_cursize := 0\<rparr>)
            else Inl Undefined)"

definition da_size :: "dyn_array \<Rightarrow> int" where
  "da_size d = da_cursize d"

section \<open>The invariant and the contents\<close>

text \<open>The bytes in use, and the invariant: the allocated array has the current capacity, which is
  between the bounds, and every byte behind the used prefix is zero.\<close>

definition da_bytes :: "dyn_array \<Rightarrow> byte list" where
  "da_bytes d = (case da_array d of None \<Rightarrow> [] | Some a \<Rightarrow> take (nat (da_cursize d)) a)"

definition da_ok :: "dyn_array \<Rightarrow> bool" where
  "da_ok d \<longleftrightarrow> (\<exists>a. da_array d = Some a \<and> int (length a) = da_curcapability d \<and>
     0 \<le> da_cursize d \<and> da_cursize d \<le> da_curcapability d \<and>
     0 < da_mincapability d \<and> da_mincapability d \<le> da_curcapability d \<and>
     da_curcapability d \<le> da_maxcapability d \<and> da_mincapability d < da_maxcapability d \<and>
     da_maxcapability d < 2 ^ 30 \<and>
     (\<forall>i < length a. da_cursize d \<le> int i \<longrightarrow> a ! i = 0))"

text \<open>Writing a byte string at an offset of another one, with zeros in between.\<close>

definition patch :: "nat \<Rightarrow> byte list \<Rightarrow> byte list \<Rightarrow> byte list" where
  "patch off bs xs =
     take off xs @ replicate (off - length xs) 0 @ bs @ drop (off + length bs) xs"

lemma patch_append: "off = length xs \<Longrightarrow> patch off bs xs = xs @ bs"
  by (simp add: patch_def)

lemma patch_Nil: "off \<le> length xs \<Longrightarrow> patch off [] xs = xs"
  by (simp add: patch_def)

lemma length_patch: "length (patch off bs xs) = max (length xs) (off + length bs)"
  by (simp add: patch_def max_def min_def)

lemma nth_patch:
  "i < length (patch off bs xs) \<Longrightarrow> patch off bs xs ! i =
     (if off \<le> i \<and> i < off + length bs then bs ! (i - off) else if i < length xs then xs ! i else 0)"
  by (auto simp: patch_def nth_append min_def)

lemma patch_patch:
  "patch (off + length bs) cs (patch off bs xs) = patch off (bs @ cs) xs"
  by (rule nth_equalityI) (auto simp: length_patch nth_patch nth_append)

lemma da_grow_enough:
  "0 < n \<Longrightarrow> target \<le> 2 ^ 30 \<Longrightarrow> \<exists>r. da_grow n target = Inr r \<and> target \<le> r \<and> n \<le> r"
proof (induction n target rule: da_grow.induct)
  case (1 n target)
  show ?case
  proof (cases "n < target")
    case True
    with 1 have "\<exists>r. da_grow (2 * n) target = Inr r \<and> target \<le> r \<and> 2 * n \<le> r" by simp
    with True 1 show ?thesis by (subst da_grow.simps) auto
  next
    case False
    then show ?thesis by (subst da_grow.simps) auto
  qed
qed

lemma da_ok_init:
  assumes "0 < mincap" "mincap < maxcap" "maxcap < 2 ^ 30"
  shows "\<exists>d. da_new mincap maxcap = Inr d \<and> da_ok d \<and> da_bytes d = [] \<and> da_maxcapability d = maxcap
    \<and> da_mincapability d = mincap"
  using assms by (auto simp: da_new_def da_init_def da_default_def da_ok_def da_bytes_def)

text \<open>Reserving space keeps the contents and succeeds exactly up to the maximal capacity.\<close>

lemma da_reserve_fits:
  assumes ok: "da_ok d" and "0 \<le> off" "0 \<le> len" and fits: "off + len \<le> da_maxcapability d"
  shows "\<exists>d'. da_reserve d off len = Inr d' \<and> da_ok d' \<and> da_bytes d' = da_bytes d \<and>
    da_cursize d' = da_cursize d \<and> off + len \<le> da_curcapability d' \<and>
    da_maxcapability d' = da_maxcapability d \<and> da_mincapability d' = da_mincapability d"
proof -
  obtain a where a: "da_array d = Some a" "int (length a) = da_curcapability d"
    "0 \<le> da_cursize d" "da_cursize d \<le> da_curcapability d"
    "0 < da_mincapability d" "da_mincapability d \<le> da_curcapability d"
    "da_curcapability d \<le> da_maxcapability d" "da_mincapability d < da_maxcapability d"
    "da_maxcapability d < 2 ^ 30"
    "\<And>i. i < length a \<Longrightarrow> da_cursize d \<le> int i \<Longrightarrow> a ! i = 0"
    using ok unfolding da_ok_def by blast
  have c1: "c_int (off + len) = Inr (off + len)"
    using assms a by (simp add: c_int_def)
  show ?thesis
  proof (cases "da_curcapability d < off + len")
    case False
    with assms c1 show ?thesis by (auto simp: da_reserve_def)
  next
    case True
    have c2: "c_int (2 * da_curcapability d) = Inr (2 * da_curcapability d)"
      using a by (simp add: c_int_def)
    obtain r where r: "da_grow (2 * da_curcapability d) (off + len) = Inr r" "off + len \<le> r"
      using da_grow_enough [of "2 * da_curcapability d" "off + len"] a fits by auto
    define n where "n = (if da_maxcapability d < r then da_maxcapability d else r)"
    have n: "off + len \<le> n" "n \<le> da_maxcapability d" using r fits by (auto simp: n_def)
    define a' where "a' = overwrite 0 (take (nat (da_curcapability d)) a) (replicate (nat n) 0)"
    have take_a: "take (nat (da_curcapability d)) a = a" using a(2) by simp
    have la: "length a \<le> nat n" using True n a(2) by linarith
    have len_a': "length a' = nat n" using la by (simp add: a'_def take_a)
    have nth_a': "a' ! i = (if i < length a then a ! i else 0)" if "i < nat n" for i
      using that la by (simp add: a'_def take_a nth_overwrite)
    have res: "da_reserve d off len = Inr (d\<lparr>da_array := Some a', da_curcapability := n\<rparr>)"
      using True fits a c1 c2 r n unfolding a'_def n_def by (simp add: da_reserve_def Let_def)
    have ok': "da_ok (d\<lparr>da_array := Some a', da_curcapability := n\<rparr>)"
      using a n True len_a' nth_a' by (auto simp: da_ok_def)
    have "take (nat (da_cursize d)) a' = take (nat (da_cursize d)) a"
      using a la by (intro nth_equalityI) (auto simp: len_a' nth_a')
    with res ok' n a(1) show ?thesis by (auto simp: da_bytes_def)
  qed
qed

lemma da_store_fits:
  assumes ok: "da_ok d" and "0 \<le> off" and fits: "off + int (length bs) \<le> da_curcapability d"
  shows "\<exists>d'. da_store d off bs = Inr d' \<and> da_ok d' \<and> da_bytes d' = patch (nat off) bs (da_bytes d) \<and>
    da_maxcapability d' = da_maxcapability d \<and> da_mincapability d' = da_mincapability d"
proof -
  obtain a where a: "da_array d = Some a" "int (length a) = da_curcapability d"
    "0 \<le> da_cursize d" "da_cursize d \<le> da_curcapability d"
    "\<And>i. i < length a \<Longrightarrow> da_cursize d \<le> int i \<Longrightarrow> a ! i = 0"
    using ok unfolding da_ok_def by blast
  define a' where "a' = overwrite (nat off) bs a"
  define c where "c = (if da_cursize d < off + int (length bs) then off + int (length bs) else da_cursize d)"
  have fit: "nat off + length bs \<le> length a" using fits a(2) assms(2) by linarith
  have res: "da_store d off bs = Inr (d\<lparr>da_array := Some a', da_cursize := c\<rparr>)"
    using a(1) fit assms(2) by (simp add: da_store_def a'_def c_def)
  have nth_a': "a' ! i = (if nat off \<le> i \<and> i < nat off + length bs then bs ! (i - nat off) else a ! i)"
    if "i < length a" for i using that fit by (simp add: a'_def nth_overwrite)
  have len_a': "length a' = length a" using fit by (simp add: a'_def)
  have c: "0 \<le> c" "c \<le> da_curcapability d" "nat c = max (nat (da_cursize d)) (nat off + length bs)"
    using a fits assms(2) by (auto simp: c_def max_def)
  have "da_ok (d\<lparr>da_array := Some a', da_cursize := c\<rparr>)"
    using ok a c len_a' nth_a' assms(2) unfolding da_ok_def c_def by auto
  moreover have "take (nat c) a' = patch (nat off) bs (take (nat (da_cursize d)) a)"
  proof (rule nth_equalityI)
    have cur: "nat (da_cursize d) \<le> length a" using a by linarith
    then show len: "length (take (nat c) a') = length (patch (nat off) bs (take (nat (da_cursize d)) a))"
      using c fit by (simp add: len_a' length_patch)
    fix i assume i: "i < length (take (nat c) a')"
    then have "i < nat c" "i < length a" using len_a' by auto
    moreover have "i < length (patch (nat off) bs (take (nat (da_cursize d)) a))"
      using i unfolding len .
    ultimately show "take (nat c) a' ! i = patch (nat off) bs (take (nat (da_cursize d)) a) ! i"
      using cur a(5) [of i] by (auto simp: nth_a' nth_patch)
  qed
  ultimately show ?thesis using res a(1) by (auto simp: da_bytes_def)
qed

lemma dynamic_memcpy_fits:
  assumes "da_ok d" "0 \<le> off" "off + int (length src) \<le> da_maxcapability d"
  shows "\<exists>d'. dynamic_memcpy d off src = Inr d' \<and> da_ok d' \<and>
    da_bytes d' = patch (nat off) src (da_bytes d) \<and>
    da_maxcapability d' = da_maxcapability d \<and> da_mincapability d' = da_mincapability d"
  using da_reserve_fits [OF assms(1,2) _ assms(3)] da_store_fits [OF _ assms(2)]
  unfolding dynamic_memcpy_def by fastforce

lemma dynamic_memset_fits:
  assumes "da_ok d" "0 \<le> off" "0 \<le> len" "off + len \<le> da_maxcapability d"
  shows "\<exists>d'. dynamic_memset d off v len = Inr d' \<and> da_ok d' \<and>
    da_bytes d' = patch (nat off) (replicate (nat len) v) (da_bytes d) \<and>
    da_maxcapability d' = da_maxcapability d \<and> da_mincapability d' = da_mincapability d"
  using da_reserve_fits [OF assms] da_store_fits [OF _ assms(2), of _ "replicate (nat len) v"] assms(3)
  unfolding dynamic_memset_def by fastforce

lemma dynamic_memcpy_exceeds:
  "da_maxcapability d < off + int (length src) \<Longrightarrow> c_int (off + int (length src)) = Inr n \<Longrightarrow>
   dynamic_memcpy d off src = Inl Exit"
  by (simp add: dynamic_memcpy_def da_reserve_def c_int_eq_Inr c_int_in_range)

lemma da_clear_ok:
  assumes "da_ok d"
  shows "\<exists>d'. da_clear d = Inr d' \<and> da_ok d' \<and> da_bytes d' = [] \<and>
    da_maxcapability d' = da_maxcapability d \<and> da_mincapability d' = da_mincapability d"
proof -
  obtain a where a: "da_array d = Some a" "int (length a) = da_curcapability d"
    "0 < da_mincapability d" "da_mincapability d \<le> da_curcapability d"
    using assms unfolding da_ok_def by blast
  have "overwrite 0 (replicate (length a) 0) a = replicate (length a) 0"
    by (simp add: overwrite_def)
  moreover have "nat (da_mincapability d) = length a" if "da_curcapability d = da_mincapability d"
    using a that by linarith
  ultimately show ?thesis
    using assms a by (cases "da_curcapability d = da_mincapability d")
      (auto simp: da_clear_def da_ok_def da_bytes_def overwrite_def)
qed

text \<open>Several \<^verbatim>\<open>dynamic_memcpy\<close> calls one behind the other, as every \<^verbatim>\<open>dynamic_serialize\<close> of
  the program issues them. (An offset outside the \<^verbatim>\<open>int\<close> range is caught by the call before,
  which adds the length to its own offset.)\<close>

primrec dynamic_memcpys :: "dyn_array \<Rightarrow> int \<Rightarrow> byte list list \<Rightarrow> dyn_array res" where
  "dynamic_memcpys d off [] = Inr d"
| "dynamic_memcpys d off (c # cs) =
     bind_res (dynamic_memcpy d off c) (\<lambda>d'. dynamic_memcpys d' (off + int (length c)) cs)"

section \<open>The interface of a bounded byte array\<close>

text \<open>What the packet code relies on: a write inside the limit succeeds, patches the bytes in and
  keeps the limit. A sequence of consecutive writes is then one write of the concatenation.\<close>

locale byte_array =
  fixes store :: "'d \<Rightarrow> nat \<Rightarrow> byte list \<Rightarrow> 'd res"
    and content :: "'d \<Rightarrow> byte list"
    and limit :: "'d \<Rightarrow> nat"
    and inv :: "'d \<Rightarrow> bool"
  assumes store_fits: "inv d \<Longrightarrow> off + length bs \<le> limit d \<Longrightarrow>
    \<exists>d'. store d off bs = Inr d' \<and> inv d' \<and> content d' = patch off bs (content d) \<and> limit d' = limit d"
begin

primrec store_all :: "'d \<Rightarrow> nat \<Rightarrow> byte list list \<Rightarrow> 'd res" where
  "store_all d off [] = Inr d"
| "store_all d off (c # cs) = bind_res (store d off c) (\<lambda>d'. store_all d' (off + length c) cs)"

lemma store_all_patch:
  assumes "inv d" "off \<le> length (content d)" "off + length (concat cs) \<le> limit d"
  shows "\<exists>d'. store_all d off cs = Inr d' \<and> inv d' \<and> content d' = patch off (concat cs) (content d) \<and>
    limit d' = limit d"
  using assms
proof (induction cs arbitrary: d off)
  case (Cons c cs)
  obtain d1 where d1: "store d off c = Inr d1" "inv d1" "content d1 = patch off c (content d)"
    "limit d1 = limit d"
    using store_fits [of d off c] Cons.prems by auto
  with Cons.IH [of d1 "off + length c"] Cons.prems show ?case
    by (auto simp: length_patch patch_patch)
qed (simp add: patch_Nil)

lemma store_all_append:
  assumes "inv d" "off = length (content d)" "off + length (concat cs) \<le> limit d"
  shows "\<exists>d'. store_all d off cs = Inr d' \<and> inv d' \<and> content d' = content d @ concat cs \<and> limit d' = limit d"
  using store_all_patch [OF assms(1) _ assms(3)] assms(2) by (simp add: patch_append)

end

interpretation da: byte_array "\<lambda>d off bs. dynamic_memcpy d (int off) bs" da_bytes
  "\<lambda>d. nat (da_maxcapability d)" da_ok
proof unfold_locales
  fix d off and bs :: "byte list"
  assume "da_ok d" "off + length bs \<le> nat (da_maxcapability d)"
  moreover from this have "int off + int (length bs) \<le> da_maxcapability d"
    unfolding da_ok_def by linarith
  ultimately show "\<exists>d'. dynamic_memcpy d (int off) bs = Inr d' \<and> da_ok d' \<and>
      da_bytes d' = patch off bs (da_bytes d) \<and> nat (da_maxcapability d') = nat (da_maxcapability d)"
    using dynamic_memcpy_fits [of d "int off" bs] by auto
qed

lemma dynamic_memcpys_store_all: "dynamic_memcpys d (int off) cs = da.store_all d off cs"
  by (induction cs arbitrary: d off) (simp_all flip: of_nat_add)

lemma dynamic_memcpys_patch:
  assumes "da_ok d" "off \<le> length (da_bytes d)" "off + length (concat cs) \<le> nat (da_maxcapability d)"
  shows "\<exists>d'. dynamic_memcpys d (int off) cs = Inr d' \<and> da_ok d' \<and>
    da_bytes d' = patch off (concat cs) (da_bytes d) \<and> nat (da_maxcapability d') = nat (da_maxcapability d)"
  using da.store_all_patch [OF assms] by (simp add: dynamic_memcpys_store_all)

text \<open>C15: \<^verbatim>\<open>DynamicArray::dynamic_memcpy\<close> on a well-formed array either stores exactly the given
  bytes at the offset, growing the array (with zero bytes in a gap) and keeping it well-formed, or
  ends the process with \<^verbatim>\<open>exit\<close>; the latter exactly when the end of the write is behind the
  maximal capacity. No path is undefined behaviour.\<close>

theorem dynamic_memcpy_spec:
  assumes "da_ok d" "0 \<le> off" "off + int (length src) < 2 ^ 31"
  shows "case dynamic_memcpy d off src of
      Inl e \<Rightarrow> e = Exit \<and> da_maxcapability d < off + int (length src)
    | Inr d' \<Rightarrow> off + int (length src) \<le> da_maxcapability d \<and> da_ok d' \<and>
        da_bytes d' = patch (nat off) src (da_bytes d) \<and> da_maxcapability d' = da_maxcapability d"
  using dynamic_memcpy_fits [OF assms(1,2), of src] dynamic_memcpy_exceeds [of d off src] assms
  by (cases "off + int (length src) \<le> da_maxcapability d") (auto simp: c_int_eq_Inr)

theorem dynamic_memcpy_spec_witness:
  "case bind_res (da_new 2 8) (\<lambda>d. dynamic_memcpy d 3 [7, 9]) of
     Inl e \<Rightarrow> False | Inr d' \<Rightarrow> da_ok d' \<and> da_bytes d' = [0, 0, 0, 7, 9]"
proof -
  define d where "d = \<lparr>da_cursize = 0, da_curcapability = 2, da_array = Some [0, 0],
     da_mincapability = 2, da_maxcapability = 8\<rparr>"
  have new: "da_new 2 8 = Inr d"
    by (simp add: da_new_def da_init_def da_default_def d_def numeral_2_eq_2)
  have ok: "da_ok d" "da_bytes d = []"
    by (auto simp: d_def da_ok_def da_bytes_def nth_Cons split: nat.splits)
  show ?thesis
    using dynamic_memcpy_spec [OF ok(1), of 3 "[7, 9]"] ok(2)
    by (auto simp: new d_def patch_def numeral_3_eq_3 split: sum.splits)
qed

end
