(* ===== verification/Net_Key.thy ===== *)
theory Net_Key
  imports Hashing Dyn_Array "HOL-Library.List_Lexorder"
begin

text \<open>
  The 16-byte keys of src/common/key.c (with \<^verbatim>\<open>LARGE_KEY\<close>, as key.h defines it): four 32-bit
  words, the comparison operators, the packet encoding, the byte strings handed to RocksDB, the two
  hashes and the functions that map a key to a server or a switch.
\<close>

section \<open>Keys and their order\<close>

datatype net_key = Key (keylolo: u32) (keylohi: u32) (keyhilo: u32) (keyhihi: u32)

definition key_default :: net_key where
  "key_default = Key 0 0 0 0"

definition key_max :: net_key where
  "key_max = Key (- 1) (- 1) (- 1) (- 1)"

definition key_min :: net_key where
  "key_min = Key 0 0 0 0"

text \<open>The copy constructors and assignments copy the four words; the state of \<^verbatim>\<open>this\<close> is lost.\<close>

definition key_assign :: "net_key \<Rightarrow> net_key \<Rightarrow> net_key" where
  "key_assign this other = Key (keylolo other) (keylohi other) (keyhilo other) (keyhihi other)"

definition get_scanrecordcnt :: "net_key \<Rightarrow> net_key \<Rightarrow> int res" where
  "get_scanrecordcnt startkey endkey =
     (let scanrecordcnt = sint (keylolo endkey - keylolo startkey) in
      bind_res (invariant (0 < scanrecordcnt)) (\<lambda>_.
      bind_res (invariant (scanrecordcnt \<le> 1000)) (\<lambda>_. Inr scanrecordcnt)))"

definition key_less :: "net_key \<Rightarrow> net_key \<Rightarrow> bool" where
  "key_less l r \<longleftrightarrow> keyhihi l < keyhihi r \<or>
     keyhihi l = keyhihi r \<and> keyhilo l < keyhilo r \<or>
     keyhihi l = keyhihi r \<and> keyhilo l = keyhilo r \<and> keylohi l < keylohi r \<or>
     keyhihi l = keyhihi r \<and> keyhilo l = keyhilo r \<and> keylohi l = keylohi r \<and> keylolo l < keylolo r"

definition key_greater :: "net_key \<Rightarrow> net_key \<Rightarrow> bool" where
  "key_greater l r \<longleftrightarrow> keyhihi l > keyhihi r \<or>
     keyhihi l = keyhihi r \<and> keyhilo l > keyhilo r \<or>
     keyhihi l = keyhihi r \<and> keyhilo l = keyhilo r \<and> keylohi l > keylohi r \<or>
     keyhihi l = keyhihi r \<and> keyhilo l = keyhilo r \<and> keylohi l = keylohi r \<and> keylolo l > keylolo r"

definition key_ge :: "net_key \<Rightarrow> net_key \<Rightarrow> bool" where
  "key_ge l r \<longleftrightarrow> keyhihi l > keyhihi r \<or>
     keyhihi l = keyhihi r \<and> keyhilo l > keyhilo r \<or>
     keyhihi l = keyhihi r \<and> keyhilo l = keyhilo r \<and> keylohi l > keylohi r \<or>
     keyhihi l = keyhihi r \<and> keyhilo l = keyhilo r \<and> keylohi l = keylohi r \<and> keylolo l \<ge> keylolo r"

definition key_le :: "net_key \<Rightarrow> net_key \<Rightarrow> bool" where
  "key_le l r \<longleftrightarrow> keyhihi l < keyhihi r \<or>
     keyhihi l = keyhihi r \<and> keyhilo l < keyhilo r \<or>
     keyhihi l = keyhihi r \<and> keyhilo l = keyhilo r \<and> keylohi l < keylohi r \<or>
     keyhihi l = keyhihi r \<and> keyhilo l = keyhilo r \<and> keylohi l = keylohi r \<and> keylolo l \<le> keylolo r"

definition key_eq :: "net_key \<Rightarrow> net_key \<Rightarrow> bool" where
  "key_eq l r \<longleftrightarrow> keyhihi l = keyhihi r \<and> keyhilo l = keyhilo r \<and>
     keylohi l = keylohi r \<and> keylolo l = keylolo r"

definition key_neq :: "net_key \<Rightarrow> net_key \<Rightarrow> bool" where
  "key_neq l r \<longleftrightarrow> keyhihi l \<noteq> keyhihi r \<or> keyhilo l \<noteq> keyhilo r \<or>
     keylohi l \<noteq> keylohi r \<or> keylolo l \<noteq> keylolo r"

text \<open>The value of a key as a 128-bit number.\<close>

definition key_nat :: "net_key \<Rightarrow> nat" where
  "key_nat k = unat (keylolo k) + 2 ^ 32 * (unat (keylohi k) + 2 ^ 32 * (unat (keyhilo k) + 2 ^ 32 * unat (keyhihi k)))"

lemma digit_less:
  fixes a b x y B :: nat
  assumes "a < B" "b < B"
  shows "a + B * x < b + B * y \<longleftrightarrow> x < y \<or> x = y \<and> a < b"
proof -
  have gt: "c + B * u < d + B * v" if "u < v" "c < B" for c d u v
  proof -
    have "c + B * u < B * Suc u" using that by simp
    also have "\<dots> \<le> B * v" using that by (intro mult_le_mono2) simp
    finally show ?thesis by simp
  qed
  show ?thesis
    using gt [of x y a b] gt [of y x b a] assms by (cases x y rule: linorder_cases) auto
qed

lemma digit_eq:
  fixes a b x y B :: nat
  assumes "a < B" "b < B"
  shows "a + B * x = b + B * y \<longleftrightarrow> x = y \<and> a = b"
  using digit_less [OF assms, of x y] digit_less [OF assms(2,1), of y x] by auto

lemma unat_u32 [simp]: "unat (w :: u32) < 2 ^ 32"
  using unsigned_less [of w, where ?'a = nat] by simp

lemma key_less_nat: "key_less l r \<longleftrightarrow> key_nat l < key_nat r"
  unfolding key_nat_def
  by (simp only: digit_less digit_eq unat_u32) (auto simp: key_less_def word_less_nat_alt word_unat_eq_iff)

lemma key_nat_inject: "key_nat l = key_nat r \<longleftrightarrow> l = r"
  unfolding key_nat_def
  by (simp only: digit_eq unat_u32) (auto simp: word_unat_eq_iff net_key.expand)

lemma key_le_nat: "key_le l r \<longleftrightarrow> key_nat l \<le> key_nat r"
proof -
  have "key_le l r \<longleftrightarrow> key_less l r \<or> l = r"
    by (cases l; cases r) (auto simp: key_le_def key_less_def)
  then show ?thesis by (auto simp: key_less_nat simp flip: key_nat_inject)
qed

text \<open>\<^verbatim>\<open>operator<\<close> is the order of the ordered maps keyed by \<^verbatim>\<open>netreach_key_t\<close>.\<close>

instantiation net_key :: linorder
begin

definition less_net_key :: "net_key \<Rightarrow> net_key \<Rightarrow> bool" where
  "less_net_key = key_less"

definition less_eq_net_key :: "net_key \<Rightarrow> net_key \<Rightarrow> bool" where
  "less_eq_net_key = key_le"

instance
  by standard
    (auto simp: less_net_key_def less_eq_net_key_def key_less_nat key_le_nat simp flip: key_nat_inject)

end

section \<open>Encodings\<close>

text \<open>The two halves of \<^verbatim>\<open>keyhihi\<close>; the highest two bytes are used for range matching in the
  switch.\<close>

definition keyhihilo :: "net_key \<Rightarrow> u16" where
  "keyhihilo k = ucast (keyhihi k AND 0xFFFF)"

definition keyhihihi :: "net_key \<Rightarrow> u16" where
  "keyhihihi k = ucast (drop_bit 16 (keyhihi k) AND 0xFFFF)"

definition to_string_for_rocksdb :: "net_key \<Rightarrow> byte list" where
  "to_string_for_rocksdb k =
     [ucast (drop_bit 8 (keyhihihi k) AND 0xFF), ucast (keyhihihi k AND 0xFF),
      ucast (drop_bit 8 (keyhihilo k) AND 0xFF), ucast (keyhihilo k AND 0xFF),
      ucast (drop_bit 24 (keyhilo k) AND 0xFF), ucast (drop_bit 16 (keyhilo k) AND 0xFF),
      ucast (drop_bit 8 (keyhilo k) AND 0xFF), ucast (keyhilo k AND 0xFF),
      ucast (drop_bit 24 (keylohi k) AND 0xFF), ucast (drop_bit 16 (keylohi k) AND 0xFF),
      ucast (drop_bit 8 (keylohi k) AND 0xFF), ucast (keylohi k AND 0xFF),
      ucast (drop_bit 24 (keylolo k) AND 0xFF), ucast (drop_bit 16 (keylolo k) AND 0xFF),
      ucast (drop_bit 8 (keylolo k) AND 0xFF), ucast (keylolo k AND 0xFF)]"

text \<open>\<^verbatim>\<open>std::string::operator[]\<close> yields the terminating NUL at the size and is undefined behind it.\<close>

definition str_at :: "byte list \<Rightarrow> nat \<Rightarrow> byte res" where
  "str_at str i = (if i < length str then Inr (str ! i) else if i = length str then Inr 0 else Inl Undefined)"

definition str_be32 :: "byte list \<Rightarrow> nat \<Rightarrow> u32 res" where
  "str_be32 str i =
     bind_res (str_at str i) (\<lambda>a. bind_res (str_at str (i + 1)) (\<lambda>b.
     bind_res (str_at str (i + 2)) (\<lambda>c. bind_res (str_at str (i + 3)) (\<lambda>d.
     Inr (push_bit 24 (ucast a) OR push_bit 16 (ucast b) OR push_bit 8 (ucast c) OR ucast d)))))"

definition str_be16 :: "byte list \<Rightarrow> nat \<Rightarrow> u16 res" where
  "str_be16 str i =
     bind_res (str_at str i) (\<lambda>a. bind_res (str_at str (i + 1)) (\<lambda>b.
     Inr (push_bit 8 (ucast a) OR ucast b)))"

definition from_string_for_rocksdb :: "byte list \<Rightarrow> net_key res" where
  "from_string_for_rocksdb keystr =
     bind_res (str_be16 keystr 0) (\<lambda>hihihi. bind_res (str_be16 keystr 2) (\<lambda>hihilo.
     bind_res (str_be32 keystr 4) (\<lambda>hilo. bind_res (str_be32 keystr 8) (\<lambda>lohi.
     bind_res (str_be32 keystr 12) (\<lambda>lolo.
     Inr (Key lolo lohi hilo (push_bit 16 (ucast hihihi) OR ucast hihilo)))))))"

definition key_deserialize :: "net_key reader" where
  "key_deserialize =
     rthen (require_space 16)
       (rbind get32 (\<lambda>lolo. rbind get32 (\<lambda>lohi. rbind get32 (\<lambda>hilo.
        rbind get16 (\<lambda>bigendian_hihilo. rbind get16 (\<lambda>bigendian_hihihi.
        rreturn (Key (htonl lolo) (htonl lohi) (htonl hilo)
          (push_bit 16 (ucast (htons bigendian_hihihi)) OR ucast (htons bigendian_hihilo)))))))))"

definition key_serialize :: "net_key \<Rightarrow> writer" where
  "key_serialize k =
     wseq [require_space 16,
       put_bytes (le32 (htonl (keylolo k))),
       put_bytes (le32 (htonl (keylohi k))),
       put_bytes (le32 (htonl (keyhilo k))),
       put_bytes (le16 (htons (keyhihilo k))),
       put_bytes (le16 (htons (keyhihihi k)))]"

definition key_dynamic_serialize :: "net_key \<Rightarrow> dyn_array \<Rightarrow> int \<Rightarrow> dyn_array res" where
  "key_dynamic_serialize k buf off =
     bind_res (invariant (0 \<le> off)) (\<lambda>_.
     dynamic_memcpys buf off
       [le32 (htonl (keylolo k)), le32 (htonl (keylohi k)), le32 (htonl (keyhilo k)),
        le16 (htons (keyhihilo k)), le16 (htons (keyhihihi k))])"

definition key_bytes :: "net_key \<Rightarrow> byte list" where
  "key_bytes k = le32 (htonl (keylolo k)) @ le32 (htonl (keylohi k)) @ le32 (htonl (keyhilo k)) @
     le16 (htons (keyhihilo k)) @ le16 (htons (keyhihihi k))"

lemma length_key_bytes [simp]: "length (key_bytes k) = 16"
  by (simp add: key_bytes_def)

lemma keyhihi_halves: "push_bit 16 (ucast (keyhihihi k)) OR ucast (keyhihilo k) = keyhihi k"
proof (rule bit_word_eqI)
  fix n assume "n < LENGTH(32)"
  then show "bit (push_bit 16 (ucast (keyhihihi k)) OR ucast (keyhihilo k) :: u32) n = bit (keyhihi k) n"
    by (cases "n < 16") (auto simp: keyhihihi_def keyhihilo_def and_u16_mask bit_simps)
qed

lemma emits_key_serialize [emits_intros]: "emits (key_serialize k) (bytes_pat (key_bytes k))"
  unfolding key_serialize_def key_bytes_def map_append
  by (rule emits_require_space)
    ((rule emits_wseq_single emits_wseq_Cons emits_put_bytes)+, simp)

lemma parses_key_deserialize [parses_intros]: "parses key_deserialize (bytes_pat (key_bytes k)) k"
  unfolding key_deserialize_def key_bytes_def map_append
  by (rule parses_rthen_space) (rule parses_rbind parses_get32 parses_get16 parses_rbind_final | simp add: keyhihi_halves)+

interpretation key: codec key_serialize key_deserialize "\<lambda>k. bytes_pat (key_bytes k)" "\<lambda>_. True"
  by unfold_locales (rule emits_key_serialize parses_key_deserialize)+

lemma key_dynamic_serialize_patch:
  assumes "da_ok d" "off \<le> length (da_bytes d)" "off + 16 \<le> nat (da_maxcapability d)"
  shows "\<exists>d'. key_dynamic_serialize k d (int off) = Inr d' \<and> da_ok d' \<and>
    da_bytes d' = patch off (key_bytes k) (da_bytes d) \<and> nat (da_maxcapability d') = nat (da_maxcapability d)"
  using assms(3) dynamic_memcpys_patch [OF assms(1,2), of "[le32 (htonl (keylolo k)), le32 (htonl (keylohi k)),
    le32 (htonl (keyhilo k)), le16 (htons (keyhihilo k)), le16 (htons (keyhihihi k))]"]
  by (simp add: key_dynamic_serialize_def key_bytes_def)

section \<open>RocksDB strings\<close>

text \<open>A byte string read as a big-endian number; on strings of one length the byte-wise order of
  RocksDB's default comparator is the order of these numbers.\<close>

primrec be_val :: "byte list \<Rightarrow> nat" where
  "be_val [] = 0"
| "be_val (b # bs) = be_val bs + 256 ^ length bs * unat b"

lemma be_val_bound: "be_val bs < 256 ^ length bs"
proof (induction bs)
  case (Cons b bs)
  have "be_val bs + 256 ^ length bs * unat b < 256 ^ length bs * Suc (unat b)" using Cons by simp
  also have "\<dots> \<le> 256 ^ length bs * 256"
    using unat_byte [of b] by (intro mult_le_mono2) (simp only: Suc_le_eq)
  finally show ?case by (simp add: mult.commute)
qed simp

lemma be_val_append: "be_val (as @ bs) = be_val bs + 256 ^ length bs * be_val as"
  by (induction as) (simp_all add: algebra_simps power_add)

lemma be_val_less: "length as = length bs \<Longrightarrow> as < bs \<longleftrightarrow> be_val as < be_val bs"
proof (induction as bs rule: list_induct2)
  case (Cons a as b bs)
  then show ?case
    using be_val_bound [of as] be_val_bound [of bs]
    by (simp add: digit_less word_less_nat_alt word_unat_eq_iff)
qed simp

lemma be_val_rev_le32: "be_val (rev (le32 w)) = unat w"
proof -
  obtain a b c d where w: "w = of_le32 a b c d" by (metis of_le32_le32)
  show ?thesis unfolding w le32_of_le32 by (simp add: unat_of_le32 unat_of_le16 algebra_simps)
qed

lemma to_string_for_rocksdb_alt:
  "to_string_for_rocksdb k = rev (le32 (keyhihi k)) @ rev (le32 (keyhilo k)) @
     rev (le32 (keylohi k)) @ rev (le32 (keylolo k))"
  unfolding to_string_for_rocksdb_def le32_def and_byte_mask keyhihihi_def keyhihilo_def and_u16_mask
  by (auto intro!: bit_word_eqI simp: bit_simps)

lemma length_to_string_for_rocksdb [simp]: "length (to_string_for_rocksdb k) = 16"
  by (simp add: to_string_for_rocksdb_def)

lemma be_val_to_string: "be_val (to_string_for_rocksdb k) = key_nat k"
  by (simp add: to_string_for_rocksdb_alt be_val_append be_val_rev_le32 key_nat_def)

lemma str_at_nth: "i < length str \<Longrightarrow> str_at str i = Inr (str ! i)"
  by (simp add: str_at_def)

lemma str_be32_nth:
  "i + 3 < length str \<Longrightarrow>
   str_be32 str i = Inr (of_le32 (str ! (i + 3)) (str ! (i + 2)) (str ! (i + 1)) (str ! i))"
  by (simp add: str_be32_def str_at_nth of_le32_def or.left_commute or.commute)

lemma str_be16_nth: "i + 1 < length str \<Longrightarrow> str_be16 str i = Inr (of_le16 (str ! (i + 1)) (str ! i))"
  by (simp add: str_be16_def str_at_nth of_le16_def or.commute)

lemma from_to_string_for_rocksdb: "from_string_for_rocksdb (to_string_for_rocksdb k) = Inr k"
  by (cases k) (simp add: from_string_for_rocksdb_def str_be16_nth str_be32_nth to_string_for_rocksdb_alt
      le32_def nth_Cons' of_le32_of_le16 [symmetric] or.commute)

lemma to_from_string_for_rocksdb:
  assumes "length str = 16"
  shows "\<exists>k. from_string_for_rocksdb str = Inr k \<and> to_string_for_rocksdb k = str"
proof -
  have "from_string_for_rocksdb str = Inr (Key
      (of_le32 (str ! 15) (str ! 14) (str ! 13) (str ! 12)) (of_le32 (str ! 11) (str ! 10) (str ! 9) (str ! 8))
      (of_le32 (str ! 7) (str ! 6) (str ! 5) (str ! 4)) (of_le32 (str ! 3) (str ! 2) (str ! 1) (str ! 0)))"
    using assms by (simp add: from_string_for_rocksdb_def str_be16_nth str_be32_nth of_le32_of_le16 or.commute)
  moreover have "map ((!) str) [0..<16] = [str ! 0, str ! 1, str ! 2, str ! 3, str ! 4, str ! 5, str ! 6, str ! 7, str ! 8,
      str ! 9, str ! 10, str ! 11, str ! 12, str ! 13, str ! 14, str ! 15]"
    by (simp add: upt_rec eval_nat_numeral)
  moreover have "map ((!) str) [0..<16] = str" using assms by (metis map_nth)
  ultimately show ?thesis by (simp add: to_string_for_rocksdb_alt)
qed

section \<open>Hashes and partitions\<close>

definition hash_bycrc32 :: "net_key \<Rightarrow> u32 res" where
  "hash_bycrc32 k =
     bind_res (key_serialize k (replicate 16 0, 0)) (\<lambda>(buf, tmp_keysize). crc32 buf (of_nat tmp_keysize))"

definition hash_bycksum16 :: "net_key \<Rightarrow> u16 res" where
  "hash_bycksum16 k =
     bind_res (key_serialize k (replicate 16 0, 0)) (\<lambda>(buf, tmp_keysize). cksum16 buf (of_nat tmp_keysize))"

text \<open>Unsigned division and remainder; a zero divisor is undefined.\<close>

definition udiv :: "'a::len word \<Rightarrow> 'a word \<Rightarrow> 'a word res" where
  "udiv a b = (if b = 0 then Inl Undefined else Inr (a div b))"

definition umod :: "'a::len word \<Rightarrow> 'a word \<Rightarrow> 'a word res" where
  "umod a b = (if b = 0 then Inl Undefined else Inr (a mod b))"

definition get_hashpartition_idx :: "net_key \<Rightarrow> u32 \<Rightarrow> u32 \<Rightarrow> u32 res" where
  "get_hashpartition_idx k partitionnum servernum =
     bind_res (hash_bycrc32 k) (\<lambda>h.
     bind_res (umod h partitionnum) (\<lambda>hashresult.
     bind_res (udiv partitionnum servernum) (\<lambda>width.
     bind_res (udiv hashresult width) (\<lambda>targetidx0.
     let targetidx = (if targetidx0 = servernum then targetidx0 - 1 else targetidx0) in
     bind_res (invariant (0 \<le> targetidx \<and> targetidx < servernum)) (\<lambda>_. Inr targetidx)))))"

definition get_rangepartition_idx :: "net_key \<Rightarrow> u32 \<Rightarrow> u32 res" where
  "get_rangepartition_idx k servernum =
     bind_res (udiv (64 * 1024) servernum) (\<lambda>width.
     bind_res (udiv (drop_bit 16 (keyhihi k) AND 0xFFFF) width) (\<lambda>targetidx.
     bind_res (invariant (0 \<le> targetidx \<and> targetidx < servernum)) (\<lambda>_. Inr targetidx)))"

definition get_spineswitch_idx :: "net_key \<Rightarrow> u32 \<Rightarrow> u32 \<Rightarrow> u32 res" where
  "get_spineswitch_idx k partitionnum servernum =
     bind_res (hash_bycksum16 k) (\<lambda>h.
     bind_res (umod (ucast h) partitionnum) (\<lambda>r.
     let hashresult = (ucast r :: u16) in
     bind_res (udiv partitionnum servernum) (\<lambda>width.
     bind_res (udiv (ucast hashresult) width) (\<lambda>targetidx0.
     let targetidx = (if targetidx0 = servernum then targetidx0 - 1 else targetidx0) in
     bind_res (invariant (0 \<le> targetidx \<and> targetidx < servernum)) (\<lambda>_. Inr targetidx)))))"

definition get_leafswitch_idx :: "net_key \<Rightarrow> u32 \<Rightarrow> u32 \<Rightarrow> u32 \<Rightarrow> u32 \<Rightarrow> u32 res" where
  "get_leafswitch_idx k partitionnum servernum leafswitchnum spineswitchnum =
     bind_res (get_hashpartition_idx k partitionnum servernum) (\<lambda>partitionidx.
     bind_res (udiv servernum leafswitchnum) (\<lambda>width.
     bind_res (udiv partitionidx width) (\<lambda>targetidx0.
     let targetidx = targetidx0 + spineswitchnum in
     bind_res (invariant (spineswitchnum \<le> targetidx \<and> targetidx < leafswitchnum + spineswitchnum))
       (\<lambda>_. Inr targetidx))))"

definition key_crc :: "net_key \<Rightarrow> u32" where
  "key_crc k = NOT (crc_reg (key_bytes k) 0xFFFFFFFF)"

lemma key_serialize_fresh: "key_serialize k (replicate 16 0, 0) = Inr (key_bytes k, 16)"
  using key.enc_total [of 0 k "replicate 16 0"] by (simp add: overlay_bytes overwrite_def)

lemma hash_bycrc32_eq: "hash_bycrc32 k = Inr (key_crc k)"
  by (simp add: hash_bycrc32_def key_serialize_fresh crc32_eq key_crc_def)

lemma hash_bycksum16_total:
  "\<exists>t. hash_bycksum16 k = Inr (htons (NOT t)) \<and> unat t mod 65535 = sum16 (key_bytes k) mod 65535"
  using cksum16_total [of 16 "key_bytes k"] by (simp add: hash_bycksum16_def key_serialize_fresh)

text \<open>The arithmetic of the partition functions: \<^verbatim>\<open>p\<close> slots are cut into pieces of width
  \<^verbatim>\<open>p / s\<close>; the last, incomplete piece is folded into the last server. One such piece is
  left over exactly when \<^verbatim>\<open>p mod s <= p / s\<close>.\<close>

lemma partition_bound:
  fixes h p s :: nat
  assumes "h < p" "0 < s" "s \<le> p" "p mod s \<le> p div s"
  shows "h div (p div s) \<le> s"
proof -
  have w: "0 < p div s" using assms by (simp add: div_greater_zero_iff)
  have "h < s * (p div s) + p mod s" using assms(1) by simp
  also have "\<dots> \<le> s * (p div s) + p div s" using assms(4) by (rule add_left_mono)
  also have "\<dots> = Suc s * (p div s)" by simp
  finally have "h div (p div s) < Suc s" using w by (simp add: less_mult_imp_div_less)
  then show ?thesis by simp
qed

lemma clamp_partition:
  fixes h p s :: u32
  assumes "unat h < unat p" "0 < unat s" "unat s \<le> unat p" "unat p mod unat s \<le> unat p div unat s"
  defines "t \<equiv> h div (p div s)"
  shows "unat (if t = s then t - 1 else t) = min (unat h div (unat p div unat s)) (unat s - 1)"
proof -
  have t: "unat t = unat h div (unat p div unat s)" by (simp add: t_def unat_div)
  then have le: "unat t \<le> unat s" using partition_bound [OF assms(1-4)] by simp
  have "unat (t - 1) = unat t - 1" if "t = s"
    using that assms(2) by (metis unat_minus_one unat_0 less_irrefl)
  then show ?thesis using t le by (auto simp: word_unat_eq_iff min_def)
qed

lemma get_hashpartition_idx_eq:
  assumes "0 < unat s" "unat s \<le> unat p" "unat p mod unat s \<le> unat p div unat s"
  shows "\<exists>i. get_hashpartition_idx k p s = Inr i \<and> unat i < unat s \<and>
    unat i = min ((unat (key_crc k) mod unat p) div (unat p div unat s)) (unat s - 1)"
proof -
  let ?h = "key_crc k mod p"
  let ?t = "?h div (p div s)"
  let ?i = "if ?t = s then ?t - 1 else ?t"
  have p: "0 < unat p" using assms by linarith
  have nz: "p \<noteq> 0" "s \<noteq> 0" "p div s \<noteq> 0"
    using p assms by (auto simp: word_unat_eq_iff unat_div div_eq_0_iff)
  have "unat ?h < unat p" using p by (simp add: unat_mod)
  then have i: "unat ?i = min (unat ?h div (unat p div unat s)) (unat s - 1)"
    by (rule clamp_partition [OF _ assms])
  then have "unat ?i < unat s" using assms(1) by simp
  with i nz show ?thesis
    by (simp add: get_hashpartition_idx_def hash_bycrc32_eq umod_def udiv_def Let_def word_less_nat_alt
        unat_mod)
qed

lemma get_spineswitch_idx_range:
  assumes "0 < unat s" "unat s \<le> unat p" "unat p mod unat s \<le> unat p div unat s"
  shows "\<exists>i. get_spineswitch_idx k p s = Inr i \<and> unat i < unat s"
proof -
  obtain c where c: "hash_bycksum16 k = Inr c" using hash_bycksum16_total by blast
  let ?h = "(ucast c :: u32) mod p"
  let ?t = "?h div (p div s)"
  let ?i = "if ?t = s then ?t - 1 else ?t"
  have p: "0 < unat p" using assms by linarith
  have nz: "p \<noteq> 0" "s \<noteq> 0" "p div s \<noteq> 0"
    using p assms by (auto simp: word_unat_eq_iff unat_div div_eq_0_iff)
  have "unat ?h < 65536"
    using le_less_trans [OF mod_less_eq_dividend unat_u16, of c "unat p"] by (simp add: unat_mod unat_ucast_id)
  then have small: "(ucast (ucast ?h :: u16) :: u32) = ?h"
    by (simp add: word_unat_eq_iff unsigned_ucast_eq unsigned_take_bit_eq take_bit_nat_eq_self)
  have "unat ?h < unat p" using p by (simp add: unat_mod)
  then have "unat ?i = min (unat ?h div (unat p div unat s)) (unat s - 1)"
    by (rule clamp_partition [OF _ assms])
  then have "unat ?i < unat s" using assms(1) by simp
  with nz c small show ?thesis
    by (auto simp: get_spineswitch_idx_def umod_def udiv_def Let_def word_less_nat_alt split: if_splits)
qed

lemma get_leafswitch_idx_range:
  assumes "0 < unat s" "unat s \<le> unat p" "unat p mod unat s \<le> unat p div unat s"
    and leaf: "0 < unat l" "unat l dvd unat s" and "unat l + unat n < 2 ^ 32"
  shows "\<exists>i. get_leafswitch_idx k p s l n = Inr i \<and> unat n \<le> unat i \<and> unat i < unat l + unat n"
proof -
  obtain j where j: "get_hashpartition_idx k p s = Inr j" "unat j < unat s"
    using get_hashpartition_idx_eq [OF assms(1-3)] by blast
  obtain w where w: "unat s = unat l * w" using leaf(2) ..
  then have "0 < w" using assms(1) by (cases w) auto
  have sl: "unat s div unat l = w" using w leaf(1) by simp
  have q: "unat (j div (s div l)) < unat l"
    using j(2) w sl by (simp add: unat_div less_mult_imp_div_less)
  have nz: "l \<noteq> 0" "s div l \<noteq> 0"
    using leaf(1) sl \<open>0 < w\<close> by (auto simp: word_unat_eq_iff unat_div)
  have "unat (j div (s div l) + n) = unat (j div (s div l)) + unat n" "unat (l + n) = unat l + unat n"
    using q assms(6) by (auto simp: unat_plus_if')
  with j nz q show ?thesis
    by (simp add: get_leafswitch_idx_def udiv_def word_less_nat_alt word_le_nat_alt)
qed

lemma unat_keyhihihi: "unat (drop_bit 16 (keyhihi k) AND 0xFFFF) = unat (keyhihi k) div 65536"
proof -
  have "unat (keyhihi k) div 65536 < 65536"
    using unat_u32 [of "keyhihi k"] by (simp add: less_mult_imp_div_less)
  then have "take_bit 16 (unat (keyhihi k) div 65536) = unat (keyhihi k) div 65536"
    by (intro take_bit_nat_eq_self) simp
  then show ?thesis
    by (simp add: and_u16_mask unsigned_take_bit_eq unat_drop_bit_eq drop_bit_eq_div unat_div)
qed

lemma get_rangepartition_idx_eq:
  assumes "0 < unat s" "unat s \<le> 65536"
  shows "get_rangepartition_idx k s =
    (let t = unat (keyhihi k) div 65536 div (65536 div unat s)
     in if t < unat s then Inr (of_nat t) else Inl Abort)"
proof -
  let ?w = "(64 * 1024 :: u32) div s"
  let ?t = "(drop_bit 16 (keyhihi k) AND 0xFFFF) div ?w"
  have w: "unat ?w = 65536 div unat s" by (simp add: unat_div)
  then have nz: "s \<noteq> 0" "?w \<noteq> 0"
    using assms by (auto simp: word_unat_eq_iff div_eq_0_iff)
  have t: "unat ?t = unat (keyhihi k) div 65536 div (65536 div unat s)"
    unfolding unat_div [of _ ?w] unat_keyhihihi w ..
  show ?thesis
    using nz by (simp add: get_rangepartition_idx_def udiv_def Let_def word_less_nat_alt t [symmetric])
qed

section \<open>Properties\<close>

text \<open>C14: the order of the byte strings under which keys are stored in RocksDB (byte-wise
  comparison), \<^verbatim>\<open>operator<\<close> on keys and the order of the keys as 128-bit numbers are the same
  order, so iterating over the database visits the keys in the order of the in-memory maps.\<close>

theorem rocksdb_order:
  "(to_string_for_rocksdb l < to_string_for_rocksdb r \<longleftrightarrow> key_less l r) \<and>
   (key_less l r \<longleftrightarrow> key_nat l < key_nat r) \<and>
   (key_greater l r \<longleftrightarrow> key_less r l) \<and> (key_le l r \<longleftrightarrow> \<not> key_less r l) \<and>
   (key_ge l r \<longleftrightarrow> \<not> key_less l r) \<and> (key_eq l r \<longleftrightarrow> l = r) \<and> (key_neq l r \<longleftrightarrow> \<not> key_eq l r)"
proof (intro conjI)
  show "to_string_for_rocksdb l < to_string_for_rocksdb r \<longleftrightarrow> key_less l r"
    by (simp add: be_val_less be_val_to_string key_less_nat)
  show "key_less l r \<longleftrightarrow> key_nat l < key_nat r" by (rule key_less_nat)
  show "key_greater l r \<longleftrightarrow> key_less r l" by (auto simp: key_greater_def key_less_def)
  show "key_le l r \<longleftrightarrow> \<not> key_less r l"
    using not_less [of r l] by (simp add: less_net_key_def less_eq_net_key_def)
  have "key_ge l r \<longleftrightarrow> key_le r l" by (auto simp: key_ge_def key_le_def)
  then show "key_ge l r \<longleftrightarrow> \<not> key_less l r"
    using not_less [of l r] by (simp add: less_net_key_def less_eq_net_key_def)
  show "key_eq l r \<longleftrightarrow> l = r" by (auto simp: key_eq_def net_key.expand)
  show "key_neq l r \<longleftrightarrow> \<not> key_eq l r" by (auto simp: key_neq_def key_eq_def)
qed

text \<open>C33: \<^verbatim>\<open>to_string_for_rocksdb\<close> and \<^verbatim>\<open>from_string_for_rocksdb\<close> are inverse to each other: every key
  survives the round trip through the database, and every 16-byte string is the string of the key
  it is read as.\<close>

theorem rocksdb_key_roundtrip:
  "from_string_for_rocksdb (to_string_for_rocksdb k) = Inr k \<and>
   (length str = 16 \<longrightarrow> (\<exists>k'. from_string_for_rocksdb str = Inr k' \<and> to_string_for_rocksdb k' = str))"
  using from_to_string_for_rocksdb to_from_string_for_rocksdb by blast

theorem rocksdb_key_roundtrip_witness:
  "from_string_for_rocksdb (to_string_for_rocksdb (Key 1 2 3 0x40005)) = Inr (Key 1 2 3 0x40005) \<and>
   (\<exists>k. from_string_for_rocksdb (replicate 16 7) = Inr k \<and> to_string_for_rocksdb k = replicate 16 7)"
  using rocksdb_key_roundtrip [of "Key 1 2 3 0x40005" "replicate 16 7"] by simp

text \<open>C32: a key serialized at an offset of a packet buffer with 16 bytes of space is deserialized
  from that offset, also from the datagram cut behind the key, and no byte outside the 16 is
  changed. \<^verbatim>\<open>dynamic_serialize\<close> stores the same bytes in a dynamic array.\<close>

theorem key_packet_roundtrip:
  assumes "off + 16 \<le> length buf"
  shows "\<exists>buf'. key_serialize k (buf, off) = Inr (buf', off + 16) \<and>
    key_deserialize (buf', off) = Inr (k, (buf', off + 16)) \<and>
    key_deserialize (take (off + 16) buf', off) = Inr (k, (take (off + 16) buf', off + 16)) \<and>
    length buf' = length buf \<and> take off buf' = take off buf \<and> drop (off + 16) buf' = drop (off + 16) buf \<and>
    (da_ok d \<and> off \<le> length (da_bytes d) \<and> off + 16 \<le> nat (da_maxcapability d) \<longrightarrow>
      (\<exists>d'. key_dynamic_serialize k d (int off) = Inr d' \<and> da_ok d' \<and>
        da_bytes d' = patch off (take 16 (drop off buf')) (da_bytes d)))"
proof -
  let ?buf' = "overwrite off (key_bytes k) buf"
  have enc: "key_serialize k (buf, off) = Inr (?buf', off + 16)"
    using key.enc_total [of off k buf] assms by (simp add: overlay_bytes)
  moreover have "key_deserialize (?buf', off) = Inr (k, (?buf', off + 16))"
    using key.enc_dec [of off k buf] assms enc by simp
  moreover have "key_deserialize (take (off + 16) ?buf', off) = Inr (k, (take (off + 16) ?buf', off + 16))"
    using key.dec_take [of off k buf ?buf' "off + 16"] assms enc by simp
  moreover have "take 16 (drop off ?buf') = key_bytes k"
    using assms by (simp add: overwrite_def)
  ultimately show ?thesis
    using assms key_dynamic_serialize_patch [of d off k]
    by (intro exI [of _ ?buf']) (auto simp: overwrite_def)
qed

theorem key_packet_roundtrip_witness:
  "\<exists>buf'. key_serialize (Key 1 2 3 4) (replicate 20 0, 2) = Inr (buf', 18) \<and>
     key_deserialize (buf', 2) = Inr (Key 1 2 3 4, (buf', 18)) \<and>
     (\<exists>d'. bind_res (da_new 2 64) (\<lambda>d. key_dynamic_serialize (Key 1 2 3 4) d 0) = Inr d')"
proof -
  obtain d where d: "da_new 2 64 = Inr d" "da_ok d" "da_bytes d = []" "da_maxcapability d = 64"
    using da_ok_init [of 2 64] by auto
  have "\<exists>d'. key_dynamic_serialize (Key 1 2 3 4) d 0 = Inr d'"
    using key_packet_roundtrip [of 0 "replicate 16 0" "Key 1 2 3 4" d] d by auto
  then show ?thesis
    using key_packet_roundtrip [of 2 "replicate 20 0" "Key 1 2 3 4" d] d by auto
qed

text \<open>C31: \<^verbatim>\<open>get_hashpartition_idx\<close> returns a server index below \<^verbatim>\<open>servernum\<close>, the slot of the key's
  CRC-32 divided by the slots per server and clamped to the last server, whenever the slots left
  over by the division (\<^verbatim>\<open>partitionnum % servernum\<close>) are at most one server's share;
  \<^verbatim>\<open>get_leafswitch_idx\<close> then returns an index of the leaf range if the leaf switches share the
  servers evenly, and \<^verbatim>\<open>get_spineswitch_idx\<close> an index below its bound.\<close>

theorem partition_in_range:
  assumes "0 < unat s" "unat s \<le> unat p" "unat p mod unat s \<le> unat p div unat s"
  shows "(\<exists>i. get_hashpartition_idx k p s = Inr i \<and> unat i < unat s \<and>
      unat i = min ((unat (key_crc k) mod unat p) div (unat p div unat s)) (unat s - 1)) \<and>
    (\<exists>i. get_spineswitch_idx k p s = Inr i \<and> unat i < unat s) \<and>
    (0 < unat l \<and> unat l dvd unat s \<and> unat l + unat n < 2 ^ 32 \<longrightarrow>
      (\<exists>i. get_leafswitch_idx k p s l n = Inr i \<and> unat n \<le> unat i \<and> unat i < unat l + unat n))"
  using get_hashpartition_idx_eq [OF assms] get_spineswitch_idx_range [OF assms]
    get_leafswitch_idx_range [OF assms] by blast

theorem partition_in_range_witness:
  "(\<exists>i. get_hashpartition_idx (Key 1 2 3 4) 32768 6 = Inr i \<and> unat i < 6) \<and>
   (\<exists>i. get_leafswitch_idx (Key 1 2 3 4) 32768 6 3 2 = Inr i \<and> 2 \<le> unat i \<and> unat i < 5)"
  using partition_in_range [of 6 32768 "Key 1 2 3 4" 3 2] by auto

text \<open>C34: \<^verbatim>\<open>get_rangepartition_idx\<close> returns an index for every key exactly when \<^verbatim>\<open>servernum\<close> divides
  \<^verbatim>\<open>64 * 1024\<close>; for every other number of servers some key fails its \<^verbatim>\<open>INVARIANT\<close> (or divides by
  zero), as the rest of the division is not clamped to the last server.\<close>

theorem rangepartition_total:
  "(\<forall>k. \<exists>i. get_rangepartition_idx k s = Inr i) \<longleftrightarrow> unat s dvd 65536"
proof (cases "0 < unat s \<and> unat s \<le> 65536")
  case False
  then have "\<not> unat s dvd 65536" by (auto dest: dvd_imp_le)
  moreover have "get_rangepartition_idx k s = Inl Undefined" for k
    using False by (auto simp: get_rangepartition_idx_def udiv_def word_unat_eq_iff unat_div div_eq_0_iff)
  ultimately show ?thesis by simp
next
  case True
  let ?s = "unat s" and ?q = "65536 div unat s"
  have q: "0 < ?q" using True by (simp add: div_greater_zero_iff)
  show ?thesis
  proof
    assume "\<forall>k. \<exists>i. get_rangepartition_idx k s = Inr i"
    then obtain i where "get_rangepartition_idx key_max s = Inr i" by blast
    then have "65535 div ?q < ?s"
      using True by (auto simp: get_rangepartition_idx_eq key_max_def unsigned_minus_1_eq_mask mask_eq_exp_minus_1 Let_def split: if_splits)
    then have "65535 < ?s * ?q" using q by (simp add: div_less_iff_less_mult)
    moreover have "?s * ?q \<le> 65536" by simp
    ultimately have "?s * ?q = 65536" by linarith
    then show "?s dvd 65536" by (metis dvd_triv_left)
  next
    assume "?s dvd 65536"
    then have sq: "?s * ?q = 65536" by simp
    have "unat (keyhihi k) div 65536 div ?q < ?s" for k
      using unat_u32 [of "keyhihi k"] q sq by (simp add: less_mult_imp_div_less)
    then show "\<forall>k. \<exists>i. get_rangepartition_idx k s = Inr i"
      using True by (simp add: get_rangepartition_idx_eq)
  qed
qed

end
