(* ===== verification/Net_Val.thy ===== *)
theory Net_Val
  imports Dyn_Array
begin

text \<open>
  The values of src/common/val.c: a length and a heap-allocated byte array, null for the empty
  value. \<^verbatim>\<open>serialize\<close> writes a 16-bit length, the bytes and zero padding to a multiple of eight
  (for values the switch can hold); the \<^verbatim>\<open>_large\<close> variants write a 32-bit length. In RocksDB a
  value is stored with the sequence number of the write behind it.

  A deserialization frees the old array before anything is read into it, so its result does not
  depend on the old value and the reader returns the new one. The writers advance by the bytes they
  write, which is the size the code returns.
\<close>

section \<open>Values\<close>

record net_val =
  val_length :: u32
  val_data :: "byte list option"

definition SWITCH_MAX_VALLEN :: u32 where
  "SWITCH_MAX_VALLEN = 128"

definition get_padding_size :: "u32 \<Rightarrow> u32 res" where
  "get_padding_size vallen =
     (let padding_size = (if vallen \<le> SWITCH_MAX_VALLEN then
          if vallen mod 8 \<noteq> 0 then 8 - vallen mod 8 else 0 else 0) in
      bind_res (invariant (0 \<le> padding_size \<and> padding_size < 8)) (\<lambda>_. Inr padding_size))"

definition val_default :: net_val where
  "val_default = \<lparr>val_length = 0, val_data = None\<rparr>"

text \<open>Reading \<^verbatim>\<open>val_length\<close> bytes through \<^verbatim>\<open>val_data\<close>.\<close>

definition val_read :: "net_val \<Rightarrow> byte list res" where
  "val_read v = (case val_data v of
     None \<Rightarrow> Inl Undefined
   | Some d \<Rightarrow> if unat (val_length v) \<le> length d then Inr (take (unat (val_length v)) d) else Inl Undefined)"

text \<open>The constructor from a buffer (\<^verbatim>\<open>None\<close> is a null pointer).\<close>

definition val_new :: "byte list option \<Rightarrow> u32 \<Rightarrow> net_val res" where
  "val_new buf len = (case buf of
     None \<Rightarrow> Inl Abort
   | Some b \<Rightarrow> if unat len \<le> length b
       then Inr \<lparr>val_length = len, val_data = Some (take (unat len) b)\<rparr> else Inl Undefined)"

text \<open>The copy constructors and the assignments.\<close>

definition val_copy :: "net_val \<Rightarrow> net_val res" where
  "val_copy other =
     (if val_data other \<noteq> None \<and> val_length other \<noteq> 0
      then bind_res (val_read other) (\<lambda>d. Inr \<lparr>val_length = val_length other, val_data = Some d\<rparr>)
      else Inr \<lparr>val_length = 0, val_data = None\<rparr>)"

definition val_eq :: "net_val \<Rightarrow> net_val \<Rightarrow> bool res" where
  "val_eq this other =
     (if val_length this = 0 \<and> val_data this = None \<and> val_length other = 0 \<and> val_data other = None
      then Inr True
      else if val_length this = val_length other \<and> val_data this \<noteq> None \<and> val_data other \<noteq> None
      then bind_res (val_read this) (\<lambda>a. bind_res (val_read other) (\<lambda>b. Inr (a = b)))
      else Inr False)"

definition get_bytesnum :: "net_val \<Rightarrow> u32" where
  "get_bytesnum v = val_length v"

section \<open>RocksDB strings\<close>

definition val_to_string_for_rocksdb :: "net_val \<Rightarrow> u32 \<Rightarrow> byte list res" where
  "val_to_string_for_rocksdb v seq =
     bind_res (if 0 < val_length v then bind_res (invariant (val_data v \<noteq> None)) (\<lambda>_. val_read v) else Inr [])
       (\<lambda>d. Inr (d @ le32 seq))"

definition val_from_string_for_rocksdb :: "byte list \<Rightarrow> (net_val \<times> u32) res" where
  "val_from_string_for_rocksdb valstr =
     (let len = (of_nat (length valstr) - 4 :: u32) in
      bind_res (if 0 < len
          then if unat len \<le> length valstr then Inr (Some (take (unat len) valstr)) else Inl Undefined
          else Inr None) (\<lambda>d.
      if unat len + 4 \<le> length valstr
      then Inr (\<lparr>val_length = len, val_data = d\<rparr>, load32 (drop (unat len) valstr))
      else Inl Undefined))"

definition val_to_string_for_rocksdb_noseq :: "net_val \<Rightarrow> byte list res" where
  "val_to_string_for_rocksdb_noseq v =
     (if 0 < val_length v then bind_res (invariant (val_data v \<noteq> None)) (\<lambda>_. val_read v) else Inr [])"

definition val_from_string_for_rocksdb_noseq :: "byte list \<Rightarrow> net_val res" where
  "val_from_string_for_rocksdb_noseq valstr =
     (let len = (of_nat (length valstr) :: u32) in
      if 0 < len then Inr \<lparr>val_length = len, val_data = Some (take (unat len) valstr)\<rparr>
      else Inr \<lparr>val_length = len, val_data = None\<rparr>)"

section \<open>Packet encodings\<close>

definition deserialize_vallen :: "u32 reader" where
  "deserialize_vallen = rthen (require_space 2) (rbind get16 (\<lambda>w. rreturn (ucast (htons w))))"

definition deserialize_vallen_large :: "u32 reader" where
  "deserialize_vallen_large = rthen (require_space 4) (rbind get32 (\<lambda>w. rreturn (htonl w)))"

text \<open>\<^verbatim>\<open>deserialize_val\<close> and \<^verbatim>\<open>deserialize_val_large\<close> have the same body.\<close>

definition deserialize_val :: "u32 \<Rightarrow> net_val reader" where
  "deserialize_val len =
     (if 0 < len then
        (\<lambda>s. bind_res (get_padding_size len) (\<lambda>padding_size.
          let deserialize_size = len + padding_size in
          rthen (require_space (unat deserialize_size))
            (rbind (get_bytes (unat len)) (\<lambda>d.
             rthen (skip_bytes (unat padding_size))
               (rreturn \<lparr>val_length = len, val_data = Some d\<rparr>))) s))
      else rreturn \<lparr>val_length = len, val_data = None\<rparr>)"

definition val_deserialize :: "net_val reader" where
  "val_deserialize = rbind deserialize_vallen deserialize_val"

definition val_deserialize_large :: "net_val reader" where
  "val_deserialize_large = rbind deserialize_vallen_large deserialize_val"

definition val_null_ok :: "net_val \<Rightarrow> bool" where
  "val_null_ok v \<longleftrightarrow> val_length v \<noteq> 0 \<and> val_data v \<noteq> None \<or> val_length v = 0 \<and> val_data v = None"

definition put_data :: "net_val \<Rightarrow> u32 \<Rightarrow> writer" where
  "put_data v padding_size =
     (if 0 < val_length v then
        wseq [\<lambda>s. bind_res (val_read v) (\<lambda>d. put_bytes d s),
          if 0 < padding_size then put_bytes (replicate (unat padding_size) 0) else wseq []]
      else wseq [])"

definition val_serialize :: "net_val \<Rightarrow> writer" where
  "val_serialize v s =
     bind_res (invariant (val_null_ok v)) (\<lambda>_.
     bind_res (get_padding_size (val_length v)) (\<lambda>padding_size.
     wseq [require_space (unat (2 + val_length v + padding_size)),
       put_bytes (le16 (htons (ucast (val_length v)))),
       put_data v padding_size] s))"

definition val_serialize_large :: "net_val \<Rightarrow> writer" where
  "val_serialize_large v s =
     bind_res (invariant (val_null_ok v)) (\<lambda>_.
     bind_res (get_padding_size (val_length v)) (\<lambda>padding_size.
     wseq [require_space (unat (4 + val_length v + padding_size)),
       put_bytes (le32 (htonl (val_length v))),
       put_data v padding_size] s))"

text \<open>\<^verbatim>\<open>dynamic_serialize\<close>: the offsets of the copy and of the padding are computed in \<^verbatim>\<open>size_t\<close>
  and converted to \<^verbatim>\<open>int\<close> by the call.\<close>

definition dynamic_put_data :: "net_val \<Rightarrow> u32 \<Rightarrow> dyn_array \<Rightarrow> int \<Rightarrow> dyn_array res" where
  "dynamic_put_data v padding_size buf off =
     (if 0 < val_length v then
        bind_res (val_read v) (\<lambda>d.
        bind_res (dynamic_memcpy buf off d) (\<lambda>buf.
        if 0 < padding_size
        then dynamic_memset buf (off + int (unat (val_length v))) 0 (int (unat padding_size))
        else Inr buf))
      else Inr buf)"

definition val_dynamic_serialize :: "net_val \<Rightarrow> dyn_array \<Rightarrow> int \<Rightarrow> dyn_array res" where
  "val_dynamic_serialize v buf off =
     bind_res (invariant (val_null_ok v)) (\<lambda>_.
     bind_res (get_padding_size (val_length v)) (\<lambda>padding_size.
     bind_res (dynamic_memcpy buf off (le16 (htons (ucast (val_length v))))) (\<lambda>buf.
     dynamic_put_data v padding_size buf (off + 2))))"

definition val_dynamic_serialize_large :: "net_val \<Rightarrow> dyn_array \<Rightarrow> int \<Rightarrow> dyn_array res" where
  "val_dynamic_serialize_large v buf off =
     bind_res (invariant (val_null_ok v)) (\<lambda>_.
     bind_res (get_padding_size (val_length v)) (\<lambda>padding_size.
     bind_res (dynamic_memcpy buf off (le32 (htonl (val_length v)))) (\<lambda>buf.
     dynamic_put_data v padding_size buf (off + 4))))"

section \<open>Well-formed values\<close>

text \<open>The invariant: the array has the recorded length, and the empty value has no array.\<close>

definition val_ok :: "net_val \<Rightarrow> bool" where
  "val_ok v \<longleftrightarrow> (case val_data v of None \<Rightarrow> val_length v = 0
     | Some d \<Rightarrow> d \<noteq> [] \<and> length d = unat (val_length v))"

definition val_bytes :: "net_val \<Rightarrow> byte list" where
  "val_bytes v = (case val_data v of None \<Rightarrow> [] | Some d \<Rightarrow> d)"

definition padding :: "net_val \<Rightarrow> nat" where
  "padding v = (if unat (val_length v) \<le> 128 then (8 - unat (val_length v) mod 8) mod 8 else 0)"

lemma get_padding_size_nat:
  "\<exists>p. get_padding_size n = Inr p \<and> unat p = (if unat n \<le> 128 then (8 - unat n mod 8) mod 8 else 0)"
proof -
  have m: "unat (n mod 8) = unat n mod 8" by (simp add: unat_mod)
  have lt: "unat n mod 8 < 8" by simp
  show ?thesis
  proof (cases "n \<le> SWITCH_MAX_VALLEN \<and> n mod 8 \<noteq> 0")
    case True
    have "unat (8 - n mod 8) = 8 - unat n mod 8"
      using lt m by (subst unat_sub) (simp_all add: word_le_nat_alt)
    moreover have "0 < unat n mod 8" using True m by (auto simp: word_unat_eq_iff)
    ultimately show ?thesis
      using True by (simp add: get_padding_size_def SWITCH_MAX_VALLEN_def word_le_nat_alt word_less_nat_alt Let_def)
  next
    case False
    then have "unat n \<le> 128 \<Longrightarrow> unat n mod 8 = 0"
      using m by (auto simp: SWITCH_MAX_VALLEN_def word_le_nat_alt word_unat_eq_iff)
    then show ?thesis
      using False by (auto simp: get_padding_size_def SWITCH_MAX_VALLEN_def word_le_nat_alt Let_def)
  qed
qed

lemma val_okE:
  assumes "val_ok v"
  obtains (empty) "v = \<lparr>val_length = 0, val_data = None\<rparr>"
  | (full) d where "v = \<lparr>val_length = of_nat (length d), val_data = Some d\<rparr>" "d \<noteq> []" "length d < 2 ^ 32"
proof (cases "val_data v")
  case None
  with assms show thesis by (intro empty) (cases v, simp add: val_ok_def)
next
  case (Some d)
  with assms have "d \<noteq> []" "length d = unat (val_length v)" by (auto simp: val_ok_def)
  moreover from this have "length d < 2 ^ 32" using unsigned_less [of "val_length v", where ?'a = nat] by simp
  ultimately show thesis using Some by (intro full [of d]) (cases v, simp_all)
qed

lemma val_ok_facts:
  assumes "val_ok v"
  shows "val_null_ok v" "length (val_bytes v) = unat (val_length v)"
    "val_length v \<noteq> 0 \<Longrightarrow> val_read v = Inr (val_bytes v)" "val_length v = 0 \<Longrightarrow> val_bytes v = []"
    "val_length v \<noteq> 0 \<Longrightarrow> val_data v = Some (val_bytes v)" "val_length v = 0 \<Longrightarrow> val_data v = None"
  using assms by (auto simp: val_ok_def val_null_ok_def val_bytes_def val_read_def
      split: option.splits)

text \<open>What follows the length field.\<close>

definition val_body :: "net_val \<Rightarrow> byte list" where
  "val_body v = val_bytes v @ replicate (padding v) 0"

lemma padding_empty: "val_length v = 0 \<Longrightarrow> padding v = 0"
  by (simp add: padding_def)

lemma length_val_body: "val_ok v \<Longrightarrow> length (val_body v) = unat (val_length v) + padding v"
  by (simp add: val_body_def val_ok_facts)

lemma unat_plus_le: "unat (a + b) \<le> unat a + unat (b :: 'a::len word)"
  by (simp add: unat_plus_if')

lemma val_size_le:
  "val_ok v \<Longrightarrow> unat p = padding v \<Longrightarrow> unat (w + val_length v + p) \<le> unat w + length (val_body v)"
  using unat_plus_le [of "w + val_length v" p] unat_plus_le [of w "val_length v"]
  by (simp add: length_val_body)

lemma emits_put_data:
  assumes "val_ok v" "unat p = padding v"
  shows "emits (put_data v p) (bytes_pat (val_body v))"
proof (cases "val_length v = 0")
  case True
  with assms have "val_body v = []" by (simp add: val_body_def val_ok_facts padding_empty)
  then show ?thesis using emits_wseq_Nil by (simp add: put_data_def True)
next
  case False
  have r: "(\<lambda>s. bind_res (val_read v) (\<lambda>d. put_bytes d s)) = put_bytes (val_bytes v)"
    using val_ok_facts(3) [OF assms(1) False] by simp
  have pad: "emits (if 0 < p then put_bytes (replicate (unat p) 0) else wseq [])
      (bytes_pat (replicate (padding v) 0))"
    using assms(2) emits_put_bytes [of "replicate (padding v) 0"] emits_wseq_Nil
    by (cases "p = 0") (auto simp: word_neq_0_conv)
  have "emits (wseq [put_bytes (val_bytes v), if 0 < p then put_bytes (replicate (unat p) 0) else wseq []])
      (bytes_pat (val_bytes v) @ bytes_pat (replicate (padding v) 0))"
    by (rule emits_wseq_Cons [OF emits_put_bytes emits_wseq_single [OF pad]])
  then show ?thesis
    using False unfolding put_data_def r val_body_def by (simp add: word_neq_0_conv)
qed

lemma emits_val:
  assumes "val_ok v" "unat w = length hdr"
  shows "emits (\<lambda>s. bind_res (invariant (val_null_ok v)) (\<lambda>_.
     bind_res (get_padding_size (val_length v)) (\<lambda>padding_size.
     wseq [require_space (unat (w + val_length v + padding_size)), put_bytes hdr,
       put_data v padding_size] s))) (bytes_pat (hdr @ val_body v))"
proof -
  obtain p where p: "get_padding_size (val_length v) = Inr p" "unat p = padding v"
    using get_padding_size_nat [of "val_length v"] by (auto simp: padding_def)
  have "emits (wseq [require_space (unat (w + val_length v + p)), put_bytes hdr, put_data v p])
      (bytes_pat hdr @ bytes_pat (val_body v))"
    using val_size_le [OF assms(1) p(2), of w] assms(2)
    by (intro emits_require_space emits_wseq_Cons [OF emits_put_bytes]
        emits_wseq_single [OF emits_put_data [OF assms(1) p(2)]]) simp
  then show ?thesis using assms(1) p(1) by (simp add: val_ok_facts del: wseq.simps)
qed

lemma parses_deserialize_val:
  assumes "val_ok v"
  shows "parses (deserialize_val (val_length v)) (bytes_pat (val_body v)) v"
proof (cases "val_length v = 0")
  case True
  with assms have "val_body v = []" "v = \<lparr>val_length = 0, val_data = None\<rparr>"
    by (auto simp: val_body_def val_ok_facts padding_empty elim: val_okE)
  then show ?thesis using parses_rreturn [of "\<lparr>val_length = 0, val_data = None\<rparr>"]
    by (simp add: deserialize_val_def True)
next
  case False
  obtain p where p: "get_padding_size (val_length v) = Inr p" "unat p = padding v"
    using get_padding_size_nat [of "val_length v"] by (auto simp: padding_def)
  have v: "v = \<lparr>val_length = val_length v, val_data = Some (val_bytes v)\<rparr>"
    using val_ok_facts(5) [OF assms False] by (cases v) simp
  have "parses (rthen (skip_bytes (unat p)) (rreturn v)) (bytes_pat (replicate (padding v) 0) @ []) v"
    by (rule parses_rthen_skip [OF parses_rreturn]) (simp add: p(2))
  then have "parses (rbind (get_bytes (unat (val_length v))) (\<lambda>d. rthen (skip_bytes (unat p))
      (rreturn \<lparr>val_length = val_length v, val_data = Some d\<rparr>))) (bytes_pat (val_body v)) v"
    unfolding val_body_def map_append
    by (intro parses_rbind [OF parses_get_bytes]) (use v val_ok_facts(2) [OF assms] in simp_all)
  then have "parses (rthen (require_space (unat (val_length v + p)))
      (rbind (get_bytes (unat (val_length v))) (\<lambda>d. rthen (skip_bytes (unat p))
      (rreturn \<lparr>val_length = val_length v, val_data = Some d\<rparr>)))) (bytes_pat (val_body v)) v"
    using val_size_le [OF assms p(2), of 0] by (intro parses_rthen_space) simp_all
  then show ?thesis
    using False by (simp add: deserialize_val_def p(1) Let_def word_neq_0_conv)
qed

definition val_pat :: "net_val \<Rightarrow> byte list" where
  "val_pat v = le16 (htons (ucast (val_length v))) @ val_body v"

definition val_pat_large :: "net_val \<Rightarrow> byte list" where
  "val_pat_large v = le32 (htonl (val_length v)) @ val_body v"

lemma emits_val_serialize [emits_intros]: "val_ok v \<Longrightarrow> emits (val_serialize v) (bytes_pat (val_pat v))"
  using emits_val [of v 2 "le16 (htons (ucast (val_length v)))"] unfolding val_serialize_def val_pat_def by simp

lemma emits_val_serialize_large [emits_intros]:
  "val_ok v \<Longrightarrow> emits (val_serialize_large v) (bytes_pat (val_pat_large v))"
  using emits_val [of v 4 "le32 (htonl (val_length v))"] unfolding val_serialize_large_def val_pat_large_def
  by simp

definition val_small :: "net_val \<Rightarrow> bool" where
  "val_small v \<longleftrightarrow> val_ok v \<and> unat (val_length v) < 65536"

lemma ucast_u16_u32: "unat (w :: u32) < 65536 \<Longrightarrow> (ucast (ucast w :: u16) :: u32) = w"
  by (simp add: word_unat_eq_iff unsigned_ucast_eq unsigned_take_bit_eq take_bit_nat_eq_self)

lemma parses_val_deserialize [parses_intros]:
  assumes "val_small v"
  shows "parses val_deserialize (bytes_pat (val_pat v)) v"
proof -
  have "parses deserialize_vallen (be16_pat (ucast (val_length v))) (val_length v)"
    unfolding deserialize_vallen_def
    using assms by (intro parses_rthen_space parses_rbind_final [OF parses_get16])
      (simp_all add: val_small_def ucast_u16_u32)
  from parses_rbind [where f = deserialize_val, OF this parses_deserialize_val] show ?thesis
    using assms unfolding val_deserialize_def val_pat_def by (simp add: val_small_def)
qed

lemma parses_val_deserialize_large [parses_intros]:
  assumes "val_ok v"
  shows "parses val_deserialize_large (bytes_pat (val_pat_large v)) v"
proof -
  have "parses deserialize_vallen_large (be32_pat (val_length v)) (val_length v)"
    unfolding deserialize_vallen_large_def
    by (intro parses_rthen_space parses_rbind_final [OF parses_get32]) simp_all
  from parses_rbind [where f = deserialize_val, OF this parses_deserialize_val [OF assms]] show ?thesis
    unfolding val_deserialize_large_def val_pat_large_def by simp
qed

interpretation sval: codec val_serialize val_deserialize "\<lambda>v. bytes_pat (val_pat v)" val_small
  by unfold_locales (auto simp: val_small_def intro: emits_val_serialize parses_val_deserialize)

interpretation lval: codec val_serialize_large val_deserialize_large
  "\<lambda>v. bytes_pat (val_pat_large v)" val_ok
  by unfold_locales (auto intro: emits_val_serialize_large parses_val_deserialize_large)

section \<open>Dynamic arrays and strings\<close>

lemma dynamic_put_data_patch:
  assumes "val_ok v" "unat p = padding v" "da_ok d" "off \<le> length (da_bytes d)"
    "off + length (val_body v) \<le> nat (da_maxcapability d)"
  shows "\<exists>d'. dynamic_put_data v p d (int off) = Inr d' \<and> da_ok d' \<and>
    da_bytes d' = patch off (val_body v) (da_bytes d) \<and> nat (da_maxcapability d') = nat (da_maxcapability d)"
proof (cases "val_length v = 0")
  case True
  with assms show ?thesis
    by (auto simp: dynamic_put_data_def val_body_def val_ok_facts padding_empty patch_Nil)
next
  case False
  have len: "length (val_bytes v) = unat (val_length v)" using assms(1) by (simp add: val_ok_facts)
  have pos: "0 \<le> da_maxcapability d" using assms(3) by (auto simp: da_ok_def)
  obtain d1 where d1: "dynamic_memcpy d (int off) (val_bytes v) = Inr d1" "da_ok d1"
    "da_bytes d1 = patch off (val_bytes v) (da_bytes d)" "nat (da_maxcapability d1) = nat (da_maxcapability d)"
    using da.store_fits [OF assms(3), of off "val_bytes v"] assms(5) by (auto simp: val_body_def)
  show ?thesis
  proof (cases "p = 0")
    case True
    with False d1 assms show ?thesis
      by (simp add: dynamic_put_data_def word_neq_0_conv val_ok_facts val_body_def)
  next
    case pad: False
    have "0 \<le> da_maxcapability d1" using d1(2) by (auto simp: da_ok_def)
    then have fits: "int (off + length (val_bytes v)) + int (unat p) \<le> da_maxcapability d1"
      using assms(2,5) d1(4) pos by (simp add: val_body_def)
    obtain d2 where d2: "dynamic_memset d1 (int (off + length (val_bytes v))) 0 (int (unat p)) = Inr d2"
      "da_ok d2" "da_bytes d2 = patch (off + length (val_bytes v)) (replicate (unat p) 0) (da_bytes d1)"
      "da_maxcapability d2 = da_maxcapability d1"
      using dynamic_memset_fits [OF d1(2) _ _ fits, of 0] by (auto simp: nat_int_add)
    have "dynamic_put_data v p d (int off) = Inr d2"
      using False pad d1(1) d2(1) assms(1) unfolding dynamic_put_data_def len [symmetric]
      by (simp add: word_neq_0_conv val_ok_facts)
    with d1 d2 assms(2) show ?thesis by (simp only: patch_patch val_body_def) simp
  qed
qed

lemma dynamic_val_patch:
  assumes "val_ok v" "da_ok d" "off \<le> length (da_bytes d)"
    "off + length hdr + length (val_body v) \<le> nat (da_maxcapability d)" "n = int (length hdr)"
  shows "\<exists>d'. bind_res (invariant (val_null_ok v)) (\<lambda>_.
     bind_res (get_padding_size (val_length v)) (\<lambda>padding_size.
     bind_res (dynamic_memcpy d (int off) hdr) (\<lambda>buf.
     dynamic_put_data v padding_size buf (int off + n)))) = Inr d' \<and> da_ok d' \<and>
    da_bytes d' = patch off (hdr @ val_body v) (da_bytes d) \<and>
    nat (da_maxcapability d') = nat (da_maxcapability d)"
proof -
  obtain p where p: "get_padding_size (val_length v) = Inr p" "unat p = padding v"
    using get_padding_size_nat [of "val_length v"] by (auto simp: padding_def)
  obtain d1 where d1: "dynamic_memcpy d (int off) hdr = Inr d1" "da_ok d1"
    "da_bytes d1 = patch off hdr (da_bytes d)" "nat (da_maxcapability d1) = nat (da_maxcapability d)"
    using da.store_fits [OF assms(2), of off hdr] assms(4) by auto
  have "off + length hdr \<le> length (da_bytes d1)" using d1(3) by (simp add: length_patch)
  then show ?thesis
    using dynamic_put_data_patch [OF assms(1) p(2) d1(2), of "off + length hdr"] assms(1,4,5) d1 p(1)
    by (auto simp: val_ok_facts patch_patch)
qed

lemma val_from_to_string:
  assumes "val_ok v" "unat (val_length v) + 4 < 2 ^ 32"
  shows "\<exists>str. val_to_string_for_rocksdb v seq = Inr str \<and> val_from_string_for_rocksdb str = Inr (v, seq)"
proof -
  have str: "val_to_string_for_rocksdb v seq = Inr (val_bytes v @ le32 seq)"
    using assms(1) by (cases "val_length v = 0")
      (auto simp: val_to_string_for_rocksdb_def val_ok_facts word_neq_0_conv)
  have len: "length (val_bytes v) = unat (val_length v)" using assms(1) by (simp add: val_ok_facts)
  have "val_from_string_for_rocksdb (val_bytes v @ le32 seq) = Inr (v, seq)"
    using assms(1) len by (cases "val_length v = 0"; cases v)
      (auto simp: val_from_string_for_rocksdb_def val_ok_facts word_neq_0_conv Let_def
        dest: val_ok_facts(5,6))
  with str show ?thesis by blast
qed

lemma val_from_to_string_noseq:
  assumes "val_ok v"
  shows "\<exists>str. val_to_string_for_rocksdb_noseq v = Inr str \<and> val_from_string_for_rocksdb_noseq str = Inr v"
proof -
  have len: "length (val_bytes v) = unat (val_length v)" using assms(1) by (simp add: val_ok_facts)
  have "val_to_string_for_rocksdb_noseq v = Inr (val_bytes v)"
    using assms(1) by (cases "val_length v = 0")
      (auto simp: val_to_string_for_rocksdb_noseq_def val_ok_facts word_neq_0_conv)
  moreover have "val_from_string_for_rocksdb_noseq (val_bytes v) = Inr v"
    using assms(1) len by (cases "val_length v = 0"; cases v)
      (auto simp: val_from_string_for_rocksdb_noseq_def val_ok_facts word_neq_0_conv Let_def
        dest: val_ok_facts(5,6))
  ultimately show ?thesis by blast
qed

lemma val_copy_ok: "val_ok v \<Longrightarrow> val_copy v = Inr v"
  by (erule val_okE) (auto simp: val_copy_def val_read_def take_bit_nat_eq_self unsigned_of_nat
      word_unat_eq_iff)

lemma val_eq_ok: "val_ok v \<Longrightarrow> val_ok w \<Longrightarrow> val_eq v w = Inr (v = w)"
  using val_ok_facts [of v] val_ok_facts [of w]
  by (cases v; cases w) (auto simp: val_eq_def)

section \<open>Properties\<close>

lemma padding_mod: "unat (val_length v) \<le> 128 \<Longrightarrow> (unat (val_length v) + padding v) mod 8 = 0"
  using mod_add_right_eq [of "unat (val_length v)" "8 - unat (val_length v) mod 8" 8]
    mod_add_left_eq [of "unat (val_length v)" 8 "8 - unat (val_length v) mod 8"]
  by (simp add: padding_def)

lemma padding_less: "padding v < 8"
  by (simp add: padding_def)

text \<open>C37: a well-formed value shorter than 64 KiB, serialized into a buffer that has the space, is
  deserialized from there (also from the datagram cut behind it) and no other byte changes; the
  encoding takes two bytes for the length, the value, and less than eight bytes of padding, which
  round values of at most 128 bytes up to a multiple of eight. \<^verbatim>\<open>dynamic_serialize\<close> stores the same
  bytes.\<close>

theorem val_packet_roundtrip:
  assumes "val_ok v" "unat (val_length v) < 65536" "off + 2 + unat (val_length v) + padding v \<le> length buf"
  shows "\<exists>buf' n. val_serialize v (buf, off) = Inr (buf', off + n) \<and>
    n = 2 + unat (val_length v) + padding v \<and> padding v < 8 \<and>
    (unat (val_length v) \<le> 128 \<longrightarrow> (n - 2) mod 8 = 0) \<and>
    val_deserialize (buf', off) = Inr (v, (buf', off + n)) \<and>
    val_deserialize (take (off + n) buf', off) = Inr (v, (take (off + n) buf', off + n)) \<and>
    length buf' = length buf \<and> take off buf' = take off buf \<and> drop (off + n) buf' = drop (off + n) buf \<and>
    (da_ok d \<and> off \<le> length (da_bytes d) \<and> off + n \<le> nat (da_maxcapability d) \<longrightarrow>
      (\<exists>d'. val_dynamic_serialize v d (int off) = Inr d' \<and> da_ok d' \<and>
        da_bytes d' = patch off (take n (drop off buf')) (da_bytes d)))"
proof -
  let ?buf' = "overwrite off (val_pat v) buf" and ?n = "2 + unat (val_length v) + padding v"
  have len: "length (val_pat v) = ?n" using assms(1) by (simp add: val_pat_def length_val_body)
  have small: "val_small v" using assms(1,2) by (simp add: val_small_def)
  have enc: "val_serialize v (buf, off) = Inr (?buf', off + ?n)"
    using sval.enc_total [OF small, of off buf] assms(3) by (simp add: overlay_bytes len add.assoc)
  moreover have "val_deserialize (?buf', off) = Inr (v, (?buf', off + ?n))"
    using sval.enc_dec [OF small, of off buf] assms(3) enc by (simp add: len add.assoc)
  moreover have "val_deserialize (take (off + ?n) ?buf', off) = Inr (v, (take (off + ?n) ?buf', off + ?n))"
    using sval.dec_take [OF small, of off buf ?buf' "off + ?n"] assms(3) enc by (simp add: len add.assoc)
  moreover have "take ?n (drop off ?buf') = val_pat v" "length ?buf' = length buf"
    "take off ?buf' = take off buf" "drop (off + ?n) ?buf' = drop (off + ?n) buf"
    using assms(3) len by (simp_all add: overwrite_def)
  moreover have "\<exists>d'. val_dynamic_serialize v d (int off) = Inr d' \<and> da_ok d' \<and>
      da_bytes d' = patch off (val_pat v) (da_bytes d)"
    if "da_ok d" "off \<le> length (da_bytes d)" "off + ?n \<le> nat (da_maxcapability d)"
    using dynamic_val_patch [OF assms(1) that(1,2), of "le16 (htons (ucast (val_length v)))" 2] that(3) assms(1)
    by (auto simp: val_dynamic_serialize_def val_pat_def length_val_body)
  ultimately show ?thesis
    using padding_mod [of v] padding_less [of v] by (intro exI [of _ ?buf'] exI [of _ ?n]) simp
qed

theorem val_packet_roundtrip_witness:
  "\<exists>buf'. val_serialize \<lparr>val_length = 3, val_data = Some [1, 2, 3]\<rparr> (replicate 12 9, 1) = Inr (buf', 11) \<and>
     val_deserialize (buf', 1) = Inr (\<lparr>val_length = 3, val_data = Some [1, 2, 3]\<rparr>, (buf', 11)) \<and>
     (\<exists>d'. bind_res (da_new 2 64) (\<lambda>d. val_dynamic_serialize \<lparr>val_length = 3, val_data = Some [1, 2, 3]\<rparr> d 0) = Inr d')"
proof -
  let ?v = "\<lparr>val_length = 3, val_data = Some [1, 2, 3]\<rparr> :: net_val"
  have v: "val_ok ?v" "padding ?v = 5" by (simp_all add: val_ok_def padding_def)
  obtain d where d: "da_new 2 64 = Inr d" "da_ok d" "da_bytes d = []" "da_maxcapability d = 64"
    using da_ok_init [of 2 64] by auto
  have "\<exists>d'. val_dynamic_serialize ?v d 0 = Inr d'"
    using val_packet_roundtrip [OF v(1), of 0 "replicate 12 9" d] v d by auto
  then show ?thesis
    using val_packet_roundtrip [OF v(1), of 1 "replicate 12 9" d] v d by auto
qed

text \<open>C38: a well-formed value of any length survives \<^verbatim>\<open>serialize_large\<close> and \<^verbatim>\<open>deserialize_large\<close>
  (32-bit length field), and \<^verbatim>\<open>dynamic_serialize_large\<close> stores the same bytes.\<close>

theorem val_large_roundtrip:
  assumes "val_ok v" "off + 4 + unat (val_length v) + padding v \<le> length buf"
  shows "\<exists>buf' n. val_serialize_large v (buf, off) = Inr (buf', off + n) \<and>
    n = 4 + unat (val_length v) + padding v \<and>
    val_deserialize_large (buf', off) = Inr (v, (buf', off + n)) \<and>
    length buf' = length buf \<and> take off buf' = take off buf \<and> drop (off + n) buf' = drop (off + n) buf \<and>
    (da_ok d \<and> off \<le> length (da_bytes d) \<and> off + n \<le> nat (da_maxcapability d) \<longrightarrow>
      (\<exists>d'. val_dynamic_serialize_large v d (int off) = Inr d' \<and> da_ok d' \<and>
        da_bytes d' = patch off (take n (drop off buf')) (da_bytes d)))"
proof -
  let ?buf' = "overwrite off (val_pat_large v) buf" and ?n = "4 + unat (val_length v) + padding v"
  have len: "length (val_pat_large v) = ?n" using assms(1) by (simp add: val_pat_large_def length_val_body)
  have enc: "val_serialize_large v (buf, off) = Inr (?buf', off + ?n)"
    using lval.enc_total [OF assms(1), of off buf] assms(2) by (simp add: overlay_bytes len add.assoc)
  moreover have "val_deserialize_large (?buf', off) = Inr (v, (?buf', off + ?n))"
    using lval.enc_dec [OF assms(1), of off buf] assms(2) enc by (simp add: len add.assoc)
  moreover have "take ?n (drop off ?buf') = val_pat_large v" "length ?buf' = length buf"
    "take off ?buf' = take off buf" "drop (off + ?n) ?buf' = drop (off + ?n) buf"
    using assms(2) len by (simp_all add: overwrite_def)
  moreover have "\<exists>d'. val_dynamic_serialize_large v d (int off) = Inr d' \<and> da_ok d' \<and>
      da_bytes d' = patch off (val_pat_large v) (da_bytes d)"
    if "da_ok d" "off \<le> length (da_bytes d)" "off + ?n \<le> nat (da_maxcapability d)"
    using dynamic_val_patch [OF assms(1) that(1,2), of "le32 (htonl (val_length v))" 4] that(3) assms(1)
    by (auto simp: val_dynamic_serialize_large_def val_pat_large_def length_val_body)
  ultimately show ?thesis by (intro exI [of _ ?buf'] exI [of _ ?n]) simp
qed

theorem val_large_roundtrip_witness:
  "\<exists>buf'. val_serialize_large \<lparr>val_length = 3, val_data = Some [1, 2, 3]\<rparr> (replicate 14 9, 1) = Inr (buf', 13) \<and>
     val_deserialize_large (buf', 1) = Inr (\<lparr>val_length = 3, val_data = Some [1, 2, 3]\<rparr>, (buf', 13))"
  using val_large_roundtrip [of "\<lparr>val_length = 3, val_data = Some [1, 2, 3]\<rparr>" 1 "replicate 14 9"]
  by (auto simp: val_ok_def padding_def)

text \<open>C39: the RocksDB record of a value and its sequence number is read back to the same value and
  sequence number (also without the sequence number), copying a well-formed value gives an equal
  value, and \<^verbatim>\<open>operator==\<close> decides equality; but a record shorter than a sequence number passes the
  \<^verbatim>\<open>INVARIANT(val_length >= 0)\<close> of \<^verbatim>\<open>from_string_for_rocksdb\<close> and leads to a read outside the string.\<close>

theorem val_rocksdb_roundtrip:
  assumes "val_ok v" "unat (val_length v) + 4 < 2 ^ 32" "val_ok w" "length str < 4"
  shows "(\<exists>s. val_to_string_for_rocksdb v seq = Inr s \<and> val_from_string_for_rocksdb s = Inr (v, seq)) \<and>
    (\<exists>s. val_to_string_for_rocksdb_noseq v = Inr s \<and> val_from_string_for_rocksdb_noseq s = Inr v) \<and>
    val_copy v = Inr v \<and> val_eq v w = Inr (v = w) \<and>
    val_from_string_for_rocksdb str = Inl Undefined"
proof -
  have "length str = 0 \<or> length str = 1 \<or> length str = 2 \<or> length str = 3" using assms(4) by linarith
  then have "val_from_string_for_rocksdb str = Inl Undefined"
    by (auto simp: val_from_string_for_rocksdb_def Let_def)
  then show ?thesis
    using val_from_to_string [OF assms(1,2)] val_from_to_string_noseq [OF assms(1)] val_copy_ok [OF assms(1)]
      val_eq_ok [OF assms(1,3)] by blast
qed

theorem val_rocksdb_roundtrip_witness:
  "(\<exists>s. val_to_string_for_rocksdb \<lparr>val_length = 2, val_data = Some [1, 2]\<rparr> 77 = Inr s \<and>
      val_from_string_for_rocksdb s = Inr (\<lparr>val_length = 2, val_data = Some [1, 2]\<rparr>, 77)) \<and>
   val_from_string_for_rocksdb [5] = Inl Undefined"
  using val_rocksdb_roundtrip [of "\<lparr>val_length = 2, val_data = Some [1, 2]\<rparr>" val_default "[5]" 77]
  by (simp add: val_ok_def val_default_def)

end
