(* ===== verification/Packet_Base.thy ===== *)
theory Packet_Base
  imports Net_Key Net_Val
begin

text \<open>
  The common part of all packets, src/common/packet_format.h and packet_format_impl.h: the method
  that is deployed, the operation codes, the header sizes that depend on the method, the operation
  header (\<^verbatim>\<open>serialize_ophdr\<close>, \<^verbatim>\<open>deserialize_ophdr\<close>) and the functions at the end of
  packet_format_impl.h that read single fields of a received datagram.

  The classes of packet_format.h derive from each other and share member variables; a packet is one
  record with all members, and the functions of a class touch the members of that class only. A
  \<^verbatim>\<open>serialize\<close> is a writer, a \<^verbatim>\<open>deserialize\<close> updates the packet while it moves through the
  received bytes (\<^verbatim>\<open>rseq\<close>), so members that are not on the wire keep the value they had.
  Sizes are sums of a few constants and are natural numbers.
\<close>

section \<open>Methods and operation codes\<close>

datatype method_id = INVALID_ID | FARREACH_ID | NOCACHE_ID | NETCACHE_ID | DISTFARREACH_ID
  | DISTNOCACHE_ID | DISTCACHE_ID

type_synonym optype = u16
type_synonym switchidx = u16

text \<open>The operation codes: \<^verbatim>\<open>enum class PacketType\<close> gives every operation an explicit 16-bit code, and
  the code of a received packet is cast to the enumeration unchecked, so an operation is its code.
  The table lists the enumerators in the order of the source; the abbreviations name them.\<close>

definition packet_types :: "(string \<times> optype) list" where
  "packet_types = [
    (''PUTREQ'', 0x0001), (''DISTNOCACHE_PUTREQ_SPINE'', 0x0041), (''PUTREQ_SEQ'', 0x0003),
    (''PUTREQ_POP_SEQ'', 0x0013), (''PUTREQ_SEQ_CASE3'', 0x0023),
    (''PUTREQ_POP_SEQ_CASE3'', 0x0033), (''NETCACHE_PUTREQ_SEQ_CACHED'', 0x0043),
    (''PUTREQ_SEQ_BEINGEVICTED'', 0x0053), (''PUTREQ_SEQ_CASE3_BEINGEVICTED'', 0x0063),
    (''PUTREQ_SEQ_BEINGEVICTED_SPINE'', 0x0073), (''PUTREQ_SEQ_CASE3_BEINGEVICTED_SPINE'', 0x0083),
    (''GETRES_LATEST_SEQ_INSWITCH'', 0x000f), (''GETRES_DELETED_SEQ_INSWITCH'', 0x001f),
    (''GETRES_LATEST_SEQ_INSWITCH_CASE1'', 0x002f), (''GETRES_DELETED_SEQ_INSWITCH_CASE1'', 0x003f),
    (''PUTREQ_SEQ_INSWITCH_CASE1'', 0x004f), (''DELREQ_SEQ_INSWITCH_CASE1'', 0x005f),
    (''LOADSNAPSHOTDATA_INSWITCH_ACK'', 0x006f), (''CACHE_POP_INSWITCH'', 0x007f),
    (''NETCACHE_VALUEUPDATE_INSWITCH'', 0x008f), (''GETRES_LATEST_SEQ_SERVER_INSWITCH'', 0x009f),
    (''GETRES_DELETED_SEQ_SERVER_INSWITCH'', 0x010f),
    (''DISTCACHE_SPINE_VALUEUPDATE_INSWITCH'', 0x011f),
    (''DISTCACHE_LEAF_VALUEUPDATE_INSWITCH'', 0x012f), (''DISTCACHE_VALUEUPDATE_INSWITCH'', 0x013f),
    (''DISTCACHE_VALUEUPDATE_INSWITCH_ORIGIN'', 0x014f),
    (''NETCACHE_CACHE_POP_INSWITCH_NLATEST'', 0x015f), (''GETRES_LATEST_SEQ'', 0x000b),
    (''GETRES_DELETED_SEQ'', 0x001b), (''CACHE_EVICT_LOADDATA_INSWITCH_ACK'', 0x002b),
    (''NETCACHE_VALUEUPDATE'', 0x003b), (''GETRES_LATEST_SEQ_SERVER'', 0x004b),
    (''GETRES_DELETED_SEQ_SERVER'', 0x005b), (''GETRES_SEQ'', 0x006b),
    (''GETREQ_BEINGEVICTED_RECORD'', 0x007b), (''GETREQ_LARGEVALUEBLOCK_RECORD'', 0x008b),
    (''GETRES_SERVER_SEQ'', 0x009b), (''GETRES'', 0x0009), (''GETRES_SERVER'', 0x0019),
    (''DISTCACHE_GETRES_SPINE'', 0x0029), (''PUTREQ_INSWITCH'', 0x0005),
    (''DELREQ_SEQ_INSWITCH'', 0x0006), (''PUTREQ_LARGEVALUE_SEQ_INSWITCH'', 0x0016),
    (''PUTREQ_SEQ_INSWITCH'', 0x0007), (''GETREQ_INSWITCH'', 0x0004), (''DELREQ_INSWITCH'', 0x0014),
    (''CACHE_EVICT_LOADFREQ_INSWITCH'', 0x0024), (''CACHE_EVICT_LOADDATA_INSWITCH'', 0x0034),
    (''LOADSNAPSHOTDATA_INSWITCH'', 0x0044), (''SETVALID_INSWITCH'', 0x0054),
    (''NETCACHE_WARMUPREQ_INSWITCH'', 0x0064), (''NETCACHE_WARMUPREQ_INSWITCH_POP'', 0x0074),
    (''DISTCACHE_INVALIDATE_INSWITCH'', 0x0084), (''DISTCACHE_VALUEUPDATE_INSWITCH_ACK'', 0x0094),
    (''PUTREQ_LARGEVALUE_INSWITCH'', 0x00a4), (''DELREQ_SEQ'', 0x0002),
    (''DELREQ_SEQ_CASE3'', 0x0012), (''NETCACHE_DELREQ_SEQ_CACHED'', 0x0022),
    (''PUTREQ_LARGEVALUE_SEQ'', 0x0032), (''PUTREQ_LARGEVALUE_SEQ_CACHED'', 0x0042),
    (''PUTREQ_LARGEVALUE_SEQ_CASE3'', 0x0052), (''DELREQ_SEQ_BEINGEVICTED'', 0x0062),
    (''DELREQ_SEQ_CASE3_BEINGEVICTED'', 0x0072), (''PUTREQ_LARGEVALUE_SEQ_BEINGEVICTED'', 0x0082),
    (''PUTREQ_LARGEVALUE_SEQ_CASE3_BEINGEVICTED'', 0x0092),
    (''DELREQ_SEQ_BEINGEVICTED_SPINE'', 0x00a2), (''DELREQ_SEQ_CASE3_BEINGEVICTED_SPINE'', 0x00b2),
    (''PUTREQ_LARGEVALUE_SEQ_BEINGEVICTED_SPINE'', 0x00c2),
    (''PUTREQ_LARGEVALUE_SEQ_CASE3_BEINGEVICTED_SPINE'', 0x00d2),
    (''GETREQ_LARGEVALUEBLOCK_SEQ'', 0x00e2), (''PUTRES'', 0x0008), (''DELRES'', 0x0018),
    (''PUTRES_SERVER'', 0x0028), (''DELRES_SERVER'', 0x0038), (''PUTRES_SEQ'', 0x000a),
    (''DELRES_SEQ'', 0x001a), (''PUTRES_SERVER_SEQ'', 0x002a), (''DELRES_SERVER_SEQ'', 0x003a),
    (''WARMUPREQ'', 0x0000), (''SCANREQ'', 0x0010), (''SCANREQ_SPLIT'', 0x0020),
    (''GETREQ'', 0x0030), (''DELREQ'', 0x0040), (''GETREQ_POP'', 0x0050),
    (''GETREQ_NLATEST'', 0x0060), (''CACHE_POP_INSWITCH_ACK'', 0x0070), (''SCANRES_SPLIT'', 0x0080),
    (''CACHE_POP'', 0x0090), (''CACHE_EVICT'', 0x00a0), (''CACHE_EVICT_ACK'', 0x00b0),
    (''CACHE_EVICT_CASE2'', 0x00c0), (''WARMUPACK'', 0x00d0), (''LOADACK'', 0x00e0),
    (''CACHE_POP_ACK'', 0x00f0), (''CACHE_EVICT_LOADFREQ_INSWITCH_ACK'', 0x0100),
    (''SETVALID_INSWITCH_ACK'', 0x0110), (''NETCACHE_GETREQ_POP'', 0x0120),
    (''NETCACHE_CACHE_POP'', 0x0130), (''NETCACHE_CACHE_POP_ACK'', 0x0140),
    (''NETCACHE_CACHE_POP_FINISH'', 0x0150), (''NETCACHE_CACHE_POP_FINISH_ACK'', 0x0160),
    (''NETCACHE_CACHE_EVICT'', 0x0170), (''NETCACHE_CACHE_EVICT_ACK'', 0x0180),
    (''NETCACHE_VALUEUPDATE_ACK'', 0x0190), (''GETREQ_SPINE'', 0x0200),
    (''SCANRES_SPLIT_SERVER'', 0x0210), (''WARMUPREQ_SPINE'', 0x0220),
    (''WARMUPACK_SERVER'', 0x0230), (''LOADACK_SERVER'', 0x0240),
    (''DISTCACHE_CACHE_EVICT_VICTIM'', 0x0250), (''DISTCACHE_CACHE_EVICT_VICTIM_ACK'', 0x0260),
    (''DISTNOCACHE_DELREQ_SPINE'', 0x0270), (''DISTCACHE_INVALIDATE'', 0x0280),
    (''DISTCACHE_INVALIDATE_ACK'', 0x0290), (''DISTCACHE_UPDATE_TRAFFICLOAD'', 0x02a0),
    (''DISTCACHE_SPINE_VALUEUPDATE_INSWITCH_ACK'', 0x02b0),
    (''DISTCACHE_LEAF_VALUEUPDATE_INSWITCH_ACK'', 0x02c0), (''PUTREQ_LARGEVALUE'', 0x02d0),
    (''DISTNOCACHE_PUTREQ_LARGEVALUE_SPINE'', 0x02e0), (''GETRES_LARGEVALUE_SERVER'', 0x02f0),
    (''GETRES_LARGEVALUE'', 0x0300), (''LOADREQ'', 0x0310), (''LOADREQ_SPINE'', 0x0320),
    (''NETCACHE_CACHE_POP_ACK_NLATEST'', 0x0330), (''GETREQ_BEINGEVICTED'', 0x0340),
    (''GETRES_LARGEVALUE_SEQ'', 0x0350), (''GETRES_LARGEVALUE_SERVER_SEQ'', 0x0360),
    (''BACKUP'', 0x009f), (''BACKUPACK'', 0x109f)]"

abbreviation PUTREQ :: optype where "PUTREQ \<equiv> 0x0001"

abbreviation DISTNOCACHE_PUTREQ_SPINE :: optype where "DISTNOCACHE_PUTREQ_SPINE \<equiv> 0x0041"

abbreviation PUTREQ_SEQ :: optype where "PUTREQ_SEQ \<equiv> 0x0003"

abbreviation PUTREQ_POP_SEQ :: optype where "PUTREQ_POP_SEQ \<equiv> 0x0013"

abbreviation PUTREQ_SEQ_CASE3 :: optype where "PUTREQ_SEQ_CASE3 \<equiv> 0x0023"

abbreviation PUTREQ_POP_SEQ_CASE3 :: optype where "PUTREQ_POP_SEQ_CASE3 \<equiv> 0x0033"

abbreviation NETCACHE_PUTREQ_SEQ_CACHED :: optype where "NETCACHE_PUTREQ_SEQ_CACHED \<equiv> 0x0043"

abbreviation PUTREQ_SEQ_BEINGEVICTED :: optype where "PUTREQ_SEQ_BEINGEVICTED \<equiv> 0x0053"

abbreviation PUTREQ_SEQ_CASE3_BEINGEVICTED :: optype where "PUTREQ_SEQ_CASE3_BEINGEVICTED \<equiv> 0x0063"

abbreviation PUTREQ_SEQ_BEINGEVICTED_SPINE :: optype where "PUTREQ_SEQ_BEINGEVICTED_SPINE \<equiv> 0x0073"

abbreviation PUTREQ_SEQ_CASE3_BEINGEVICTED_SPINE :: optype where "PUTREQ_SEQ_CASE3_BEINGEVICTED_SPINE \<equiv> 0x0083"

abbreviation GETRES_LATEST_SEQ_INSWITCH :: optype where "GETRES_LATEST_SEQ_INSWITCH \<equiv> 0x000f"

abbreviation GETRES_DELETED_SEQ_INSWITCH :: optype where "GETRES_DELETED_SEQ_INSWITCH \<equiv> 0x001f"

abbreviation GETRES_LATEST_SEQ_INSWITCH_CASE1 :: optype where "GETRES_LATEST_SEQ_INSWITCH_CASE1 \<equiv> 0x002f"

abbreviation GETRES_DELETED_SEQ_INSWITCH_CASE1 :: optype where "GETRES_DELETED_SEQ_INSWITCH_CASE1 \<equiv> 0x003f"

abbreviation PUTREQ_SEQ_INSWITCH_CASE1 :: optype where "PUTREQ_SEQ_INSWITCH_CASE1 \<equiv> 0x004f"

abbreviation DELREQ_SEQ_INSWITCH_CASE1 :: optype where "DELREQ_SEQ_INSWITCH_CASE1 \<equiv> 0x005f"

abbreviation LOADSNAPSHOTDATA_INSWITCH_ACK :: optype where "LOADSNAPSHOTDATA_INSWITCH_ACK \<equiv> 0x006f"

abbreviation CACHE_POP_INSWITCH :: optype where "CACHE_POP_INSWITCH \<equiv> 0x007f"

abbreviation NETCACHE_VALUEUPDATE_INSWITCH :: optype where "NETCACHE_VALUEUPDATE_INSWITCH \<equiv> 0x008f"

abbreviation GETRES_LATEST_SEQ_SERVER_INSWITCH :: optype where "GETRES_LATEST_SEQ_SERVER_INSWITCH \<equiv> 0x009f"

abbreviation GETRES_DELETED_SEQ_SERVER_INSWITCH :: optype where "GETRES_DELETED_SEQ_SERVER_INSWITCH \<equiv> 0x010f"

abbreviation DISTCACHE_SPINE_VALUEUPDATE_INSWITCH :: optype where "DISTCACHE_SPINE_VALUEUPDATE_INSWITCH \<equiv> 0x011f"

abbreviation DISTCACHE_LEAF_VALUEUPDATE_INSWITCH :: optype where "DISTCACHE_LEAF_VALUEUPDATE_INSWITCH \<equiv> 0x012f"

abbreviation DISTCACHE_VALUEUPDATE_INSWITCH :: optype where "DISTCACHE_VALUEUPDATE_INSWITCH \<equiv> 0x013f"

abbreviation DISTCACHE_VALUEUPDATE_INSWITCH_ORIGIN :: optype where "DISTCACHE_VALUEUPDATE_INSWITCH_ORIGIN \<equiv> 0x014f"

abbreviation NETCACHE_CACHE_POP_INSWITCH_NLATEST :: optype where "NETCACHE_CACHE_POP_INSWITCH_NLATEST \<equiv> 0x015f"

abbreviation GETRES_LATEST_SEQ :: optype where "GETRES_LATEST_SEQ \<equiv> 0x000b"

abbreviation GETRES_DELETED_SEQ :: optype where "GETRES_DELETED_SEQ \<equiv> 0x001b"

abbreviation CACHE_EVICT_LOADDATA_INSWITCH_ACK :: optype where "CACHE_EVICT_LOADDATA_INSWITCH_ACK \<equiv> 0x002b"

abbreviation NETCACHE_VALUEUPDATE :: optype where "NETCACHE_VALUEUPDATE \<equiv> 0x003b"

abbreviation GETRES_LATEST_SEQ_SERVER :: optype where "GETRES_LATEST_SEQ_SERVER \<equiv> 0x004b"

abbreviation GETRES_DELETED_SEQ_SERVER :: optype where "GETRES_DELETED_SEQ_SERVER \<equiv> 0x005b"

abbreviation GETRES_SEQ :: optype where "GETRES_SEQ \<equiv> 0x006b"

abbreviation GETREQ_BEINGEVICTED_RECORD :: optype where "GETREQ_BEINGEVICTED_RECORD \<equiv> 0x007b"

abbreviation GETREQ_LARGEVALUEBLOCK_RECORD :: optype where "GETREQ_LARGEVALUEBLOCK_RECORD \<equiv> 0x008b"

abbreviation GETRES_SERVER_SEQ :: optype where "GETRES_SERVER_SEQ \<equiv> 0x009b"

abbreviation GETRES :: optype where "GETRES \<equiv> 0x0009"

abbreviation GETRES_SERVER :: optype where "GETRES_SERVER \<equiv> 0x0019"

abbreviation DISTCACHE_GETRES_SPINE :: optype where "DISTCACHE_GETRES_SPINE \<equiv> 0x0029"

abbreviation PUTREQ_INSWITCH :: optype where "PUTREQ_INSWITCH \<equiv> 0x0005"

abbreviation DELREQ_SEQ_INSWITCH :: optype where "DELREQ_SEQ_INSWITCH \<equiv> 0x0006"

abbreviation PUTREQ_LARGEVALUE_SEQ_INSWITCH :: optype where "PUTREQ_LARGEVALUE_SEQ_INSWITCH \<equiv> 0x0016"

abbreviation PUTREQ_SEQ_INSWITCH :: optype where "PUTREQ_SEQ_INSWITCH \<equiv> 0x0007"

abbreviation GETREQ_INSWITCH :: optype where "GETREQ_INSWITCH \<equiv> 0x0004"

abbreviation DELREQ_INSWITCH :: optype where "DELREQ_INSWITCH \<equiv> 0x0014"

abbreviation CACHE_EVICT_LOADFREQ_INSWITCH :: optype where "CACHE_EVICT_LOADFREQ_INSWITCH \<equiv> 0x0024"

abbreviation CACHE_EVICT_LOADDATA_INSWITCH :: optype where "CACHE_EVICT_LOADDATA_INSWITCH \<equiv> 0x0034"

abbreviation LOADSNAPSHOTDATA_INSWITCH :: optype where "LOADSNAPSHOTDATA_INSWITCH \<equiv> 0x0044"

abbreviation SETVALID_INSWITCH :: optype where "SETVALID_INSWITCH \<equiv> 0x0054"

abbreviation NETCACHE_WARMUPREQ_INSWITCH :: optype where "NETCACHE_WARMUPREQ_INSWITCH \<equiv> 0x0064"

abbreviation NETCACHE_WARMUPREQ_INSWITCH_POP :: optype where "NETCACHE_WARMUPREQ_INSWITCH_POP \<equiv> 0x0074"

abbreviation DISTCACHE_INVALIDATE_INSWITCH :: optype where "DISTCACHE_INVALIDATE_INSWITCH \<equiv> 0x0084"

abbreviation DISTCACHE_VALUEUPDATE_INSWITCH_ACK :: optype where "DISTCACHE_VALUEUPDATE_INSWITCH_ACK \<equiv> 0x0094"

abbreviation PUTREQ_LARGEVALUE_INSWITCH :: optype where "PUTREQ_LARGEVALUE_INSWITCH \<equiv> 0x00a4"

abbreviation DELREQ_SEQ :: optype where "DELREQ_SEQ \<equiv> 0x0002"

abbreviation DELREQ_SEQ_CASE3 :: optype where "DELREQ_SEQ_CASE3 \<equiv> 0x0012"

abbreviation NETCACHE_DELREQ_SEQ_CACHED :: optype where "NETCACHE_DELREQ_SEQ_CACHED \<equiv> 0x0022"

abbreviation PUTREQ_LARGEVALUE_SEQ :: optype where "PUTREQ_LARGEVALUE_SEQ \<equiv> 0x0032"

abbreviation PUTREQ_LARGEVALUE_SEQ_CACHED :: optype where "PUTREQ_LARGEVALUE_SEQ_CACHED \<equiv> 0x0042"

abbreviation PUTREQ_LARGEVALUE_SEQ_CASE3 :: optype where "PUTREQ_LARGEVALUE_SEQ_CASE3 \<equiv> 0x0052"

abbreviation DELREQ_SEQ_BEINGEVICTED :: optype where "DELREQ_SEQ_BEINGEVICTED \<equiv> 0x0062"

abbreviation DELREQ_SEQ_CASE3_BEINGEVICTED :: optype where "DELREQ_SEQ_CASE3_BEINGEVICTED \<equiv> 0x0072"

abbreviation PUTREQ_LARGEVALUE_SEQ_BEINGEVICTED :: optype where "PUTREQ_LARGEVALUE_SEQ_BEINGEVICTED \<equiv> 0x0082"

abbreviation PUTREQ_LARGEVALUE_SEQ_CASE3_BEINGEVICTED :: optype where "PUTREQ_LARGEVALUE_SEQ_CASE3_BEINGEVICTED \<equiv> 0x0092"

abbreviation DELREQ_SEQ_BEINGEVICTED_SPINE :: optype where "DELREQ_SEQ_BEINGEVICTED_SPINE \<equiv> 0x00a2"

abbreviation DELREQ_SEQ_CASE3_BEINGEVICTED_SPINE :: optype where "DELREQ_SEQ_CASE3_BEINGEVICTED_SPINE \<equiv> 0x00b2"

abbreviation PUTREQ_LARGEVALUE_SEQ_BEINGEVICTED_SPINE :: optype where "PUTREQ_LARGEVALUE_SEQ_BEINGEVICTED_SPINE \<equiv> 0x00c2"

abbreviation PUTREQ_LARGEVALUE_SEQ_CASE3_BEINGEVICTED_SPINE :: optype where "PUTREQ_LARGEVALUE_SEQ_CASE3_BEINGEVICTED_SPINE \<equiv> 0x00d2"

abbreviation GETREQ_LARGEVALUEBLOCK_SEQ :: optype where "GETREQ_LARGEVALUEBLOCK_SEQ \<equiv> 0x00e2"

abbreviation PUTRES :: optype where "PUTRES \<equiv> 0x0008"

abbreviation DELRES :: optype where "DELRES \<equiv> 0x0018"

abbreviation PUTRES_SERVER :: optype where "PUTRES_SERVER \<equiv> 0x0028"

abbreviation DELRES_SERVER :: optype where "DELRES_SERVER \<equiv> 0x0038"

abbreviation PUTRES_SEQ :: optype where "PUTRES_SEQ \<equiv> 0x000a"

abbreviation DELRES_SEQ :: optype where "DELRES_SEQ \<equiv> 0x001a"

abbreviation PUTRES_SERVER_SEQ :: optype where "PUTRES_SERVER_SEQ \<equiv> 0x002a"

abbreviation DELRES_SERVER_SEQ :: optype where "DELRES_SERVER_SEQ \<equiv> 0x003a"

abbreviation WARMUPREQ :: optype where "WARMUPREQ \<equiv> 0x0000"

abbreviation SCANREQ :: optype where "SCANREQ \<equiv> 0x0010"

abbreviation SCANREQ_SPLIT :: optype where "SCANREQ_SPLIT \<equiv> 0x0020"

abbreviation GETREQ :: optype where "GETREQ \<equiv> 0x0030"

abbreviation DELREQ :: optype where "DELREQ \<equiv> 0x0040"

abbreviation GETREQ_POP :: optype where "GETREQ_POP \<equiv> 0x0050"

abbreviation GETREQ_NLATEST :: optype where "GETREQ_NLATEST \<equiv> 0x0060"

abbreviation CACHE_POP_INSWITCH_ACK :: optype where "CACHE_POP_INSWITCH_ACK \<equiv> 0x0070"

abbreviation SCANRES_SPLIT :: optype where "SCANRES_SPLIT \<equiv> 0x0080"

abbreviation CACHE_POP :: optype where "CACHE_POP \<equiv> 0x0090"

abbreviation CACHE_EVICT :: optype where "CACHE_EVICT \<equiv> 0x00a0"

abbreviation CACHE_EVICT_ACK :: optype where "CACHE_EVICT_ACK \<equiv> 0x00b0"

abbreviation CACHE_EVICT_CASE2 :: optype where "CACHE_EVICT_CASE2 \<equiv> 0x00c0"

abbreviation WARMUPACK :: optype where "WARMUPACK \<equiv> 0x00d0"

abbreviation LOADACK :: optype where "LOADACK \<equiv> 0x00e0"

abbreviation CACHE_POP_ACK :: optype where "CACHE_POP_ACK \<equiv> 0x00f0"

abbreviation CACHE_EVICT_LOADFREQ_INSWITCH_ACK :: optype where "CACHE_EVICT_LOADFREQ_INSWITCH_ACK \<equiv> 0x0100"

abbreviation SETVALID_INSWITCH_ACK :: optype where "SETVALID_INSWITCH_ACK \<equiv> 0x0110"

abbreviation NETCACHE_GETREQ_POP :: optype where "NETCACHE_GETREQ_POP \<equiv> 0x0120"

abbreviation NETCACHE_CACHE_POP :: optype where "NETCACHE_CACHE_POP \<equiv> 0x0130"

abbreviation NETCACHE_CACHE_POP_ACK :: optype where "NETCACHE_CACHE_POP_ACK \<equiv> 0x0140"

abbreviation NETCACHE_CACHE_POP_FINISH :: optype where "NETCACHE_CACHE_POP_FINISH \<equiv> 0x0150"

abbreviation NETCACHE_CACHE_POP_FINISH_ACK :: optype where "NETCACHE_CACHE_POP_FINISH_ACK \<equiv> 0x0160"

abbreviation NETCACHE_CACHE_EVICT :: optype where "NETCACHE_CACHE_EVICT \<equiv> 0x0170"

abbreviation NETCACHE_CACHE_EVICT_ACK :: optype where "NETCACHE_CACHE_EVICT_ACK \<equiv> 0x0180"

abbreviation NETCACHE_VALUEUPDATE_ACK :: optype where "NETCACHE_VALUEUPDATE_ACK \<equiv> 0x0190"

abbreviation GETREQ_SPINE :: optype where "GETREQ_SPINE \<equiv> 0x0200"

abbreviation SCANRES_SPLIT_SERVER :: optype where "SCANRES_SPLIT_SERVER \<equiv> 0x0210"

abbreviation WARMUPREQ_SPINE :: optype where "WARMUPREQ_SPINE \<equiv> 0x0220"

abbreviation WARMUPACK_SERVER :: optype where "WARMUPACK_SERVER \<equiv> 0x0230"

abbreviation LOADACK_SERVER :: optype where "LOADACK_SERVER \<equiv> 0x0240"

abbreviation DISTCACHE_CACHE_EVICT_VICTIM :: optype where "DISTCACHE_CACHE_EVICT_VICTIM \<equiv> 0x0250"

abbreviation DISTCACHE_CACHE_EVICT_VICTIM_ACK :: optype where "DISTCACHE_CACHE_EVICT_VICTIM_ACK \<equiv> 0x0260"

abbreviation DISTNOCACHE_DELREQ_SPINE :: optype where "DISTNOCACHE_DELREQ_SPINE \<equiv> 0x0270"

abbreviation DISTCACHE_INVALIDATE :: optype where "DISTCACHE_INVALIDATE \<equiv> 0x0280"

abbreviation DISTCACHE_INVALIDATE_ACK :: optype where "DISTCACHE_INVALIDATE_ACK \<equiv> 0x0290"

abbreviation DISTCACHE_UPDATE_TRAFFICLOAD :: optype where "DISTCACHE_UPDATE_TRAFFICLOAD \<equiv> 0x02a0"

abbreviation DISTCACHE_SPINE_VALUEUPDATE_INSWITCH_ACK :: optype where "DISTCACHE_SPINE_VALUEUPDATE_INSWITCH_ACK \<equiv> 0x02b0"

abbreviation DISTCACHE_LEAF_VALUEUPDATE_INSWITCH_ACK :: optype where "DISTCACHE_LEAF_VALUEUPDATE_INSWITCH_ACK \<equiv> 0x02c0"

abbreviation PUTREQ_LARGEVALUE :: optype where "PUTREQ_LARGEVALUE \<equiv> 0x02d0"

abbreviation DISTNOCACHE_PUTREQ_LARGEVALUE_SPINE :: optype where "DISTNOCACHE_PUTREQ_LARGEVALUE_SPINE \<equiv> 0x02e0"

abbreviation GETRES_LARGEVALUE_SERVER :: optype where "GETRES_LARGEVALUE_SERVER \<equiv> 0x02f0"

abbreviation GETRES_LARGEVALUE :: optype where "GETRES_LARGEVALUE \<equiv> 0x0300"

abbreviation LOADREQ :: optype where "LOADREQ \<equiv> 0x0310"

abbreviation LOADREQ_SPINE :: optype where "LOADREQ_SPINE \<equiv> 0x0320"

abbreviation NETCACHE_CACHE_POP_ACK_NLATEST :: optype where "NETCACHE_CACHE_POP_ACK_NLATEST \<equiv> 0x0330"

abbreviation GETREQ_BEINGEVICTED :: optype where "GETREQ_BEINGEVICTED \<equiv> 0x0340"

abbreviation GETRES_LARGEVALUE_SEQ :: optype where "GETRES_LARGEVALUE_SEQ \<equiv> 0x0350"

abbreviation GETRES_LARGEVALUE_SERVER_SEQ :: optype where "GETRES_LARGEVALUE_SERVER_SEQ \<equiv> 0x0360"

abbreviation BACKUP :: optype where "BACKUP \<equiv> 0x009f"

abbreviation BACKUPACK :: optype where "BACKUPACK \<equiv> 0x109f"

section \<open>Header sizes\<close>

definition get_ophdrsize :: "method_id \<Rightarrow> nat res" where
  "get_ophdrsize m = (case m of
     FARREACH_ID \<Rightarrow> Inr (2 + 16) | NOCACHE_ID \<Rightarrow> Inr (2 + 16) | NETCACHE_ID \<Rightarrow> Inr (2 + 16)
   | DISTFARREACH_ID \<Rightarrow> Inr (2 + 2 + 16) | DISTNOCACHE_ID \<Rightarrow> Inr (2 + 2 + 16)
   | DISTCACHE_ID \<Rightarrow> Inr (2 + 2 + 2 + 16)
   | INVALID_ID \<Rightarrow> Inl Exit)"

definition is_singleswitch :: "method_id \<Rightarrow> bool" where
  "is_singleswitch m \<longleftrightarrow> m = FARREACH_ID \<or> m = NOCACHE_ID \<or> m = NETCACHE_ID"

definition get_inswitch_prev_bytes :: "method_id \<Rightarrow> nat res" where
  "get_inswitch_prev_bytes m = (case m of
     FARREACH_ID \<Rightarrow> Inr 18 | NOCACHE_ID \<Rightarrow> Inr 14 | NETCACHE_ID \<Rightarrow> Inr 26
   | DISTFARREACH_ID \<Rightarrow> Inr 14 | DISTNOCACHE_ID \<Rightarrow> Inr 14 | DISTCACHE_ID \<Rightarrow> Inr 26
   | INVALID_ID \<Rightarrow> Inl Exit)"

definition get_clone_bytes :: "method_id \<Rightarrow> nat res" where
  "get_clone_bytes m = (case m of
     FARREACH_ID \<Rightarrow> Inr 8 | NOCACHE_ID \<Rightarrow> Inr 4 | NETCACHE_ID \<Rightarrow> Inr 8
   | DISTFARREACH_ID \<Rightarrow> Inr 18 | DISTNOCACHE_ID \<Rightarrow> Inr 14 | DISTCACHE_ID \<Rightarrow> Inr 18
   | INVALID_ID \<Rightarrow> Inl Exit)"

definition get_split_prev_bytes :: "method_id \<Rightarrow> nat res" where
  "get_split_prev_bytes m = (case m of
     FARREACH_ID \<Rightarrow> Inr 3 | NOCACHE_ID \<Rightarrow> Inr 3 | NETCACHE_ID \<Rightarrow> Inr 3
   | DISTFARREACH_ID \<Rightarrow> Inr 4 | DISTNOCACHE_ID \<Rightarrow> Inr 4 | DISTCACHE_ID \<Rightarrow> Inr 4
   | INVALID_ID \<Rightarrow> Inl Exit)"

definition get_stat_padding_bytes :: "method_id \<Rightarrow> nat res" where
  "get_stat_padding_bytes m = (case m of
     FARREACH_ID \<Rightarrow> Inr 1 | NOCACHE_ID \<Rightarrow> Inr 1 | NETCACHE_ID \<Rightarrow> Inr 1
   | DISTFARREACH_ID \<Rightarrow> Inr 1 | DISTNOCACHE_ID \<Rightarrow> Inr 1 | DISTCACHE_ID \<Rightarrow> Inr 1
   | INVALID_ID \<Rightarrow> Inl Exit)"

text \<open>The numbers for a valid method.\<close>

definition ophdrsize :: "method_id \<Rightarrow> nat" where
  "ophdrsize m = (if is_singleswitch m then 18 else if m = DISTCACHE_ID then 22 else 20)"

definition the_res :: "nat res \<Rightarrow> nat" where
  "the_res r = (case r of Inl _ \<Rightarrow> 0 | Inr n \<Rightarrow> n)"

definition inswitch_prev :: "method_id \<Rightarrow> nat" where
  "inswitch_prev m = the_res (get_inswitch_prev_bytes m)"

definition clone_bytes :: "method_id \<Rightarrow> nat" where
  "clone_bytes m = the_res (get_clone_bytes m)"

definition split_prev :: "method_id \<Rightarrow> nat" where
  "split_prev m = the_res (get_split_prev_bytes m)"

lemma header_sizes_valid:
  assumes "m \<noteq> INVALID_ID"
  shows "get_ophdrsize m = Inr (ophdrsize m)"
    "get_inswitch_prev_bytes m = Inr (inswitch_prev m)"
    "get_clone_bytes m = Inr (clone_bytes m)"
    "get_split_prev_bytes m = Inr (split_prev m)"
    "get_stat_padding_bytes m = Inr 1"
  using assms by (cases m; simp add: get_ophdrsize_def ophdrsize_def is_singleswitch_def inswitch_prev_def
      clone_bytes_def split_prev_def get_inswitch_prev_bytes_def get_clone_bytes_def get_split_prev_bytes_def
      get_stat_padding_bytes_def the_res_def)+

section \<open>Packets\<close>

record packet =
  pk_methodid :: method_id
  pk_type :: optype
  pk_key :: net_key
  pk_globalswitchidx :: switchidx
  pk_spineswitchidx :: switchidx
  pk_leafswitchidx :: switchidx
  pk_spineload :: u32
  pk_leafload :: u32
  pk_val :: net_val
  pk_seq :: u32
  pk_snapshot_token :: u32
  pk_stat :: bool
  pk_nodeidx :: u16
  pk_endkey :: net_key
  pk_cur_scanidx :: u16
  pk_max_scannum :: u16
  pk_cur_scanswitchidx :: u16
  pk_max_scanswitchnum :: u16
  pk_snapshotid :: u32
  pk_pairnum :: u32
  pk_pairs :: "(net_key \<times> net_val) list"
  pk_idx :: u16
  pk_serveridx :: u16
  pk_kvidx :: u16
  pk_client_logical_idx :: u16
  pk_fragseq :: u32
  pk_frequency :: u32
  pk_validvalue :: byte
  pk_victimkey :: net_key
  pk_victimidx :: u16

text \<open>The default constructor \<^verbatim>\<open>Packet()\<close>, with every other member in its default state.\<close>

definition packet_default :: packet where
  "packet_default = \<lparr>pk_methodid = INVALID_ID, pk_type = 0, pk_key = key_min, pk_globalswitchidx = 0,
     pk_spineswitchidx = 0, pk_leafswitchidx = 0, pk_spineload = 0, pk_leafload = 0, pk_val = val_default,
     pk_seq = 0, pk_snapshot_token = 0, pk_stat = False, pk_nodeidx = 0, pk_endkey = key_min,
     pk_cur_scanidx = 0, pk_max_scannum = 0, pk_cur_scanswitchidx = 0, pk_max_scanswitchnum = 0,
     pk_snapshotid = 0, pk_pairnum = 0, pk_pairs = [], pk_idx = 0, pk_serveridx = 0, pk_kvidx = 0,
     pk_client_logical_idx = 0, pk_fragseq = 0, pk_frequency = 0, pk_validvalue = 0,
     pk_victimkey = key_min, pk_victimidx = 0\<rparr>"

text \<open>\<^verbatim>\<open>Packet(methodid, type, key)\<close>.\<close>

definition packet_new :: "method_id \<Rightarrow> optype \<Rightarrow> net_key \<Rightarrow> packet" where
  "packet_new m t k = packet_default\<lparr>pk_methodid := m, pk_type := t, pk_key := k\<rparr>"

section \<open>Writing and reading members\<close>

text \<open>Writers that depend on a header size, and the steps of a \<^verbatim>\<open>deserialize\<close>.\<close>

definition with_res :: "'a res \<Rightarrow> ('a \<Rightarrow> writer) \<Rightarrow> writer" where
  "with_res r w s = bind_res r (\<lambda>x. w x s)"

definition skip_res :: "nat res \<Rightarrow> writer" where
  "skip_res r = with_res r skip_bytes"

text \<open>\<^verbatim>\<open>memset(begin, 0, n)\<close>.\<close>

definition zero_bytes :: "nat \<Rightarrow> writer" where
  "zero_bytes n = put_bytes (replicate n 0)"

definition zero_res :: "nat res \<Rightarrow> writer" where
  "zero_res r = with_res r zero_bytes"

definition wif :: "bool \<Rightarrow> writer list \<Rightarrow> writer" where
  "wif b ws = (if b then wseq ws else wseq [])"

type_synonym step = "packet \<Rightarrow> packet reader"

fun rseq :: "step list \<Rightarrow> step" where
  "rseq [] p = rreturn p"
| "rseq (f # fs) p = rbind (f p) (rseq fs)"

definition rskip :: "nat \<Rightarrow> step" where
  "rskip n p = rthen (skip_bytes n) (rreturn p)"

definition rskip_res :: "(method_id \<Rightarrow> nat res) \<Rightarrow> step" where
  "rskip_res f p = rthen (skip_res (f (pk_methodid p))) (rreturn p)"

definition rif :: "(method_id \<Rightarrow> bool) \<Rightarrow> step list \<Rightarrow> step" where
  "rif b fs p = (if b (pk_methodid p) then rseq fs p else rreturn p)"

text \<open>A member read by \<^verbatim>\<open>r\<close> and stored by \<^verbatim>\<open>u\<close>.\<close>

definition rmember :: "'a reader \<Rightarrow> ('a \<Rightarrow> packet \<Rightarrow> packet) \<Rightarrow> step" where
  "rmember r u p = rbind r (\<lambda>x. rreturn (u x p))"

text \<open>A \<^verbatim>\<open>bool\<close> is copied as one byte; a byte other than 0 and 1 is not a value of the type.\<close>

definition put_bool :: "bool \<Rightarrow> writer" where
  "put_bool b = put_bytes [if b then 1 else 0]"

definition get_bool :: "bool reader" where
  "get_bool = rbind (get_bytes 1) (\<lambda>bs s.
     if hd bs = 0 then Inr (False, s) else if hd bs = 1 then Inr (True, s) else Inl Undefined)"

text \<open>A \<^verbatim>\<open>deserialize\<close> without and with its check of the received size.\<close>

definition run :: "step \<Rightarrow> packet \<Rightarrow> byte list \<Rightarrow> packet res" where
  "run f p data = bind_res (f p (data, 0)) (\<lambda>(p', _). Inr p')"

definition run_atleast :: "(method_id \<Rightarrow> nat res) \<Rightarrow> step \<Rightarrow> packet \<Rightarrow> byte list \<Rightarrow> packet res" where
  "run_atleast sz f p data =
     bind_res (sz (pk_methodid p)) (\<lambda>my_size.
     bind_res (invariant (my_size \<le> length data)) (\<lambda>_. run f p data))"

definition run_exact :: "(method_id \<Rightarrow> nat res) \<Rightarrow> step \<Rightarrow> packet \<Rightarrow> byte list \<Rightarrow> packet res" where
  "run_exact sz f p data =
     bind_res (sz (pk_methodid p)) (\<lambda>my_size.
     bind_res (invariant (my_size = length data)) (\<lambda>_. run f p data))"

section \<open>The operation header\<close>

definition serialize_packet_type :: "optype \<Rightarrow> writer" where
  "serialize_packet_type t = wseq [require_space 2, put16_be t]"

definition deserialize_packet_type :: "optype reader" where
  "deserialize_packet_type = rthen (require_space 2) get16_be"

definition serialize_switchidx :: "switchidx \<Rightarrow> writer" where
  "serialize_switchidx i = wseq [require_space 2, put16_be i]"

definition deserialize_switchidx :: "switchidx reader" where
  "deserialize_switchidx = rthen (require_space 2) get16_be"

definition serialize_ophdr :: "packet \<Rightarrow> writer" where
  "serialize_ophdr p =
     wseq [require (pk_methodid p \<noteq> INVALID_ID),
       with_res (get_ophdrsize (pk_methodid p)) require_space,
       serialize_packet_type (pk_type p),
       wif (\<not> is_singleswitch (pk_methodid p))
         [if pk_methodid p = DISTCACHE_ID
          then wseq [serialize_switchidx (pk_spineswitchidx p), serialize_switchidx (pk_leafswitchidx p)]
          else serialize_switchidx (pk_globalswitchidx p)],
       key_serialize (pk_key p)]"

definition deserialize_ophdr :: step where
  "deserialize_ophdr p =
     rthen (require (pk_methodid p \<noteq> INVALID_ID))
       (rthen (with_res (get_ophdrsize (pk_methodid p)) require_space)
         (rseq [rmember deserialize_packet_type (\<lambda>x. pk_type_update (\<lambda>_. x)),
            rif (\<lambda>m. \<not> is_singleswitch m)
              [rif (\<lambda>m. m = DISTCACHE_ID)
                 [rmember deserialize_switchidx (\<lambda>x. pk_spineswitchidx_update (\<lambda>_. x)),
                  rmember deserialize_switchidx (\<lambda>x. pk_leafswitchidx_update (\<lambda>_. x))],
               rif (\<lambda>m. m \<noteq> DISTCACHE_ID)
                 [rmember deserialize_switchidx (\<lambda>x. pk_globalswitchidx_update (\<lambda>_. x))]],
            rmember key_deserialize (\<lambda>x. pk_key_update (\<lambda>_. x))] p))"

text \<open>\<^verbatim>\<open>dynamic_serialize_ophdr\<close> writes the header at the start of a dynamic array and returns its
  size.\<close>

definition dynamic_serialize_ophdr :: "packet \<Rightarrow> dyn_array \<Rightarrow> (dyn_array \<times> int) res" where
  "dynamic_serialize_ophdr p d =
     bind_res (invariant (pk_methodid p \<noteq> INVALID_ID)) (\<lambda>_.
     bind_res (dynamic_memcpys d 0
       ([le16 (htons (pk_type p))] @
        (if \<not> is_singleswitch (pk_methodid p)
         then if pk_methodid p = DISTCACHE_ID
           then [le16 (htons (pk_spineswitchidx p)), le16 (htons (pk_leafswitchidx p))]
           else [le16 (htons (pk_globalswitchidx p))]
         else []))) (\<lambda>d.
     let off = (if is_singleswitch (pk_methodid p) then 2 else if pk_methodid p = DISTCACHE_ID then 6 else 4) in
     bind_res (key_dynamic_serialize (pk_key p) d off) (\<lambda>d. Inr (d, off + 16))))"

section \<open>What the writers and steps do\<close>

text \<open>Rules for sequences: the pattern of a packet is the concatenation of the patterns of its parts.\<close>

named_theorems packet_emits \<open>patterns of the writers of packets\<close>
named_theorems packet_parses \<open>results of the steps of packets\<close>

lemma emits_concat_Nil [packet_emits]: "emits (wseq []) (concat [])"
  using emits_wseq_Nil by simp

lemma emits_concat_Cons [packet_emits]:
  "emits w p \<Longrightarrow> emits (wseq ws) (concat ps) \<Longrightarrow> emits (wseq (w # ws)) (concat (p # ps))"
  using emits_wseq_Cons by simp

lemma emits_size_check:
  assumes "sz = Inr n" "emits (wseq ws) p" "n \<le> length p"
  shows "emits (wseq (with_res sz require_space # ws)) p"
  using emits_require_space [OF assms(2,3)] assms(1) by (simp add: emits_def with_res_def)

lemma emits_wif [packet_emits]:
  "(b \<Longrightarrow> emits (wseq ws) (concat ps)) \<Longrightarrow> emits (wif b ws) (if b then concat ps else [])"
  using emits_wseq_Nil by (simp add: wif_def)

lemma emits_skip_res [packet_emits]: "r = Inr n \<Longrightarrow> emits (skip_res r) (gap_pat n)"
  using emits_skip_bytes by (simp add: emits_def skip_res_def with_res_def)

lemma emits_zero_bytes [packet_emits]: "emits (zero_bytes n) (bytes_pat (replicate n 0))"
  unfolding zero_bytes_def by (rule emits_put_bytes)

lemma emits_zero_res [packet_emits]: "r = Inr n \<Longrightarrow> emits (zero_res r) (bytes_pat (replicate n 0))"
  using emits_zero_bytes by (simp add: emits_def zero_res_def with_res_def)

lemma emits_put_bool [packet_emits]: "emits (put_bool b) (bytes_pat [if b then 1 else 0])"
  unfolding put_bool_def by (rule emits_put_bytes)

lemma emits_packet_type [packet_emits]: "emits (serialize_packet_type t) (be16_pat t)"
  unfolding serialize_packet_type_def
  by (rule emits_require_space [OF emits_wseq_single [OF emits_put16_be]]) simp

lemma emits_switchidx [packet_emits]: "emits (serialize_switchidx t) (be16_pat t)"
  unfolding serialize_switchidx_def
  by (rule emits_require_space [OF emits_wseq_single [OF emits_put16_be]]) simp

lemmas [packet_emits] = emits_put16_be emits_put32_be emits_key_serialize

lemma parses_rseq_Nil [packet_parses]: "p = p' \<Longrightarrow> parses (rseq [] p) (concat []) p'"
  using parses_rreturn by simp

lemma parses_rseq_Cons [packet_parses]:
  "parses (f p) q p' \<Longrightarrow> parses (rseq fs p') (concat qs) p'' \<Longrightarrow> parses (rseq (f # fs) p) (concat (q # qs)) p''"
  using parses_rbind [of "f p" q p' "rseq fs"] by simp

lemma parses_rmember [packet_parses]: "parses r q x \<Longrightarrow> parses (rmember r u p) q (u x p)"
  unfolding rmember_def by (rule parses_rbind_final) auto

lemma parses_rskip [packet_parses]: "length q = n \<Longrightarrow> parses (rskip n p) q p"
  using parses_rthen_skip [OF parses_rreturn] by (simp add: rskip_def)

lemma parses_rskip_res [packet_parses]:
  "f (pk_methodid p) = Inr n \<Longrightarrow> length q = n \<Longrightarrow> parses (rskip_res f p) q p"
  using parses_rskip [of q n p]
  by (simp add: parses_def rskip_def rskip_res_def rthen_def skip_res_def with_res_def)

lemma parses_rif [packet_parses]:
  "(c \<longleftrightarrow> b (pk_methodid p)) \<Longrightarrow> (c \<Longrightarrow> parses (rseq fs p) (concat qs) p') \<Longrightarrow>
   parses (rif b fs p) (if c then concat qs else []) (if c then p' else p)"
  using parses_rreturn [of p] by (cases c) (simp_all add: rif_def)

lemma parses_rif_skip [packet_parses]:
  "\<not> b (pk_methodid p) \<Longrightarrow> parses (rseq fs p) q p' \<Longrightarrow> parses (rseq (rif b gs # fs) p) q p'"
  by (simp add: rif_def rbind_def rreturn_def parses_def)

lemma parses_get_bool [packet_parses]: "parses get_bool (bytes_pat [if b then 1 else 0]) b"
  using parses_get_bytes [of 1 "[if b then 1 else 0]"]
  by (simp add: parses_def get_bool_def rbind_def)

lemma parses_packet_type [packet_parses]: "parses deserialize_packet_type (be16_pat t) t"
  unfolding deserialize_packet_type_def by (rule parses_rthen_space [OF parses_get16_be]) simp

lemma parses_switchidx [packet_parses]: "parses deserialize_switchidx (be16_pat t) t"
  unfolding deserialize_switchidx_def by (rule parses_rthen_space [OF parses_get16_be]) simp

lemmas [packet_parses] = parses_get16_be parses_get32_be parses_key_deserialize

definition ophdr_bytes :: "packet \<Rightarrow> byte list" where
  "ophdr_bytes p = le16 (htons (pk_type p)) @
     (if is_singleswitch (pk_methodid p) then []
      else if pk_methodid p = DISTCACHE_ID
      then le16 (htons (pk_spineswitchidx p)) @ le16 (htons (pk_leafswitchidx p))
      else le16 (htons (pk_globalswitchidx p))) @ key_bytes (pk_key p)"

abbreviation ophdr_pat :: "packet \<Rightarrow> pattern" where
  "ophdr_pat p \<equiv> bytes_pat (ophdr_bytes p)"

lemma length_ophdr_bytes [simp]: "length (ophdr_bytes p) = ophdrsize (pk_methodid p)"
  by (simp add: ophdr_bytes_def ophdrsize_def is_singleswitch_def)

text \<open>The members on the wire, copied from the sender's packet.\<close>

definition copy_ophdr :: "packet \<Rightarrow> packet \<Rightarrow> packet" where
  "copy_ophdr p this =
     (if is_singleswitch (pk_methodid p) then this\<lparr>pk_type := pk_type p, pk_key := pk_key p\<rparr>
      else if pk_methodid p = DISTCACHE_ID
      then this\<lparr>pk_type := pk_type p, pk_spineswitchidx := pk_spineswitchidx p,
             pk_leafswitchidx := pk_leafswitchidx p, pk_key := pk_key p\<rparr>
      else this\<lparr>pk_type := pk_type p, pk_globalswitchidx := pk_globalswitchidx p, pk_key := pk_key p\<rparr>)"

lemma copy_ophdr_simps [simp]:
  "pk_methodid (copy_ophdr p this) = pk_methodid this" "pk_type (copy_ophdr p this) = pk_type p"
  "pk_key (copy_ophdr p this) = pk_key p"
  by (simp_all add: copy_ophdr_def)

lemma emits_ophdr [packet_emits]:
  assumes "pk_methodid p \<noteq> INVALID_ID"
  shows "emits (serialize_ophdr p) (ophdr_pat p)"
proof -
  let ?m = "pk_methodid p"
  have "emits (if ?m = DISTCACHE_ID
      then wseq [serialize_switchidx (pk_spineswitchidx p), serialize_switchidx (pk_leafswitchidx p)]
      else serialize_switchidx (pk_globalswitchidx p))
      (if ?m = DISTCACHE_ID then concat [be16_pat (pk_spineswitchidx p), be16_pat (pk_leafswitchidx p)]
       else be16_pat (pk_globalswitchidx p))"
    by (cases "?m = DISTCACHE_ID") (simp_all only: if_True if_False refl, (rule packet_emits)+)
  then have "emits (wseq [serialize_packet_type (pk_type p),
       wif (\<not> is_singleswitch ?m)
         [if ?m = DISTCACHE_ID
          then wseq [serialize_switchidx (pk_spineswitchidx p), serialize_switchidx (pk_leafswitchidx p)]
          else serialize_switchidx (pk_globalswitchidx p)],
       key_serialize (pk_key p)])
     (concat [be16_pat (pk_type p),
       if \<not> is_singleswitch ?m
       then concat [if ?m = DISTCACHE_ID then concat [be16_pat (pk_spineswitchidx p), be16_pat (pk_leafswitchidx p)]
         else be16_pat (pk_globalswitchidx p)] else [],
       bytes_pat (key_bytes (pk_key p))])"
    by (intro packet_emits)
  also have "(concat [be16_pat (pk_type p),
       if \<not> is_singleswitch ?m
       then concat [if ?m = DISTCACHE_ID then concat [be16_pat (pk_spineswitchidx p), be16_pat (pk_leafswitchidx p)]
         else be16_pat (pk_globalswitchidx p)] else [],
       bytes_pat (key_bytes (pk_key p))]) = ophdr_pat p"
    by (simp add: ophdr_bytes_def)
  finally show ?thesis
    unfolding serialize_ophdr_def using assms
    by (intro emits_require emits_size_check [OF header_sizes_valid(1)]) (simp_all del: wseq.simps)
qed

lemma parses_ophdr [packet_parses]:
  assumes "pk_methodid this = pk_methodid p" "pk_methodid p \<noteq> INVALID_ID"
  shows "parses (deserialize_ophdr this) (ophdr_pat p) (copy_ophdr p this)"
proof -
  let ?m = "pk_methodid p"
  have "parses (rseq [rmember deserialize_packet_type (\<lambda>x. pk_type_update (\<lambda>_. x)),
            rif (\<lambda>m. \<not> is_singleswitch m)
              [rif (\<lambda>m. m = DISTCACHE_ID)
                 [rmember deserialize_switchidx (\<lambda>x. pk_spineswitchidx_update (\<lambda>_. x)),
                  rmember deserialize_switchidx (\<lambda>x. pk_leafswitchidx_update (\<lambda>_. x))],
               rif (\<lambda>m. m \<noteq> DISTCACHE_ID)
                 [rmember deserialize_switchidx (\<lambda>x. pk_globalswitchidx_update (\<lambda>_. x))]],
            rmember key_deserialize (\<lambda>x. pk_key_update (\<lambda>_. x))] this)
     (concat [be16_pat (pk_type p),
       if \<not> is_singleswitch ?m
       then concat [if ?m = DISTCACHE_ID
             then concat [be16_pat (pk_spineswitchidx p), be16_pat (pk_leafswitchidx p)] else [],
           if ?m \<noteq> DISTCACHE_ID then concat [be16_pat (pk_globalswitchidx p)] else []] else [],
       bytes_pat (key_bytes (pk_key p))]) (copy_ophdr p this)"
    by (rule packet_parses | simp add: assms(1) copy_ophdr_def)+
  also have "(concat [be16_pat (pk_type p),
       if \<not> is_singleswitch ?m
       then concat [if ?m = DISTCACHE_ID
             then concat [be16_pat (pk_spineswitchidx p), be16_pat (pk_leafswitchidx p)] else [],
           if ?m \<noteq> DISTCACHE_ID then concat [be16_pat (pk_globalswitchidx p)] else []] else [],
       bytes_pat (key_bytes (pk_key p))]) = ophdr_pat p"
    by (simp add: ophdr_bytes_def)
  finally have "parses (rthen (with_res (get_ophdrsize ?m) require_space) (rseq
        [rmember deserialize_packet_type (\<lambda>x. pk_type_update (\<lambda>_. x)),
            rif (\<lambda>m. \<not> is_singleswitch m)
              [rif (\<lambda>m. m = DISTCACHE_ID)
                 [rmember deserialize_switchidx (\<lambda>x. pk_spineswitchidx_update (\<lambda>_. x)),
                  rmember deserialize_switchidx (\<lambda>x. pk_leafswitchidx_update (\<lambda>_. x))],
               rif (\<lambda>m. m \<noteq> DISTCACHE_ID)
                 [rmember deserialize_switchidx (\<lambda>x. pk_globalswitchidx_update (\<lambda>_. x))]],
            rmember key_deserialize (\<lambda>x. pk_key_update (\<lambda>_. x))] this)) (ophdr_pat p) (copy_ophdr p this)"
    using parses_rthen_space [where n = "ophdrsize ?m" and q = "ophdr_pat p"] assms(2)
    by (simp add: parses_def rthen_def with_res_def header_sizes_valid)
  then show ?thesis
    unfolding deserialize_ophdr_def using assms by (intro parses_rthen_require) simp_all
qed

end
