(* ===== verification/Packet_Codec.thy ===== *)
theory Packet_Codec
  imports Packet_Base
begin

text \<open>
  What the packet classes share: the constructor that deserializes a received datagram
  (\<^verbatim>\<open>receive\<close>), the datagram a \<^verbatim>\<open>serialize\<close> produces in a caller's buffer (\<^verbatim>\<open>datagram\<close>), and the
  contract \<^verbatim>\<open>packet_codec\<close> between the two, which every packet layout interprets.
\<close>

section \<open>Members on the wire\<close>

definition rd16 :: "((u16 \<Rightarrow> u16) \<Rightarrow> packet \<Rightarrow> packet) \<Rightarrow> step" where
  "rd16 u = rmember get16_be (\<lambda>x. u (\<lambda>_. x))"

definition rd32 :: "((u32 \<Rightarrow> u32) \<Rightarrow> packet \<Rightarrow> packet) \<Rightarrow> step" where
  "rd32 u = rmember get32_be (\<lambda>x. u (\<lambda>_. x))"

definition rdbool :: "((bool \<Rightarrow> bool) \<Rightarrow> packet \<Rightarrow> packet) \<Rightarrow> step" where
  "rdbool u = rmember get_bool (\<lambda>x. u (\<lambda>_. x))"

definition rdkey :: "((net_key \<Rightarrow> net_key) \<Rightarrow> packet \<Rightarrow> packet) \<Rightarrow> step" where
  "rdkey u = rmember key_deserialize (\<lambda>x. u (\<lambda>_. x))"

definition rdval :: "((net_val \<Rightarrow> net_val) \<Rightarrow> packet \<Rightarrow> packet) \<Rightarrow> step" where
  "rdval u = rmember val_deserialize (\<lambda>x. u (\<lambda>_. x))"

definition rdval_large :: "((net_val \<Rightarrow> net_val) \<Rightarrow> packet \<Rightarrow> packet) \<Rightarrow> step" where
  "rdval_large u = rmember val_deserialize_large (\<lambda>x. u (\<lambda>_. x))"

lemma parses_rd [packet_parses]:
  "parses (rd16 u16 p) (be16_pat a) (u16 (\<lambda>_. a) p)"
  "parses (rd32 u32 p) (be32_pat b) (u32 (\<lambda>_. b) p)"
  "parses (rdbool ub p) (bytes_pat [if c then 1 else 0]) (ub (\<lambda>_. c) p)"
  "parses (rdkey uk p) (bytes_pat (key_bytes k)) (uk (\<lambda>_. k) p)"
  "val_small v \<Longrightarrow> parses (rdval uv p) (bytes_pat (val_pat v)) (uv (\<lambda>_. v) p)"
  "val_ok v \<Longrightarrow> parses (rdval_large uv p) (bytes_pat (val_pat_large v)) (uv (\<lambda>_. v) p)"
  unfolding rd16_def rd32_def rdbool_def rdkey_def rdval_def rdval_large_def
  by (rule parses_rmember packet_parses sval.dec_parses lval.dec_parses; assumption?)+

lemmas [packet_emits] = sval.enc_emits lval.enc_emits

section \<open>Received datagrams\<close>

text \<open>The constructor of a class from a datagram: \<^verbatim>\<open>Packet()\<close> initialises the members of the base
  class; the other members start with arbitrary contents (\<^verbatim>\<open>this\<close>: the storage, or what a default
  constructor of an intermediate class put there). Some classes check the method first, all check
  the operation code afterwards.\<close>

definition packet_init :: "method_id \<Rightarrow> packet \<Rightarrow> packet" where
  "packet_init m this = this\<lparr>pk_methodid := m, pk_type := 0, pk_key := key_min,
     pk_globalswitchidx := 0, pk_spineswitchidx := 0, pk_leafswitchidx := 0\<rparr>"

definition receive :: "(method_id \<Rightarrow> bool) \<Rightarrow> (packet \<Rightarrow> byte list \<Rightarrow> packet res) \<Rightarrow> (packet \<Rightarrow> bool) \<Rightarrow>
    packet \<Rightarrow> method_id \<Rightarrow> byte list \<Rightarrow> packet res" where
  "receive okm deser accept this m data =
     bind_res (invariant (okm m)) (\<lambda>_.
     bind_res (deser (packet_init m this) data) (\<lambda>p.
     bind_res (invariant (accept p)) (\<lambda>_. Inr p)))"

abbreviation any_method :: "method_id \<Rightarrow> bool" where
  "any_method m \<equiv> True"

text \<open>What is sent: the bytes up to the size that \<^verbatim>\<open>serialize\<close> returns.\<close>

definition datagram :: "(packet \<Rightarrow> writer) \<Rightarrow> packet \<Rightarrow> byte list \<Rightarrow> byte list res" where
  "datagram ser p buf = bind_res (ser p (buf, 0)) (\<lambda>(buf', n). Inr (take n buf'))"

lemma packet_init_simps [simp]: "pk_methodid (packet_init m this) = m"
  by (simp add: packet_init_def)

lemma run_parses: "parses (f this) pat p \<Longrightarrow> holds_pat 0 pat data \<Longrightarrow> run f this data = Inr p"
  by (simp add: run_def parses_def)

lemma run_atleast_parses:
  "sz (pk_methodid this) = Inr n \<Longrightarrow> n \<le> length data \<Longrightarrow> parses (f this) pat p \<Longrightarrow> holds_pat 0 pat data \<Longrightarrow>
   run_atleast sz f this data = Inr p"
  by (simp add: run_atleast_def run_parses)

lemma run_exact_parses:
  "sz (pk_methodid this) = Inr n \<Longrightarrow> n = length data \<Longrightarrow> parses (f this) pat p \<Longrightarrow> holds_pat 0 pat data \<Longrightarrow>
   run_exact sz f this data = Inr p"
  by (simp add: run_exact_def run_parses)

lemma size_checks:
  "sz (pk_methodid this) = Inr n \<Longrightarrow> length data < n \<Longrightarrow> run_atleast sz f this data = Inl Abort"
  "sz (pk_methodid this) = Inr n \<Longrightarrow> length data \<noteq> n \<Longrightarrow> run_exact sz f this data = Inl Abort"
  by (simp_all add: run_atleast_def run_exact_def)

section \<open>The contract of a packet layout\<close>

locale packet_codec =
  fixes ser :: "packet \<Rightarrow> writer"
    and deser :: "packet \<Rightarrow> byte list \<Rightarrow> packet res"
    and pat :: "packet \<Rightarrow> pattern"
    and ok :: "packet \<Rightarrow> bool"
    and members :: "packet \<Rightarrow> packet \<Rightarrow> packet"
  assumes ser_emits: "ok p \<Longrightarrow> emits (ser p) (pat p)"
    and deser_reads: "ok p \<Longrightarrow> pk_methodid this = pk_methodid p \<Longrightarrow> holds_pat 0 (pat p) data \<Longrightarrow>
      length data = length (pat p) \<Longrightarrow> deser this data = Inr (members p this)"
begin

lemma ser_total:
  "ok p \<Longrightarrow> length (pat p) \<le> length buf \<Longrightarrow> ser p (buf, 0) = Inr (overlay 0 (pat p) buf, length (pat p))"
  using ser_emits by (simp add: emits_def)

lemma sent:
  assumes "ok p" "length (pat p) \<le> length buf"
  shows "\<exists>data. datagram ser p buf = Inr data \<and> length data = length (pat p) \<and> holds_pat 0 (pat p) data"
proof -
  let ?data = "take (length (pat p)) (overlay 0 (pat p) buf)"
  have "holds_pat 0 (pat p) ?data"
    using holds_pat_overlay [of 0 "pat p" buf] assms(2) by (simp add: holds_pat_def)
  then show ?thesis
    using ser_total [OF assms] assms(2) by (simp add: datagram_def)
qed

lemma send_deser:
  assumes "ok p" "length (pat p) \<le> length buf" "pk_methodid this = pk_methodid p"
  shows "bind_res (datagram ser p buf) (deser this) = Inr (members p this)"
  using sent [OF assms(1,2)] deser_reads [OF assms(1,3)] by auto

lemma send_receive:
  assumes "ok p" "length (pat p) \<le> length buf" "okm (pk_methodid p)"
    "accept (members p (packet_init (pk_methodid p) this))"
  shows "bind_res (datagram ser p buf) (receive okm deser accept this (pk_methodid p)) =
    Inr (members p (packet_init (pk_methodid p) this))"
proof -
  obtain data where d: "datagram ser p buf = Inr data" "length data = length (pat p)" "holds_pat 0 (pat p) data"
    using sent [OF assms(1,2)] by blast
  have "deser (packet_init (pk_methodid p) this) data = Inr (members p (packet_init (pk_methodid p) this))"
    using deser_reads [OF assms(1) _ d(3,2)] by simp
  with d(1) assms(3,4) show ?thesis by (simp add: receive_def)
qed

lemma sent_bytes:
  assumes "ok p" "pat p = bytes_pat bs" "length bs \<le> length buf"
  shows "datagram ser p buf = Inr bs"
  using sent [OF assms(1), of buf] assms(2,3) by (auto simp: holds_pat_bytes)

text \<open>A receiver of another operation rejects the packet.\<close>

lemma receive_wrong_type:
  assumes "ok p" "length (pat p) \<le> length buf"
    "\<not> accept (members p (packet_init (pk_methodid p) this))"
  shows "bind_res (datagram ser p buf) (receive okm deser accept this (pk_methodid p)) = Inl Abort"
proof -
  obtain data where d: "datagram ser p buf = Inr data" "length data = length (pat p)" "holds_pat 0 (pat p) data"
    using sent [OF assms(1,2)] by blast
  have "deser (packet_init (pk_methodid p) this) data = Inr (members p (packet_init (pk_methodid p) this))"
    using deser_reads [OF assms(1) _ d(3,2)] by simp
  with d(1) assms(3) show ?thesis by (simp add: receive_def invariant_def)
qed

end

text \<open>The three kinds of \<^verbatim>\<open>deserialize\<close>: without a check of the received size, with a lower bound, and
  with the exact size.\<close>

lemma packet_codec_run:
  assumes "\<And>p. ok p \<Longrightarrow> emits (ser p) (pat p)"
    "\<And>p this. ok p \<Longrightarrow> pk_methodid this = pk_methodid p \<Longrightarrow> parses (f this) (pat p) (members p this)"
  shows "packet_codec ser (run f) pat ok members"
  by unfold_locales (use assms run_parses in blast)+

text \<open>A \<^verbatim>\<open>deserialize\<close> that stops before the end of the packet.\<close>

lemma packet_codec_prefix:
  assumes "\<And>p. ok p \<Longrightarrow> emits (ser p) (pat p)" "\<And>p. pat p = head p @ rest p"
    "\<And>p this. ok p \<Longrightarrow> pk_methodid this = pk_methodid p \<Longrightarrow> parses (f this) (head p) (members p this)"
  shows "packet_codec ser (run f) pat ok members"
  by unfold_locales (use assms run_parses holds_pat_append in metis)+

lemma packet_codec_atleast:
  assumes "\<And>p. ok p \<Longrightarrow> emits (ser p) (pat p)"
    "\<And>p. ok p \<Longrightarrow> sz (pk_methodid p) = Inr (n p) \<and> n p \<le> length (pat p)"
    "\<And>p this. ok p \<Longrightarrow> pk_methodid this = pk_methodid p \<Longrightarrow> parses (f this) (pat p) (members p this)"
  shows "packet_codec ser (run_atleast sz f) pat ok members"
  by unfold_locales (use assms in \<open>auto intro!: run_atleast_parses\<close>)

lemma packet_codec_exact:
  assumes "\<And>p. ok p \<Longrightarrow> emits (ser p) (pat p)"
    "\<And>p. ok p \<Longrightarrow> sz (pk_methodid p) = Inr (length (pat p))"
    "\<And>p this. ok p \<Longrightarrow> pk_methodid this = pk_methodid p \<Longrightarrow> parses (f this) (pat p) (members p this)"
  shows "packet_codec ser (run_exact sz f) pat ok members"
  by unfold_locales (use assms in \<open>auto intro!: run_exact_parses\<close>)

section \<open>Serializing into a dynamic array\<close>

text \<open>The \<^verbatim>\<open>dynamic_serialize\<close> functions keep an offset \<^verbatim>\<open>tmpoff\<close> that every part advances by its
  size.\<close>

type_synonym dwriter = "dyn_array \<times> int \<Rightarrow> (dyn_array \<times> int) res"

definition dput :: "byte list \<Rightarrow> dwriter" where
  "dput bs s = (case s of (d, off) \<Rightarrow>
     bind_res (dynamic_memcpy d off bs) (\<lambda>d. Inr (d, off + int (length bs))))"

definition dput_key :: "net_key \<Rightarrow> dwriter" where
  "dput_key k s = (case s of (d, off) \<Rightarrow>
     bind_res (key_dynamic_serialize k d off) (\<lambda>d. Inr (d, off + 16)))"

definition dput_val_large :: "net_val \<Rightarrow> dwriter" where
  "dput_val_large v s = (case s of (d, off) \<Rightarrow>
     bind_res (val_dynamic_serialize_large v d off) (\<lambda>d.
     bind_res (get_padding_size (val_length v)) (\<lambda>padding_size.
     Inr (d, off + int (unat (4 + val_length v + padding_size))))))"

fun dseq :: "dwriter list \<Rightarrow> dwriter" where
  "dseq [] s = Inr s"
| "dseq (w # ws) s = bind_res (w s) (dseq ws)"

definition dophdr :: "packet \<Rightarrow> dwriter" where
  "dophdr p s = (case s of (d, _) \<Rightarrow> dynamic_serialize_ophdr p d)"

text \<open>\<^verbatim>\<open>dstores w bs\<close>: the writer patches exactly these bytes in at its offset.\<close>

definition dstores_at :: "nat \<Rightarrow> dwriter \<Rightarrow> byte list \<Rightarrow> bool" where
  "dstores_at off w bs \<longleftrightarrow> (\<forall>d. da_ok d \<and> off \<le> length (da_bytes d) \<and> off + length bs \<le> nat (da_maxcapability d) \<longrightarrow>
     (\<exists>d'. w (d, int off) = Inr (d', int (off + length bs)) \<and> da_ok d' \<and>
       da_bytes d' = patch off bs (da_bytes d) \<and> nat (da_maxcapability d') = nat (da_maxcapability d)))"

named_theorems dstores_intros

lemma dstores_put [dstores_intros]: "dstores_at off (dput bs) bs"
  using da.store_fits [of _ off bs] by (fastforce simp: dstores_at_def dput_def)

lemma dstores_key [dstores_intros]: "dstores_at off (dput_key k) (key_bytes k)"
  using key_dynamic_serialize_patch [of _ off k] by (fastforce simp: dstores_at_def dput_key_def)

lemma dstores_val_large [dstores_intros]:
  assumes "val_ok v" "4 + length (val_body v) < 2 ^ 32"
  shows "dstores_at off (dput_val_large v) (val_pat_large v)"
proof -
  obtain q where q: "get_padding_size (val_length v) = Inr q" "unat q = padding v"
    using get_padding_size_nat [of "val_length v"] by (auto simp: padding_def)
  have "unat (4 + val_length v + q) = 4 + length (val_body v)"
    using assms q(2) by (simp add: unat_word_ariths length_val_body mod_simps)
  then have sz': "uint (4 + val_length v + q) = 4 + int (length (val_body v))" by (simp only: uint_nat)
  have len: "length (val_pat_large v) = 4 + length (val_body v)" by (simp add: val_pat_large_def)
  show ?thesis unfolding dstores_at_def
  proof (intro allI impI)
    fix d assume d: "da_ok d \<and> off \<le> length (da_bytes d) \<and> off + length (val_pat_large v) \<le> nat (da_maxcapability d)"
    then have "\<exists>d'. val_dynamic_serialize_large v d (int off) = Inr d' \<and> da_ok d' \<and>
        da_bytes d' = patch off (val_pat_large v) (da_bytes d) \<and>
        nat (da_maxcapability d') = nat (da_maxcapability d)"
      using dynamic_val_patch [OF assms(1), of d off "le32 (htonl (val_length v))" 4]
      by (simp add: val_dynamic_serialize_large_def val_pat_large_def)
    then show "\<exists>d'. dput_val_large v (d, int off) = Inr (d', int (off + length (val_pat_large v))) \<and> da_ok d' \<and>
        da_bytes d' = patch off (val_pat_large v) (da_bytes d) \<and>
        nat (da_maxcapability d') = nat (da_maxcapability d)"
      using q(1) sz' len by (auto simp: dput_val_large_def)
  qed
qed

lemma dstores_ophdr [dstores_intros]:
  assumes "pk_methodid p \<noteq> INVALID_ID"
  shows "dstores_at 0 (dophdr p) (ophdr_bytes p)"
proof -
  let ?cs = "[le16 (htons (pk_type p))] @
        (if \<not> is_singleswitch (pk_methodid p)
         then if pk_methodid p = DISTCACHE_ID
           then [le16 (htons (pk_spineswitchidx p)), le16 (htons (pk_leafswitchidx p))]
           else [le16 (htons (pk_globalswitchidx p))]
         else [])"
  let ?n = "if is_singleswitch (pk_methodid p) then 2 else if pk_methodid p = DISTCACHE_ID then 6 else 4 :: nat"
  have bytes: "ophdr_bytes p = concat ?cs @ key_bytes (pk_key p)" "length (concat ?cs) = ?n"
    by (auto simp: ophdr_bytes_def)
  show ?thesis unfolding dstores_at_def
  proof (intro allI impI)
    fix d assume d: "da_ok d \<and> 0 \<le> length (da_bytes d) \<and> 0 + length (ophdr_bytes p) \<le> nat (da_maxcapability d)"
    then have fit: "?n + 16 \<le> nat (da_maxcapability d)" unfolding bytes(1) length_append bytes(2) by simp
    obtain d1 where d1: "dynamic_memcpys d 0 ?cs = Inr d1" "da_ok d1"
      "da_bytes d1 = patch 0 (concat ?cs) (da_bytes d)" "nat (da_maxcapability d1) = nat (da_maxcapability d)"
      using dynamic_memcpys_patch [of d 0 ?cs] d fit bytes(2) by auto
    have "?n \<le> length (da_bytes d1)" using d1(3) bytes(2) by (simp add: length_patch)
    then obtain d2 where d2: "key_dynamic_serialize (pk_key p) d1 (int ?n) = Inr d2" "da_ok d2"
      "da_bytes d2 = patch ?n (key_bytes (pk_key p)) (da_bytes d1)"
      "nat (da_maxcapability d2) = nat (da_maxcapability d)"
      using key_dynamic_serialize_patch [OF d1(2), of ?n "pk_key p"] d1(4) fit by auto
    have "da_bytes d2 = patch 0 (ophdr_bytes p) (da_bytes d)"
      using patch_patch [of 0 "concat ?cs" "key_bytes (pk_key p)" "da_bytes d"] d2(3) d1(3) bytes by simp
    moreover have "int ?n = (if is_singleswitch (pk_methodid p) then 2 else if pk_methodid p = DISTCACHE_ID then 6 else 4)"
      by simp
    moreover have "length (ophdr_bytes p) = ?n + 16" by (simp only: bytes(1) length_append bytes(2)) simp
    ultimately show "\<exists>d'. dophdr p (d, int 0) = Inr (d', int (0 + length (ophdr_bytes p))) \<and> da_ok d' \<and>
       da_bytes d' = patch 0 (ophdr_bytes p) (da_bytes d) \<and> nat (da_maxcapability d') = nat (da_maxcapability d)"
      using assms d1(1) d2 unfolding dophdr_def dynamic_serialize_ophdr_def
      by (auto simp: Let_def)
  qed
qed

lemma dstores_Nil [dstores_intros]: "dstores_at off (dseq []) (concat [])"
  by (auto simp: dstores_at_def patch_Nil)

lemma dstores_Cons [dstores_intros]:
  assumes "dstores_at off w bs" "dstores_at (off + length bs) (dseq ws) (concat bss)"
  shows "dstores_at off (dseq (w # ws)) (concat (bs # bss))"
  unfolding dstores_at_def
proof (intro allI impI)
  fix d assume d: "da_ok d \<and> off \<le> length (da_bytes d) \<and> off + length (concat (bs # bss)) \<le> nat (da_maxcapability d)"
  obtain d1 where d1: "w (d, int off) = Inr (d1, int (off + length bs))" "da_ok d1"
    "da_bytes d1 = patch off bs (da_bytes d)" "nat (da_maxcapability d1) = nat (da_maxcapability d)"
    using assms(1) d unfolding dstores_at_def by (auto dest!: spec [of _ d])
  obtain d2 where "dseq ws (d1, int (off + length bs)) = Inr (d2, int (off + length bs + length (concat bss)))" "da_ok d2"
    "da_bytes d2 = patch (off + length bs) (concat bss) (da_bytes d1)" "nat (da_maxcapability d2) = nat (da_maxcapability d)"
    using assms(2) d d1 unfolding dstores_at_def by (auto simp: length_patch dest!: spec [of _ d1])
  then show "\<exists>d'. dseq (w # ws) (d, int off) = Inr (d', int (off + length (concat (bs # bss)))) \<and> da_ok d' \<and>
     da_bytes d' = patch off (concat (bs # bss)) (da_bytes d) \<and> nat (da_maxcapability d') = nat (da_maxcapability d)"
    using d d1 patch_patch [of off bs "concat bss" "da_bytes d"] by (simp add: add.assoc)
qed

text \<open>Into an empty array, as the callers use it.\<close>

lemma dstores_fresh:
  assumes "dstores_at 0 w bs" "da_ok d" "da_bytes d = []" "int (length bs) \<le> da_maxcapability d"
  shows "\<exists>d'. w (d, 0) = Inr (d', int (length bs)) \<and> da_ok d' \<and> da_bytes d' = bs"
  using assms unfolding dstores_at_def by (auto simp: patch_append dest!: spec [of _ d])

end
