(* ===== verification/Packet_Req.thy ===== *)
theory Packet_Req
  imports Packet_Codec
begin

text \<open>
  The requests of the clients: get, put, delete, scan, warm-up, load and put of a large value. For
  every class its constructors, \<^verbatim>\<open>size\<close>, \<^verbatim>\<open>serialize\<close> and \<^verbatim>\<open>deserialize\<close>
  (src/common/packet_format_impl.h) and the interpretation of \<^verbatim>\<open>packet_codec\<close>.
\<close>

abbreviation sendable :: "packet \<Rightarrow> bool" where
  "sendable p \<equiv> pk_methodid p \<noteq> INVALID_ID"

section \<open>GetRequest\<close>

text \<open>The constructor of \<^verbatim>\<open>Packet\<close> for two switch indices leaves the global switch index
  uninitialised (\<^verbatim>\<open>junk\<close>).\<close>

definition packet_new_spineleaf :: "u16 \<Rightarrow> method_id \<Rightarrow> optype \<Rightarrow> switchidx \<Rightarrow> switchidx \<Rightarrow> net_key \<Rightarrow> packet" where
  "packet_new_spineleaf junk m t spine leaf k =
     packet_default\<lparr>pk_methodid := m, pk_type := t, pk_key := k, pk_globalswitchidx := junk,
       pk_spineswitchidx := spine, pk_leafswitchidx := leaf\<rparr>"

definition GetRequest_new :: "method_id \<Rightarrow> net_key \<Rightarrow> packet res" where
  "GetRequest_new m k = bind_res (invariant (m \<noteq> DISTCACHE_ID)) (\<lambda>_.
     Inr ((packet_new m GETREQ k)\<lparr>pk_spineload := 0, pk_leafload := 0\<rparr>))"

definition GetRequest_new_spineleaf :: "u16 \<Rightarrow> method_id \<Rightarrow> switchidx \<Rightarrow> switchidx \<Rightarrow> net_key \<Rightarrow> packet res" where
  "GetRequest_new_spineleaf junk m spine leaf k = bind_res (invariant (m = DISTCACHE_ID)) (\<lambda>_.
     Inr ((packet_new_spineleaf junk m GETREQ spine leaf k)\<lparr>pk_spineload := 0, pk_leafload := 0\<rparr>))"

definition GetRequest_size :: "method_id \<Rightarrow> nat res" where
  "GetRequest_size m = bind_res (get_ophdrsize m) (\<lambda>size.
     Inr (if m = DISTCACHE_ID then size + (2 + 4 + 4) else size))"

definition GetRequest_serialize :: "packet \<Rightarrow> writer" where
  "GetRequest_serialize p = wseq [
     with_res (GetRequest_size (pk_methodid p)) require_space,
     serialize_ophdr p,
     wif (pk_methodid p = DISTCACHE_ID)
       [serialize_packet_type (pk_type p), put32_be (pk_spineload p), put32_be (pk_leafload p)]]"

definition GetRequest_deserialize :: "packet \<Rightarrow> byte list \<Rightarrow> packet res" where
  "GetRequest_deserialize = run_atleast GetRequest_size (rseq [
     deserialize_ophdr,
     rif (\<lambda>m. m = DISTCACHE_ID) [rskip 2, rd32 pk_spineload_update, rd32 pk_leafload_update]])"

definition GetRequest_data :: "packet \<Rightarrow> method_id \<Rightarrow> byte list \<Rightarrow> packet res" where
  "GetRequest_data = receive any_method GetRequest_deserialize (\<lambda>p. pk_type p = GETREQ)"

definition getreq_pat :: "packet \<Rightarrow> pattern" where
  "getreq_pat p = concat [ophdr_pat p,
     if pk_methodid p = DISTCACHE_ID
     then concat [be16_pat (pk_type p), be32_pat (pk_spineload p), be32_pat (pk_leafload p)] else []]"

definition getreq_members :: "packet \<Rightarrow> packet \<Rightarrow> packet" where
  "getreq_members p this = (if pk_methodid p = DISTCACHE_ID
     then (copy_ophdr p this)\<lparr>pk_spineload := pk_spineload p, pk_leafload := pk_leafload p\<rparr>
     else copy_ophdr p this)"

lemma emits_getreq: "sendable p \<Longrightarrow> emits (GetRequest_serialize p) (getreq_pat p)"
  unfolding GetRequest_serialize_def getreq_pat_def
  by (intro emits_size_check packet_emits) (auto simp: GetRequest_size_def header_sizes_valid)

interpretation getreq: packet_codec GetRequest_serialize GetRequest_deserialize getreq_pat sendable getreq_members
  unfolding GetRequest_deserialize_def
  by (rule packet_codec_atleast [OF emits_getreq, where n = "\<lambda>p. length (getreq_pat p)"])
    (unfold getreq_pat_def, (rule packet_parses | simp add: GetRequest_size_def header_sizes_valid getreq_members_def)+)

section \<open>PutRequest\<close>

definition PutRequest_new :: "method_id \<Rightarrow> net_key \<Rightarrow> net_val \<Rightarrow> packet res" where
  "PutRequest_new m k v = bind_res (val_copy v) (\<lambda>v.
     bind_res (invariant (val_length v \<le> SWITCH_MAX_VALLEN)) (\<lambda>_.
     Inr ((packet_new m PUTREQ k)\<lparr>pk_val := v\<rparr>)))"

definition PutRequest_serialize :: "packet \<Rightarrow> writer" where
  "PutRequest_serialize p = wseq [
     serialize_ophdr p, val_serialize (pk_val p), serialize_packet_type (pk_type p)]"

definition PutRequest_deserialize :: "packet \<Rightarrow> byte list \<Rightarrow> packet res" where
  "PutRequest_deserialize = run (rseq [deserialize_ophdr, rdval pk_val_update, rskip 2])"

definition PutRequest_data :: "packet \<Rightarrow> method_id \<Rightarrow> byte list \<Rightarrow> packet res" where
  "PutRequest_data = receive any_method PutRequest_deserialize
     (\<lambda>p. pk_type p = PUTREQ \<and> val_length (pk_val p) \<le> SWITCH_MAX_VALLEN)"

definition putreq_pat :: "packet \<Rightarrow> pattern" where
  "putreq_pat p = concat [ophdr_pat p, bytes_pat (val_pat (pk_val p)), be16_pat (pk_type p)]"

definition putreq_members :: "packet \<Rightarrow> packet \<Rightarrow> packet" where
  "putreq_members p this = (copy_ophdr p this)\<lparr>pk_val := pk_val p\<rparr>"

definition sendable_val :: "packet \<Rightarrow> bool" where
  "sendable_val p \<longleftrightarrow> sendable p \<and> val_small (pk_val p)"

interpretation putreq: packet_codec PutRequest_serialize PutRequest_deserialize putreq_pat sendable_val putreq_members
  unfolding PutRequest_deserialize_def
  by (rule packet_codec_run)
    (unfold PutRequest_serialize_def putreq_pat_def sendable_val_def,
      (intro packet_emits; simp), (rule packet_parses | simp add: putreq_members_def)+)

section \<open>DelRequest\<close>

definition DelRequest_new :: "method_id \<Rightarrow> net_key \<Rightarrow> packet" where
  "DelRequest_new m k = packet_new m DELREQ k"

definition DelRequest_size :: "method_id \<Rightarrow> nat res" where
  "DelRequest_size m = get_ophdrsize m"

definition DelRequest_serialize :: "packet \<Rightarrow> writer" where
  "DelRequest_serialize p = wseq [with_res (DelRequest_size (pk_methodid p)) require_space, serialize_ophdr p]"

definition DelRequest_deserialize :: "packet \<Rightarrow> byte list \<Rightarrow> packet res" where
  "DelRequest_deserialize = run_exact DelRequest_size (rseq [deserialize_ophdr])"

definition DelRequest_data :: "packet \<Rightarrow> method_id \<Rightarrow> byte list \<Rightarrow> packet res" where
  "DelRequest_data = receive any_method DelRequest_deserialize (\<lambda>p. pk_type p = DELREQ)"

definition delreq_pat :: "packet \<Rightarrow> pattern" where
  "delreq_pat p = concat [ophdr_pat p]"

lemma emits_delreq: "sendable p \<Longrightarrow> emits (DelRequest_serialize p) (delreq_pat p)"
  unfolding DelRequest_serialize_def delreq_pat_def
  by (intro emits_size_check packet_emits) (auto simp: DelRequest_size_def header_sizes_valid)

interpretation delreq: packet_codec DelRequest_serialize DelRequest_deserialize delreq_pat sendable copy_ophdr
  unfolding DelRequest_deserialize_def
  by (rule packet_codec_exact [OF emits_delreq])
    (unfold delreq_pat_def, (rule packet_parses | simp add: DelRequest_size_def header_sizes_valid)+)

section \<open>ScanRequest\<close>

definition ScanRequest_new :: "method_id \<Rightarrow> net_key \<Rightarrow> net_key \<Rightarrow> packet" where
  "ScanRequest_new m k e = (packet_new m SCANREQ k)\<lparr>pk_endkey := e\<rparr>"

definition ScanRequest_size :: "method_id \<Rightarrow> nat res" where
  "ScanRequest_size m = bind_res (get_ophdrsize m) (\<lambda>size. Inr (size + 16))"

definition ScanRequest_serialize :: "packet \<Rightarrow> writer" where
  "ScanRequest_serialize p = wseq [
     with_res (ScanRequest_size (pk_methodid p)) require_space,
     serialize_ophdr p, key_serialize (pk_endkey p)]"

definition ScanRequest_deserialize :: "packet \<Rightarrow> byte list \<Rightarrow> packet res" where
  "ScanRequest_deserialize = run_exact ScanRequest_size (rseq [deserialize_ophdr, rdkey pk_endkey_update])"

definition ScanRequest_data :: "packet \<Rightarrow> method_id \<Rightarrow> byte list \<Rightarrow> packet res" where
  "ScanRequest_data = receive any_method ScanRequest_deserialize (\<lambda>p. pk_type p = SCANREQ)"

definition scanreq_pat :: "packet \<Rightarrow> pattern" where
  "scanreq_pat p = concat [ophdr_pat p, bytes_pat (key_bytes (pk_endkey p))]"

definition scanreq_members :: "packet \<Rightarrow> packet \<Rightarrow> packet" where
  "scanreq_members p this = (copy_ophdr p this)\<lparr>pk_endkey := pk_endkey p\<rparr>"

lemma emits_scanreq: "sendable p \<Longrightarrow> emits (ScanRequest_serialize p) (scanreq_pat p)"
  unfolding ScanRequest_serialize_def scanreq_pat_def
  by (intro emits_size_check packet_emits) (auto simp: ScanRequest_size_def header_sizes_valid)

interpretation scanreq: packet_codec ScanRequest_serialize ScanRequest_deserialize scanreq_pat sendable scanreq_members
  unfolding ScanRequest_deserialize_def
  by (rule packet_codec_exact [OF emits_scanreq])
    (unfold scanreq_pat_def, (rule packet_parses | simp add: ScanRequest_size_def header_sizes_valid scanreq_members_def)+)

section \<open>WarmupRequest and the acknowledgements derived from it\<close>

definition WarmupRequest_new :: "method_id \<Rightarrow> net_key \<Rightarrow> packet" where
  "WarmupRequest_new m k = packet_new m WARMUPREQ k"

definition WarmupRequest_size :: "method_id \<Rightarrow> nat res" where
  "WarmupRequest_size m = get_ophdrsize m"

definition WarmupRequest_serialize :: "packet \<Rightarrow> writer" where
  "WarmupRequest_serialize p = wseq [with_res (WarmupRequest_size (pk_methodid p)) require_space, serialize_ophdr p]"

definition WarmupRequest_deserialize :: "packet \<Rightarrow> byte list \<Rightarrow> packet res" where
  "WarmupRequest_deserialize = run_atleast WarmupRequest_size (rseq [deserialize_ophdr])"

lemma emits_warmup: "sendable p \<Longrightarrow> emits (WarmupRequest_serialize p) (delreq_pat p)"
  unfolding WarmupRequest_serialize_def delreq_pat_def
  by (intro emits_size_check packet_emits) (auto simp: WarmupRequest_size_def header_sizes_valid)

interpretation warmup: packet_codec WarmupRequest_serialize WarmupRequest_deserialize delreq_pat sendable copy_ophdr
  unfolding WarmupRequest_deserialize_def
  by (rule packet_codec_atleast [OF emits_warmup, where n = "\<lambda>p. length (delreq_pat p)"])
    (unfold delreq_pat_def, (rule packet_parses | simp add: WarmupRequest_size_def header_sizes_valid)+)

text \<open>The classes that only have an operation header; they differ in the operation code and in the
  methods that use them.\<close>

definition warmup_as :: "(method_id \<Rightarrow> bool) \<Rightarrow> optype \<Rightarrow> method_id \<Rightarrow> net_key \<Rightarrow> packet res" where
  "warmup_as okm t m k = bind_res (invariant (okm m)) (\<lambda>_. Inr ((WarmupRequest_new m k)\<lparr>pk_type := t\<rparr>))"

definition warmup_data :: "(method_id \<Rightarrow> bool) \<Rightarrow> optype \<Rightarrow> packet \<Rightarrow> method_id \<Rightarrow> byte list \<Rightarrow> packet res" where
  "warmup_data okm t = receive okm WarmupRequest_deserialize (\<lambda>p. pk_type p = t)"

definition WarmupRequest_data :: "packet \<Rightarrow> method_id \<Rightarrow> byte list \<Rightarrow> packet res" where
  "WarmupRequest_data = receive any_method WarmupRequest_deserialize (\<lambda>p. pk_type p = WARMUPREQ)"

definition GetRequestPOP_data :: "packet \<Rightarrow> method_id \<Rightarrow> byte list \<Rightarrow> packet res" where
  "GetRequestPOP_data = warmup_data (\<lambda>m. m = FARREACH_ID \<or> m = DISTFARREACH_ID) GETREQ_POP"

definition GetRequestNLatest_data :: "packet \<Rightarrow> method_id \<Rightarrow> byte list \<Rightarrow> packet res" where
  "GetRequestNLatest_data = warmup_data (\<lambda>m. m = FARREACH_ID \<or> m = DISTFARREACH_ID) GETREQ_NLATEST"

definition WarmupAck_new :: "method_id \<Rightarrow> net_key \<Rightarrow> packet res" where
  "WarmupAck_new = warmup_as any_method WARMUPACK"

definition WarmupAck_data :: "packet \<Rightarrow> method_id \<Rightarrow> byte list \<Rightarrow> packet res" where
  "WarmupAck_data = warmup_data any_method WARMUPACK"

definition LoadAck_new :: "method_id \<Rightarrow> net_key \<Rightarrow> packet res" where
  "LoadAck_new = warmup_as any_method LOADACK"

definition LoadAck_data :: "packet \<Rightarrow> method_id \<Rightarrow> byte list \<Rightarrow> packet res" where
  "LoadAck_data = warmup_data any_method LOADACK"

definition CachePopAck_new :: "method_id \<Rightarrow> net_key \<Rightarrow> packet res" where
  "CachePopAck_new = warmup_as any_method CACHE_POP_ACK"

definition CachePopAck_data :: "packet \<Rightarrow> method_id \<Rightarrow> byte list \<Rightarrow> packet res" where
  "CachePopAck_data = warmup_data any_method CACHE_POP_ACK"

definition CacheEvictAck_new :: "method_id \<Rightarrow> net_key \<Rightarrow> packet res" where
  "CacheEvictAck_new = warmup_as any_method CACHE_EVICT_ACK"

definition CacheEvictAck_data :: "packet \<Rightarrow> method_id \<Rightarrow> byte list \<Rightarrow> packet res" where
  "CacheEvictAck_data = warmup_data any_method CACHE_EVICT_ACK"

text \<open>\<^verbatim>\<open>bwcost\<close>: the bandwidth a controller accounts for an acknowledgement.\<close>

definition CachePopAck_bwcost :: "method_id \<Rightarrow> nat res" where
  "CachePopAck_bwcost m = get_ophdrsize m"

definition CacheEvictAck_bwcost :: "method_id \<Rightarrow> nat res" where
  "CacheEvictAck_bwcost m = bind_res (get_ophdrsize m) (\<lambda>size. Inr (size + 2))"

text \<open>Two acknowledgements of the switch accept any operation code and remember in \<^verbatim>\<open>is_valid_\<close> (the
  second component) whether it was the expected one.\<close>

definition CachePopInswitchAck_data :: "packet \<Rightarrow> method_id \<Rightarrow> byte list \<Rightarrow> (packet \<times> bool) res" where
  "CachePopInswitchAck_data this m data =
     bind_res (WarmupRequest_deserialize (packet_init m this) data) (\<lambda>p.
     Inr (p, pk_type p = CACHE_POP_INSWITCH_ACK))"

definition SetvalidInswitchAck_data :: "packet \<Rightarrow> method_id \<Rightarrow> byte list \<Rightarrow> (packet \<times> bool) res" where
  "SetvalidInswitchAck_data this m data =
     bind_res (WarmupRequest_deserialize (packet_init m this) data) (\<lambda>p.
     Inr (p, pk_type p = SETVALID_INSWITCH_ACK))"

definition NetcacheValueupdateAck_data :: "packet \<Rightarrow> method_id \<Rightarrow> byte list \<Rightarrow> packet res" where
  "NetcacheValueupdateAck_data = warmup_data (\<lambda>m. m = NETCACHE_ID \<or> m = DISTCACHE_ID) NETCACHE_VALUEUPDATE_ACK"

definition WarmupAckServer_new :: "method_id \<Rightarrow> net_key \<Rightarrow> packet res" where
  "WarmupAckServer_new = warmup_as (\<lambda>m. \<not> is_singleswitch m) WARMUPACK_SERVER"

definition LoadAckServer_new :: "method_id \<Rightarrow> net_key \<Rightarrow> packet res" where
  "LoadAckServer_new = warmup_as (\<lambda>m. \<not> is_singleswitch m) LOADACK_SERVER"

definition DistcacheCacheEvictVictimAck_new :: "method_id \<Rightarrow> net_key \<Rightarrow> packet res" where
  "DistcacheCacheEvictVictimAck_new = warmup_as (\<lambda>m. m = DISTCACHE_ID) DISTCACHE_CACHE_EVICT_VICTIM_ACK"

definition DistcacheCacheEvictVictimAck_data :: "packet \<Rightarrow> method_id \<Rightarrow> byte list \<Rightarrow> packet res" where
  "DistcacheCacheEvictVictimAck_data = warmup_data (\<lambda>m. m = DISTCACHE_ID) DISTCACHE_CACHE_EVICT_VICTIM_ACK"

definition DistcacheInvalidate_new :: "method_id \<Rightarrow> switchidx \<Rightarrow> switchidx \<Rightarrow> net_key \<Rightarrow> packet res" where
  "DistcacheInvalidate_new m spine leaf k =
     bind_res (warmup_as (\<lambda>m. m = DISTCACHE_ID) DISTCACHE_INVALIDATE m k) (\<lambda>p.
     Inr (p\<lparr>pk_spineswitchidx := spine, pk_leafswitchidx := leaf\<rparr>))"

definition DistcacheInvalidate_data :: "packet \<Rightarrow> method_id \<Rightarrow> byte list \<Rightarrow> packet res" where
  "DistcacheInvalidate_data = warmup_data (\<lambda>m. m = DISTCACHE_ID) DISTCACHE_INVALIDATE"

definition DistcacheInvalidateAck_new :: "method_id \<Rightarrow> net_key \<Rightarrow> packet res" where
  "DistcacheInvalidateAck_new = warmup_as (\<lambda>m. m = DISTCACHE_ID) DISTCACHE_INVALIDATE_ACK"

definition DistcacheInvalidateAck_data :: "packet \<Rightarrow> method_id \<Rightarrow> byte list \<Rightarrow> packet res" where
  "DistcacheInvalidateAck_data = warmup_data (\<lambda>m. m = DISTCACHE_ID) DISTCACHE_INVALIDATE_ACK"

definition DistcacheSpineValueupdateInswitchAck_data :: "packet \<Rightarrow> method_id \<Rightarrow> byte list \<Rightarrow> packet res" where
  "DistcacheSpineValueupdateInswitchAck_data = warmup_data (\<lambda>m. m = DISTCACHE_ID) DISTCACHE_SPINE_VALUEUPDATE_INSWITCH_ACK"

definition DistcacheLeafValueupdateInswitchAck_data :: "packet \<Rightarrow> method_id \<Rightarrow> byte list \<Rightarrow> packet res" where
  "DistcacheLeafValueupdateInswitchAck_data = warmup_data (\<lambda>m. m = DISTCACHE_ID) DISTCACHE_LEAF_VALUEUPDATE_INSWITCH_ACK"

definition DistcacheUpdateTrafficload_new ::
    "u16 \<Rightarrow> method_id \<Rightarrow> switchidx \<Rightarrow> switchidx \<Rightarrow> net_key \<Rightarrow> u32 \<Rightarrow> u32 \<Rightarrow> packet res" where
  "DistcacheUpdateTrafficload_new junk m spine leaf k spineload leafload =
     bind_res (GetRequest_new_spineleaf junk m spine leaf k) (\<lambda>p.
     Inr (p\<lparr>pk_type := DISTCACHE_UPDATE_TRAFFICLOAD, pk_spineload := spineload, pk_leafload := leafload\<rparr>))"

section \<open>LoadRequest and PutRequestLargevalue\<close>

text \<open>Both carry the logical index of the client, a fragment sequence number and a value with a 32-bit
  length. The fragment sequence number is written with \<^verbatim>\<open>htonl\<close> and read with \<^verbatim>\<open>ntohs\<close>.\<close>

definition rdfragseq :: step where
  "rdfragseq = rmember get32 (\<lambda>x. pk_fragseq_update (\<lambda>_. ucast (htons (ucast x))))"

lemma parses_rdfragseq [packet_parses]:
  "parses (rdfragseq p) (be32_pat x) (p\<lparr>pk_fragseq := ucast (htons (ucast (htonl x)))\<rparr>)"
  unfolding rdfragseq_def by (rule parses_rmember [OF parses_get32])

definition LoadRequest_new :: "method_id \<Rightarrow> net_key \<Rightarrow> net_val \<Rightarrow> u16 \<Rightarrow> u32 \<Rightarrow> packet res" where
  "LoadRequest_new m k v client_logical_idx fragseq = bind_res (val_copy v) (\<lambda>v.
     Inr ((packet_new m LOADREQ k)\<lparr>pk_val := v, pk_client_logical_idx := client_logical_idx, pk_fragseq := fragseq\<rparr>))"

definition LoadRequest_serialize :: "packet \<Rightarrow> writer" where
  "LoadRequest_serialize p = wseq [
     serialize_ophdr p, put16_be (pk_client_logical_idx p), put32_be (pk_fragseq p),
     val_serialize_large (pk_val p)]"

definition LoadRequest_dynamic_serialize :: "packet \<Rightarrow> dyn_array \<Rightarrow> (dyn_array \<times> int) res" where
  "LoadRequest_dynamic_serialize p d = dseq [
     dophdr p, dput (le16 (htons (pk_client_logical_idx p))), dput (le32 (htonl (pk_fragseq p))),
     dput_val_large (pk_val p)] (d, 0)"

definition LoadRequest_deserialize :: "packet \<Rightarrow> byte list \<Rightarrow> packet res" where
  "LoadRequest_deserialize = run (rseq [
     deserialize_ophdr, rd16 pk_client_logical_idx_update, rdfragseq, rdval_large pk_val_update])"

definition LoadRequest_data :: "packet \<Rightarrow> method_id \<Rightarrow> byte list \<Rightarrow> packet res" where
  "LoadRequest_data = receive any_method LoadRequest_deserialize (\<lambda>p. pk_type p = LOADREQ)"

definition LoadRequest_get_frag_hdrsize :: "method_id \<Rightarrow> nat res" where
  "LoadRequest_get_frag_hdrsize m = bind_res (get_ophdrsize m) (\<lambda>size. Inr (size + 2 + 4))"

definition large_bytes :: "packet \<Rightarrow> byte list" where
  "large_bytes p = concat [ophdr_bytes p, le16 (htons (pk_client_logical_idx p)), le32 (htonl (pk_fragseq p)),
     val_pat_large (pk_val p)]"

definition large_pat :: "packet \<Rightarrow> pattern" where
  "large_pat p = concat [ophdr_pat p, be16_pat (pk_client_logical_idx p), be32_pat (pk_fragseq p),
     bytes_pat (val_pat_large (pk_val p))]"

definition large_members :: "packet \<Rightarrow> packet \<Rightarrow> packet" where
  "large_members p this = (copy_ophdr p this)\<lparr>pk_client_logical_idx := pk_client_logical_idx p,
     pk_fragseq := ucast (htons (ucast (htonl (pk_fragseq p)))), pk_val := pk_val p\<rparr>"

definition sendable_large :: "packet \<Rightarrow> bool" where
  "sendable_large p \<longleftrightarrow> sendable p \<and> val_ok (pk_val p)"

interpretation loadreq: packet_codec LoadRequest_serialize LoadRequest_deserialize large_pat sendable_large large_members
  unfolding LoadRequest_deserialize_def
  by (rule packet_codec_run)
    (unfold LoadRequest_serialize_def large_pat_def sendable_large_def,
      (intro packet_emits; simp), (rule packet_parses | simp add: large_members_def)+)

definition PutRequestLargevalue_new :: "u16 \<Rightarrow> method_id \<Rightarrow> net_key \<Rightarrow> net_val \<Rightarrow> u16 \<Rightarrow> u32 \<Rightarrow> packet res" where
  "PutRequestLargevalue_new junk m k v client_logical_idx fragseq = bind_res (val_copy v) (\<lambda>v.
     bind_res (invariant (val_length v > SWITCH_MAX_VALLEN)) (\<lambda>_.
     Inr ((packet_new_spineleaf junk m PUTREQ_LARGEVALUE 0 0 k)\<lparr>pk_val := v,
       pk_client_logical_idx := client_logical_idx, pk_fragseq := fragseq\<rparr>)))"

definition PutRequestLargevalue_size :: "method_id \<Rightarrow> nat res" where
  "PutRequestLargevalue_size m = bind_res (get_ophdrsize m) (\<lambda>size.
     Inr (size + 2 + 4 + 4 + unat SWITCH_MAX_VALLEN))"

definition PutRequestLargevalue_get_frag_hdrsize :: "method_id \<Rightarrow> nat res" where
  "PutRequestLargevalue_get_frag_hdrsize m = bind_res (get_ophdrsize m) (\<lambda>size. Inr (size + 2 + 4))"

definition PutRequestLargevalue_serialize :: "packet \<Rightarrow> writer" where
  "PutRequestLargevalue_serialize p = wseq [
     with_res (PutRequestLargevalue_size (pk_methodid p)) require_space,
     serialize_ophdr p, put16_be (pk_client_logical_idx p), put32_be (pk_fragseq p),
     val_serialize_large (pk_val p)]"

definition PutRequestLargevalue_dynamic_serialize :: "packet \<Rightarrow> dyn_array \<Rightarrow> (dyn_array \<times> int) res" where
  "PutRequestLargevalue_dynamic_serialize p d = dseq [
     dophdr p, dput (le16 (htons (pk_client_logical_idx p))), dput (le32 (htonl (pk_fragseq p))),
     dput_val_large (pk_val p)] (d, 0)"

definition PutRequestLargevalue_deserialize :: "packet \<Rightarrow> byte list \<Rightarrow> packet res" where
  "PutRequestLargevalue_deserialize = run_atleast PutRequestLargevalue_size (rseq [
     deserialize_ophdr, rd16 pk_client_logical_idx_update, rdfragseq, rdval_large pk_val_update])"

definition PutRequestLargevalue_data :: "packet \<Rightarrow> method_id \<Rightarrow> byte list \<Rightarrow> packet res" where
  "PutRequestLargevalue_data = receive any_method PutRequestLargevalue_deserialize
     (\<lambda>p. pk_type p = PUTREQ_LARGEVALUE \<and> val_length (pk_val p) > SWITCH_MAX_VALLEN)"

definition sendable_big :: "packet \<Rightarrow> bool" where
  "sendable_big p \<longleftrightarrow> sendable p \<and> val_ok (pk_val p) \<and> SWITCH_MAX_VALLEN < val_length (pk_val p)"

lemma big_pat_length: "sendable_big p \<Longrightarrow> 4 + 128 \<le> length (val_pat_large (pk_val p))"
  by (auto simp: sendable_big_def val_pat_large_def length_val_body SWITCH_MAX_VALLEN_def word_less_nat_alt)

lemma emits_putlarge: "sendable_big p \<Longrightarrow> emits (PutRequestLargevalue_serialize p) (large_pat p)"
  using big_pat_length [of p] unfolding PutRequestLargevalue_serialize_def large_pat_def
  by (intro emits_size_check packet_emits)
    (auto simp: PutRequestLargevalue_size_def header_sizes_valid sendable_big_def SWITCH_MAX_VALLEN_def)

interpretation putlarge: packet_codec PutRequestLargevalue_serialize PutRequestLargevalue_deserialize large_pat
  sendable_big large_members
  unfolding PutRequestLargevalue_deserialize_def
  apply (rule packet_codec_atleast [OF emits_putlarge, where n = "\<lambda>p. ophdrsize (pk_methodid p) + 138"])
    apply assumption
  subgoal for p using big_pat_length [of p]
    by (auto simp: PutRequestLargevalue_size_def header_sizes_valid sendable_big_def SWITCH_MAX_VALLEN_def large_pat_def)
  unfolding large_pat_def sendable_big_def
  by (rule packet_parses | simp add: large_members_def)+

lemma dstores_large:
  assumes "sendable_large p" "4 + length (val_body (pk_val p)) < 2 ^ 32"
  shows "dstores_at 0 (dseq [dophdr p, dput (le16 (htons (pk_client_logical_idx p))), dput (le32 (htonl (pk_fragseq p))),
     dput_val_large (pk_val p)]) (large_bytes p)"
  unfolding large_bytes_def by (intro dstores_intros) (use assms in \<open>auto simp: sendable_large_def\<close>)

lemma large_pat_bytes: "large_pat p = bytes_pat (large_bytes p)"
  by (simp add: large_pat_def large_bytes_def)

lemma large_length:
  "val_ok (pk_val p) \<Longrightarrow>
   length (large_bytes p) = ophdrsize (pk_methodid p) + 10 + unat (val_length (pk_val p)) + padding (pk_val p)"
  by (simp add: large_bytes_def val_pat_large_def length_val_body)

lemma large_fresh:
  assumes "sendable_large p" "da_ok d" "da_bytes d = []" "int (length (large_bytes p)) \<le> da_maxcapability d"
    "unat (val_length (pk_val p)) < 2 ^ 31"
  shows "\<exists>d'. dseq [dophdr p, dput (le16 (htons (pk_client_logical_idx p))), dput (le32 (htonl (pk_fragseq p))),
     dput_val_large (pk_val p)] (d, 0) = Inr (d', int (length (large_bytes p))) \<and> da_bytes d' = large_bytes p"
proof -
  have "4 + length (val_body (pk_val p)) < 2 ^ 32"
    using assms(1,5) padding_less [of "pk_val p"] by (simp add: length_val_body sendable_large_def)
  then show ?thesis using dstores_fresh [OF dstores_large [OF assms(1)] assms(2-4)] by blast
qed

lemma fragseq_high: "ucast (htons (ucast (htonl x))) = (drop_bit 16 x :: u32)"
  unfolding htons_alt htonl_alt of_le16_def of_le32_def
  by (rule bit_word_eqI, rename_tac n, case_tac "n < 8"; case_tac "n < 16") (auto simp: bit_simps dest: bit_imp_le_length)

lemma large_members_simps [simp]:
  "pk_type (large_members p this) = pk_type p" "pk_key (large_members p this) = pk_key p"
  "pk_val (large_members p this) = pk_val p" "pk_fragseq (large_members p this) = drop_bit 16 (pk_fragseq p)"
  "pk_client_logical_idx (large_members p this) = pk_client_logical_idx p"
  by (simp_all add: large_members_def fragseq_high)

lemma load_arrives:
  assumes "sendable_large p" "pk_type p = LOADREQ" "length (large_bytes p) \<le> length buf"
    "da_ok d" "da_bytes d = []" "int (length (large_bytes p)) \<le> da_maxcapability d"
    "unat (val_length (pk_val p)) < 2 ^ 31"
  shows "\<exists>d'. datagram LoadRequest_serialize p buf = Inr (large_bytes p) \<and>
    LoadRequest_data this (pk_methodid p) (large_bytes p) = Inr (large_members p (packet_init (pk_methodid p) this)) \<and>
    LoadRequest_dynamic_serialize p d = Inr (d', int (length (large_bytes p))) \<and> da_bytes d' = large_bytes p"
  using loadreq.sent_bytes [OF assms(1) large_pat_bytes assms(3)] large_fresh [OF assms(1,4-7)]
    loadreq.send_receive [OF assms(1), of buf any_method "\<lambda>p. pk_type p = LOADREQ" this] assms
  by (auto simp: LoadRequest_data_def LoadRequest_dynamic_serialize_def large_pat_bytes)

lemma putlarge_arrives:
  assumes "sendable_large p" "pk_type p = PUTREQ_LARGEVALUE" "length (large_bytes p) \<le> length buf"
    "da_ok d" "da_bytes d = []" "int (length (large_bytes p)) \<le> da_maxcapability d"
    "unat (val_length (pk_val p)) < 2 ^ 31" "128 < unat (val_length (pk_val p))"
  shows "\<exists>d'. datagram PutRequestLargevalue_serialize p buf = Inr (large_bytes p) \<and>
    PutRequestLargevalue_data this (pk_methodid p) (large_bytes p) =
      Inr (large_members p (packet_init (pk_methodid p) this)) \<and>
    PutRequestLargevalue_dynamic_serialize p d = Inr (d', int (length (large_bytes p))) \<and> da_bytes d' = large_bytes p"
proof -
  have ok: "sendable_big p"
    using assms(1,8) by (simp add: sendable_big_def sendable_large_def SWITCH_MAX_VALLEN_def word_less_nat_alt)
  then show ?thesis
    using putlarge.sent_bytes [OF ok large_pat_bytes assms(3)] large_fresh [OF assms(1,4-7)]
      putlarge.send_receive [OF ok, of buf any_method
        "\<lambda>p. pk_type p = PUTREQ_LARGEVALUE \<and> val_length (pk_val p) > SWITCH_MAX_VALLEN" this] assms
    by (auto simp: PutRequestLargevalue_data_def PutRequestLargevalue_dynamic_serialize_def large_pat_bytes
        sendable_big_def)
qed

section \<open>Requests arrive as they were sent\<close>

text \<open>What the receiver gets when a packet is serialized into a buffer and the datagram is handed to the
  constructor of the receiver's class.\<close>

definition transmit :: "(packet \<Rightarrow> writer) \<Rightarrow> (byte list \<Rightarrow> 'a res) \<Rightarrow> byte list \<Rightarrow> packet \<Rightarrow> 'a res" where
  "transmit ser recv buf p = bind_res (datagram ser p buf) recv"

text \<open>C28: get, delete and scan requests arrive as they were built: for every deployed method and every
  buffer with 16 bytes of room behind the operation header, the server's constructor accepts the datagram and returns the
  operation code, the key and (scan) the end key; for DistCache the two switch indices of a get
  request survive as well. A get request cannot be built with the wrong constructor for the method.
  The datagrams have the fixed size of their class; the constructors refuse data that is shorter, so
  a request cut anywhere (a scan request inside its end key as well) is refused, and those of delete
  and scan requests also refuse data that is longer.\<close>

theorem request_roundtrip:
  assumes "m \<noteq> INVALID_ID" "ophdrsize m + 16 \<le> length buf"
  shows "(if m = DISTCACHE_ID then GetRequest_new m k = Inl Abort \<and>
      (\<exists>q. bind_res (GetRequest_new_spineleaf junk m spine leaf k) (transmit GetRequest_serialize (GetRequest_data this m) buf) = Inr q \<and>
        pk_type q = GETREQ \<and> pk_key q = k \<and> pk_spineswitchidx q = spine \<and> pk_leafswitchidx q = leaf)
    else GetRequest_new_spineleaf junk m spine leaf k = Inl Abort \<and>
      (\<exists>q. bind_res (GetRequest_new m k) (transmit GetRequest_serialize (GetRequest_data this m) buf) = Inr q \<and>
        pk_type q = GETREQ \<and> pk_key q = k)) \<and>
    (\<exists>q. transmit DelRequest_serialize (DelRequest_data this m) buf (DelRequest_new m k) = Inr q \<and>
        pk_type q = DELREQ \<and> pk_key q = k) \<and>
    (\<exists>q. transmit ScanRequest_serialize (ScanRequest_data this m) buf (ScanRequest_new m k e) = Inr q \<and>
        pk_type q = SCANREQ \<and> pk_key q = k \<and> pk_endkey q = e) \<and>
    (\<forall>p data. (GetRequest_new m k = Inr p \<or> GetRequest_new_spineleaf junk m spine leaf k = Inr p) \<and>
       datagram GetRequest_serialize p buf = Inr data \<longrightarrow> length data = ophdrsize m + (if m = DISTCACHE_ID then 10 else 0)) \<and>
    (\<forall>data. datagram DelRequest_serialize (DelRequest_new m k) buf = Inr data \<longrightarrow> length data = ophdrsize m) \<and>
    (\<forall>data. datagram ScanRequest_serialize (ScanRequest_new m k e) buf = Inr data \<longrightarrow> length data = ophdrsize m + 16) \<and>
    (\<forall>data. length data < ophdrsize m + (if m = DISTCACHE_ID then 10 else 0) \<longrightarrow> GetRequest_data this m data = Inl Abort) \<and>
    (\<forall>data. length data \<noteq> ophdrsize m \<longrightarrow> DelRequest_data this m data = Inl Abort) \<and>
    (\<forall>data. length data \<noteq> ophdrsize m + 16 \<longrightarrow> ScanRequest_data this m data = Inl Abort)"
proof -
  let ?g = "(packet_new m GETREQ k)\<lparr>pk_spineload := 0, pk_leafload := 0\<rparr>"
  let ?h = "(packet_new_spineleaf junk m GETREQ spine leaf k)\<lparr>pk_spineload := 0, pk_leafload := 0\<rparr>"
  note defs = transmit_def GetRequest_new_def GetRequest_new_spineleaf_def packet_new_def
    packet_new_spineleaf_def getreq_pat_def delreq_pat_def scanreq_pat_def getreq_members_def
    scanreq_members_def DelRequest_new_def ScanRequest_new_def
  have "bind_res (datagram GetRequest_serialize ?g buf) (GetRequest_data this m) =
      Inr (getreq_members ?g (packet_init m this))" if "m \<noteq> DISTCACHE_ID"
    using getreq.send_receive [of ?g buf any_method "\<lambda>p. pk_type p = GETREQ" this] assms that
    by (simp add: defs GetRequest_data_def)
  moreover have "bind_res (datagram GetRequest_serialize ?h buf) (GetRequest_data this m) =
      Inr (getreq_members ?h (packet_init m this))" if "m = DISTCACHE_ID"
    using getreq.send_receive [of ?h buf any_method "\<lambda>p. pk_type p = GETREQ" this] assms that
    by (simp add: defs GetRequest_data_def)
  moreover have "bind_res (datagram DelRequest_serialize (DelRequest_new m k) buf) (DelRequest_data this m) =
      Inr (copy_ophdr (DelRequest_new m k) (packet_init m this))"
    using delreq.send_receive [of "DelRequest_new m k" buf any_method "\<lambda>p. pk_type p = DELREQ" this] assms
    by (simp add: defs DelRequest_data_def)
  moreover have "bind_res (datagram ScanRequest_serialize (ScanRequest_new m k e) buf) (ScanRequest_data this m) =
      Inr (scanreq_members (ScanRequest_new m k e) (packet_init m this))"
    using scanreq.send_receive [of "ScanRequest_new m k e" buf any_method "\<lambda>p. pk_type p = SCANREQ" this] assms
    by (simp add: defs ScanRequest_data_def)
  moreover have "length data = ophdrsize m + (if m = DISTCACHE_ID then 10 else 0)"
    if "GetRequest_new m k = Inr p \<or> GetRequest_new_spineleaf junk m spine leaf k = Inr p"
      "datagram GetRequest_serialize p buf = Inr data" for p data
  proof -
    have "pk_methodid p = m" using that(1) by (auto simp: defs bind_res_eq_Inr)
    then show ?thesis using getreq.sent [of p buf] assms that(2) by (auto simp: getreq_pat_def)
  qed
  moreover have "length data = ophdrsize m" if "datagram DelRequest_serialize (DelRequest_new m k) buf = Inr data" for data
    using delreq.sent [of "DelRequest_new m k" buf] assms that by (auto simp: defs)
  moreover have "length data = ophdrsize m + 16" if "datagram ScanRequest_serialize (ScanRequest_new m k e) buf = Inr data" for data
    using scanreq.sent [of "ScanRequest_new m k e" buf] assms that by (auto simp: defs)
  moreover have "GetRequest_data this m data = Inl Abort" if "length data < ophdrsize m + (if m = DISTCACHE_ID then 10 else 0)" for data
    using assms that by (simp add: GetRequest_data_def receive_def GetRequest_deserialize_def size_checks GetRequest_size_def
      header_sizes_valid split: if_splits)
  moreover have "DelRequest_data this m data = Inl Abort" if "length data \<noteq> ophdrsize m" for data
    using assms that by (simp add: DelRequest_data_def receive_def DelRequest_deserialize_def size_checks DelRequest_size_def
      header_sizes_valid)
  moreover have "ScanRequest_data this m data = Inl Abort" if "length data \<noteq> ophdrsize m + 16" for data
    using assms that by (simp add: ScanRequest_data_def receive_def ScanRequest_deserialize_def size_checks
      ScanRequest_size_def header_sizes_valid)
  ultimately show ?thesis
    by (simp add: transmit_def GetRequest_new_def GetRequest_new_spineleaf_def getreq_members_def scanreq_members_def
        packet_new_def packet_new_spineleaf_def DelRequest_new_def ScanRequest_new_def copy_ophdr_def is_singleswitch_def)
qed

theorem request_roundtrip_witness:
  "(\<exists>q. bind_res (GetRequest_new FARREACH_ID key_max)
      (transmit GetRequest_serialize (GetRequest_data packet_default FARREACH_ID) (replicate 34 0)) = Inr q \<and>
      pk_key q = key_max) \<and>
   (\<exists>q. bind_res (GetRequest_new_spineleaf 7 DISTCACHE_ID 3 4 key_max)
      (transmit GetRequest_serialize (GetRequest_data packet_default DISTCACHE_ID) (replicate 38 0)) = Inr q \<and>
      pk_spineswitchidx q = 3 \<and> pk_leafswitchidx q = 4)"
  using request_roundtrip [of FARREACH_ID "replicate 34 0" key_max 7 3 4 packet_default key_max]
    request_roundtrip [of DISTCACHE_ID "replicate 38 0" key_max 7 3 4 packet_default key_max]
  by (auto simp: ophdrsize_def is_singleswitch_def)

text \<open>C27: a put request with a value of at most 128 bytes arrives with its key and value; a longer value
  is refused by the constructor, and the server's constructor refuses every datagram whose value
  is longer, in whatever way it was built.\<close>

theorem put_roundtrip:
  assumes "m \<noteq> INVALID_ID" "val_ok v" "ophdrsize m + 2 + unat (val_length v) + padding v + 2 \<le> length buf"
  shows "(if unat (val_length v) \<le> 128
     then \<exists>q. bind_res (PutRequest_new m k v) (transmit PutRequest_serialize (PutRequest_data this m) buf) = Inr q \<and>
       pk_type q = PUTREQ \<and> pk_key q = k \<and> pk_val q = v
     else PutRequest_new m k v = Inl Abort) \<and>
    (\<forall>data q. PutRequest_data this m data = Inr q \<longrightarrow> unat (val_length (pk_val q)) \<le> 128)"
proof -
  let ?p = "(packet_new m PUTREQ k)\<lparr>pk_val := v\<rparr>"
  have "bind_res (datagram PutRequest_serialize ?p buf) (PutRequest_data this m) =
      Inr (putreq_members ?p (packet_init m this))" if "unat (val_length v) \<le> 128"
    using putreq.send_receive [of ?p buf any_method
        "\<lambda>p. pk_type p = PUTREQ \<and> val_length (pk_val p) \<le> SWITCH_MAX_VALLEN" this] assms that
    by (simp add: PutRequest_data_def packet_new_def putreq_pat_def putreq_members_def sendable_val_def
        val_small_def val_pat_def length_val_body SWITCH_MAX_VALLEN_def word_le_nat_alt)
  then have "if unat (val_length v) \<le> 128
     then \<exists>q. bind_res (PutRequest_new m k v) (transmit PutRequest_serialize (PutRequest_data this m) buf) = Inr q \<and>
       pk_type q = PUTREQ \<and> pk_key q = k \<and> pk_val q = v
     else PutRequest_new m k v = Inl Abort"
    using val_copy_ok [OF assms(2)] by (simp add: PutRequest_new_def transmit_def putreq_members_def packet_new_def
        SWITCH_MAX_VALLEN_def word_le_nat_alt)
  moreover have "\<forall>data q. PutRequest_data this m data = Inr q \<longrightarrow> unat (val_length (pk_val q)) \<le> 128"
    by (auto simp: PutRequest_data_def receive_def bind_res_eq_Inr SWITCH_MAX_VALLEN_def word_le_nat_alt)
  ultimately show ?thesis by blast
qed

theorem put_roundtrip_witness:
  "\<exists>q. bind_res (PutRequest_new FARREACH_ID key_max \<lparr>val_length = 3, val_data = Some [1, 2, 3]\<rparr>)
      (transmit PutRequest_serialize (PutRequest_data packet_default FARREACH_ID) (replicate 40 0)) = Inr q \<and>
      pk_val q = \<lparr>val_length = 3, val_data = Some [1, 2, 3]\<rparr>"
  using put_roundtrip [of FARREACH_ID "\<lparr>val_length = 3, val_data = Some [1, 2, 3]\<rparr>" "replicate 40 0" key_max packet_default]
  by (auto simp: val_ok_def padding_def ophdrsize_def is_singleswitch_def)

text \<open>C26: load requests and put requests with a value longer than 128 bytes arrive with their key, value
  and client index, and \<^verbatim>\<open>dynamic_serialize\<close> stores the bytes of \<^verbatim>\<open>serialize\<close>; but the received
  fragment sequence number is the upper half of the sent one, so a number below 65536 arrives as 0.\<close>

theorem large_request_roundtrip:
  assumes "m \<noteq> INVALID_ID" "val_ok v" "unat (val_length v) < 2 ^ 31"
    "ophdrsize m + 10 + unat (val_length v) + padding v \<le> length buf"
    "da_ok d" "da_bytes d = []" "int (ophdrsize m + 10 + unat (val_length v) + padding v) \<le> da_maxcapability d"
  shows "(\<exists>p q data d'. LoadRequest_new m k v c f = Inr p \<and> datagram LoadRequest_serialize p buf = Inr data \<and>
      LoadRequest_data this m data = Inr q \<and> pk_type q = LOADREQ \<and> pk_key q = k \<and> pk_val q = v \<and>
      pk_client_logical_idx q = c \<and> pk_fragseq q = drop_bit 16 f \<and>
      LoadRequest_dynamic_serialize p d = Inr (d', int (length data)) \<and> da_bytes d' = data) \<and>
    (if 128 < unat (val_length v)
     then \<exists>p q data d'. PutRequestLargevalue_new junk m k v c f = Inr p \<and>
      datagram PutRequestLargevalue_serialize p buf = Inr data \<and>
      PutRequestLargevalue_data this m data = Inr q \<and> pk_type q = PUTREQ_LARGEVALUE \<and> pk_key q = k \<and> pk_val q = v \<and>
      pk_client_logical_idx q = c \<and> pk_fragseq q = drop_bit 16 f \<and>
      PutRequestLargevalue_dynamic_serialize p d = Inr (d', int (length data)) \<and> da_bytes d' = data
     else PutRequestLargevalue_new junk m k v c f = Inl Abort) \<and>
    (f < 65536 \<longrightarrow> drop_bit 16 f = 0)"
proof -
  define l where "l = (packet_new m LOADREQ k)\<lparr>pk_val := v, pk_client_logical_idx := c, pk_fragseq := f\<rparr>"
  define b where "b = (packet_new_spineleaf junk m PUTREQ_LARGEVALUE 0 0 k)\<lparr>pk_val := v, pk_client_logical_idx := c, pk_fragseq := f\<rparr>"
  have small: "f < 65536 \<longrightarrow> drop_bit 16 f = 0"
    by (simp add: drop_bit_eq_div word_less_nat_alt word_arith_nat_div)
  have l: "sendable_large l" "pk_methodid l = m" "pk_type l = LOADREQ" "pk_val l = v"
    and b: "sendable_large b" "pk_methodid b = m" "pk_type b = PUTREQ_LARGEVALUE" "pk_val b = v"
    using assms(1,2) by (simp_all add: l_def b_def sendable_large_def packet_new_def packet_new_spineleaf_def)
  have len: "length (large_bytes l) = ophdrsize m + 10 + unat (val_length v) + padding v"
    "length (large_bytes b) = ophdrsize m + 10 + unat (val_length v) + padding v"
    using large_length [of l] large_length [of b] l b assms(2) by simp_all
  obtain d1 where load: "datagram LoadRequest_serialize l buf = Inr (large_bytes l)"
      "LoadRequest_data this m (large_bytes l) = Inr (large_members l (packet_init m this))"
      "LoadRequest_dynamic_serialize l d = Inr (d1, int (length (large_bytes l)))" "da_bytes d1 = large_bytes l"
    using load_arrives [OF l(1), of buf d this] l len assms by auto
  have big: "\<exists>d'. datagram PutRequestLargevalue_serialize b buf = Inr (large_bytes b) \<and>
      PutRequestLargevalue_data this m (large_bytes b) = Inr (large_members b (packet_init m this)) \<and>
      PutRequestLargevalue_dynamic_serialize b d = Inr (d', int (length (large_bytes b))) \<and> da_bytes d' = large_bytes b"
    if "128 < unat (val_length v)"
    using putlarge_arrives [OF b(1), of buf d this] b len assms that by auto
  have "LoadRequest_new m k v c f = Inr l"
    using val_copy_ok [OF assms(2)] by (simp add: LoadRequest_new_def l_def)
  with load have 1: "\<exists>p q data d'. LoadRequest_new m k v c f = Inr p \<and> datagram LoadRequest_serialize p buf = Inr data \<and>
      LoadRequest_data this m data = Inr q \<and> pk_type q = LOADREQ \<and> pk_key q = k \<and> pk_val q = v \<and>
      pk_client_logical_idx q = c \<and> pk_fragseq q = drop_bit 16 f \<and>
      LoadRequest_dynamic_serialize p d = Inr (d', int (length data)) \<and> da_bytes d' = data"
    by (intro exI [of _ l] exI [of _ "large_members l (packet_init m this)"] exI [of _ "large_bytes l"] exI [of _ d1])
      (simp add: l_def packet_new_def)
  have "PutRequestLargevalue_new junk m k v c f = (if 128 < unat (val_length v) then Inr b else Inl Abort)"
    using val_copy_ok [OF assms(2)] by (simp add: PutRequestLargevalue_new_def b_def SWITCH_MAX_VALLEN_def word_less_nat_alt)
  with big 1 small show ?thesis
    by (cases "128 < unat (val_length v)") (fastforce simp: b_def packet_new_spineleaf_def)+
qed

theorem large_request_roundtrip_witness:
  "\<exists>p q data d'. LoadRequest_new FARREACH_ID key_max \<lparr>val_length = 3, val_data = Some [1, 2, 3]\<rparr> 5 70000 = Inr p \<and>
     datagram LoadRequest_serialize p (replicate 40 0) = Inr data \<and>
     LoadRequest_data packet_default FARREACH_ID data = Inr q \<and> pk_fragseq q = 1"
proof -
  obtain d where d: "da_new 2 64 = Inr d" "da_ok d" "da_bytes d = []" "da_maxcapability d = 64"
    using da_ok_init [of 2 64] by auto
  then show ?thesis
    using large_request_roundtrip [of FARREACH_ID "\<lparr>val_length = 3, val_data = Some [1, 2, 3]\<rparr>" "replicate 40 0" d
      key_max 5 70000 packet_default 0]
    by (fastforce simp: val_ok_def padding_def ophdrsize_def is_singleswitch_def drop_bit_eq_div)
qed

end
