(* ===== verification/Packet_Res.thy ===== *)
theory Packet_Res
  imports Packet_Req
begin

text \<open>
  The responses of servers and switches: get, put and delete responses with and without a sequence
  number, and get responses with a large value (src/common/packet_format_impl.h).
\<close>

section \<open>GetResponse\<close>

definition GetResponse_new :: "method_id \<Rightarrow> net_key \<Rightarrow> net_val \<Rightarrow> bool \<Rightarrow> u16 \<Rightarrow> packet res" where
  "GetResponse_new m k v stat nodeidx = bind_res (val_copy v) (\<lambda>v.
     bind_res (invariant (val_length v \<le> SWITCH_MAX_VALLEN)) (\<lambda>_.
     Inr ((packet_new m GETRES k)\<lparr>pk_val := v, pk_stat := stat, pk_nodeidx := nodeidx, pk_spineload := 0, pk_leafload := 0\<rparr>)))"

definition GetResponse_serialize :: "packet \<Rightarrow> writer" where
  "GetResponse_serialize p = wseq [
     serialize_ophdr p, val_serialize (pk_val p), serialize_packet_type (pk_type p), put_bool (pk_stat p),
     put16_be (pk_nodeidx p), skip_res (get_stat_padding_bytes (pk_methodid p)),
     wif (pk_methodid p = DISTCACHE_ID) [put32_be (pk_spineload p), put32_be (pk_leafload p)]]"

definition GetResponse_deserialize :: "packet \<Rightarrow> byte list \<Rightarrow> packet res" where
  "GetResponse_deserialize = run (rseq [
     deserialize_ophdr, rdval pk_val_update, rskip 2, rdbool pk_stat_update, rd16 pk_nodeidx_update,
     rskip_res get_stat_padding_bytes,
     rif (\<lambda>m. m = DISTCACHE_ID) [rd32 pk_spineload_update, rd32 pk_leafload_update]])"

definition GetResponse_data :: "packet \<Rightarrow> method_id \<Rightarrow> byte list \<Rightarrow> packet res" where
  "GetResponse_data = receive any_method GetResponse_deserialize
     (\<lambda>p. pk_type p = GETRES \<and> val_length (pk_val p) \<le> SWITCH_MAX_VALLEN)"

definition getres_pat :: "packet \<Rightarrow> pattern" where
  "getres_pat p = concat [
     ophdr_pat p, bytes_pat (val_pat (pk_val p)), be16_pat (pk_type p),
     bytes_pat [if pk_stat p then 1 else 0], be16_pat (pk_nodeidx p), gap_pat 1,
     if pk_methodid p = DISTCACHE_ID then concat [be32_pat (pk_spineload p), be32_pat (pk_leafload p)] else []]"

definition getres_members :: "packet \<Rightarrow> packet \<Rightarrow> packet" where
  "getres_members p this = (let q = (copy_ophdr p this)\<lparr>pk_val := pk_val p, pk_stat := pk_stat p, pk_nodeidx := pk_nodeidx p\<rparr> in
      if pk_methodid p = DISTCACHE_ID then q\<lparr>pk_spineload := pk_spineload p, pk_leafload := pk_leafload p\<rparr> else q)"

interpretation getres: packet_codec GetResponse_serialize GetResponse_deserialize getres_pat sendable_val getres_members
  unfolding GetResponse_deserialize_def
  by (rule packet_codec_run)
    (unfold GetResponse_serialize_def getres_pat_def sendable_val_def,
      (intro packet_emits; simp add: header_sizes_valid),
      (rule packet_parses | simp add: getres_members_def header_sizes_valid Let_def)+)

text \<open>\<^verbatim>\<open>GetResponseServer\<close>: the server's answer behind a spine switch.\<close>

definition GetResponseServer_new :: "method_id \<Rightarrow> net_key \<Rightarrow> net_val \<Rightarrow> bool \<Rightarrow> u16 \<Rightarrow> packet res" where
  "GetResponseServer_new m k v stat nodeidx =
     bind_res (GetResponse_new m k v stat nodeidx) (\<lambda>p.
     bind_res (invariant (m = DISTFARREACH_ID \<or> m = DISTNOCACHE_ID)) (\<lambda>_.
     Inr (p\<lparr>pk_type := GETRES_SERVER\<rparr>)))"

definition GetResponseServer_new_spineleaf ::
    "method_id \<Rightarrow> switchidx \<Rightarrow> switchidx \<Rightarrow> net_key \<Rightarrow> net_val \<Rightarrow> bool \<Rightarrow> u16 \<Rightarrow> u32 \<Rightarrow> u32 \<Rightarrow> packet res" where
  "GetResponseServer_new_spineleaf m spine leaf k v stat nodeidx spineload leafload =
     bind_res (GetResponse_new m k v stat nodeidx) (\<lambda>p.
     bind_res (invariant (m = DISTCACHE_ID)) (\<lambda>_.
     Inr (p\<lparr>pk_type := GETRES_SERVER, pk_spineswitchidx := spine, pk_leafswitchidx := leaf,
       pk_spineload := spineload, pk_leafload := leafload\<rparr>)))"

section \<open>GetResponseSeq and the classes derived from it\<close>

abbreviation farreach_method :: "method_id \<Rightarrow> bool" where
  "farreach_method m \<equiv> m = FARREACH_ID \<or> m = DISTFARREACH_ID"

definition GetResponseSeq_new :: "method_id \<Rightarrow> net_key \<Rightarrow> net_val \<Rightarrow> u32 \<Rightarrow> bool \<Rightarrow> u16 \<Rightarrow> packet res" where
  "GetResponseSeq_new m k v seq stat nodeidx =
     bind_res (GetResponse_new m k v stat nodeidx) (\<lambda>p.
     bind_res (invariant (farreach_method m)) (\<lambda>_.
     Inr (p\<lparr>pk_seq := seq, pk_type := GETRES_SEQ\<rparr>)))"

definition GetResponseSeq_serialize :: "packet \<Rightarrow> writer" where
  "GetResponseSeq_serialize p = wseq [
     serialize_ophdr p, val_serialize (pk_val p), serialize_packet_type (pk_type p), put32_be (pk_seq p),
     wif (pk_methodid p = FARREACH_ID) [zero_bytes 4], put_bool (pk_stat p), put16_be (pk_nodeidx p),
     skip_res (get_stat_padding_bytes (pk_methodid p))]"

definition GetResponseSeq_deserialize :: "packet \<Rightarrow> byte list \<Rightarrow> packet res" where
  "GetResponseSeq_deserialize = run (rseq [
     deserialize_ophdr, rdval pk_val_update, rskip 2, rd32 pk_seq_update,
     rif (\<lambda>m. m = FARREACH_ID) [rskip 4], rdbool pk_stat_update, rd16 pk_nodeidx_update,
     rskip_res get_stat_padding_bytes])"

definition GetResponseSeq_data :: "packet \<Rightarrow> method_id \<Rightarrow> byte list \<Rightarrow> packet res" where
  "GetResponseSeq_data = receive (farreach_method) GetResponseSeq_deserialize
     (\<lambda>p. pk_type p = GETRES_SEQ \<and> val_length (pk_val p) \<le> SWITCH_MAX_VALLEN)"

definition getseq_pat :: "packet \<Rightarrow> pattern" where
  "getseq_pat p = concat [
     ophdr_pat p, bytes_pat (val_pat (pk_val p)), be16_pat (pk_type p), be32_pat (pk_seq p),
     if pk_methodid p = FARREACH_ID then concat [bytes_pat (replicate 4 0)] else [],
     bytes_pat [if pk_stat p then 1 else 0], be16_pat (pk_nodeidx p), gap_pat 1]"

definition getseq_members :: "packet \<Rightarrow> packet \<Rightarrow> packet" where
  "getseq_members p this = (copy_ophdr p this)\<lparr>pk_val := pk_val p, pk_seq := pk_seq p, pk_stat := pk_stat p, pk_nodeidx := pk_nodeidx p\<rparr>"

interpretation getseq: packet_codec GetResponseSeq_serialize GetResponseSeq_deserialize getseq_pat sendable_val getseq_members
  unfolding GetResponseSeq_deserialize_def
  by (rule packet_codec_run)
    (unfold GetResponseSeq_serialize_def getseq_pat_def sendable_val_def,
      (intro packet_emits; simp add: header_sizes_valid),
      (rule packet_parses | simp add: getseq_members_def header_sizes_valid Let_def)+)

definition GetResponseServerSeq_new :: "method_id \<Rightarrow> net_key \<Rightarrow> net_val \<Rightarrow> u32 \<Rightarrow> bool \<Rightarrow> u16 \<Rightarrow> packet res" where
  "GetResponseServerSeq_new m k v seq stat nodeidx =
     bind_res (GetResponseSeq_new m k v seq stat nodeidx) (\<lambda>p.
     bind_res (invariant (m = DISTFARREACH_ID)) (\<lambda>_. Inr (p\<lparr>pk_type := GETRES_SERVER_SEQ\<rparr>)))"

definition GetResponseServerSeq_data :: "packet \<Rightarrow> method_id \<Rightarrow> byte list \<Rightarrow> packet res" where
  "GetResponseServerSeq_data = receive (\<lambda>m. m = DISTFARREACH_ID) GetResponseSeq_deserialize
     (\<lambda>p. pk_type p = GETRES_SERVER_SEQ \<and> val_length (pk_val p) \<le> SWITCH_MAX_VALLEN)"

text \<open>Two requests come from the switch in the layout of a response, with the record the switch holds;
  serializing them ends the process.\<close>

definition GetRequestBeingevictedRecord_data :: "packet \<Rightarrow> method_id \<Rightarrow> byte list \<Rightarrow> packet res" where
  "GetRequestBeingevictedRecord_data = receive (farreach_method) GetResponseSeq_deserialize
     (\<lambda>p. pk_type p = GETREQ_BEINGEVICTED_RECORD \<and> val_length (pk_val p) \<le> SWITCH_MAX_VALLEN)"

definition GetRequestLargevalueblockRecord_data :: "packet \<Rightarrow> method_id \<Rightarrow> byte list \<Rightarrow> packet res" where
  "GetRequestLargevalueblockRecord_data = receive (farreach_method) GetResponseSeq_deserialize
     (\<lambda>p. pk_type p = GETREQ_LARGEVALUEBLOCK_RECORD \<and> val_length (pk_val p) \<le> SWITCH_MAX_VALLEN)"

definition GetRequestBeingevictedRecord_serialize :: "packet \<Rightarrow> writer" where
  "GetRequestBeingevictedRecord_serialize p s = Inl Exit"

definition GetRequestLargevalueblockRecord_serialize :: "packet \<Rightarrow> writer" where
  "GetRequestLargevalueblockRecord_serialize p s = Inl Exit"

section \<open>PutResponse and DelResponse\<close>

definition PutResponse_new :: "method_id \<Rightarrow> net_key \<Rightarrow> bool \<Rightarrow> u16 \<Rightarrow> packet" where
  "PutResponse_new m k stat nodeidx = (packet_new m PUTRES k)\<lparr>pk_stat := stat, pk_nodeidx := nodeidx\<rparr>"

definition PutResponse_size :: "method_id \<Rightarrow> nat res" where
  "PutResponse_size m = bind_res (get_ophdrsize m) (\<lambda>size. bind_res (get_stat_padding_bytes m) (\<lambda>pad.
     Inr (size + 2 + 1 + 2 + pad)))"

definition PutResponse_serialize :: "packet \<Rightarrow> writer" where
  "PutResponse_serialize p = wseq [
     with_res (PutResponse_size (pk_methodid p)) require_space, serialize_ophdr p,
     serialize_packet_type (pk_type p), put_bool (pk_stat p), put16_be (pk_nodeidx p),
     skip_res (get_stat_padding_bytes (pk_methodid p))]"

definition PutResponse_deserialize :: "packet \<Rightarrow> byte list \<Rightarrow> packet res" where
  "PutResponse_deserialize = run_atleast PutResponse_size (rseq [
     deserialize_ophdr, rskip 2, rdbool pk_stat_update, rd16 pk_nodeidx_update,
     rskip_res get_stat_padding_bytes])"

definition PutResponse_data :: "packet \<Rightarrow> method_id \<Rightarrow> byte list \<Rightarrow> packet res" where
  "PutResponse_data = receive any_method PutResponse_deserialize
     (\<lambda>p. pk_type p = PUTRES)"

definition putres_pat :: "packet \<Rightarrow> pattern" where
  "putres_pat p = concat [
     ophdr_pat p, be16_pat (pk_type p), bytes_pat [if pk_stat p then 1 else 0], be16_pat (pk_nodeidx p),
     gap_pat 1]"

definition putres_members :: "packet \<Rightarrow> packet \<Rightarrow> packet" where
  "putres_members p this = (copy_ophdr p this)\<lparr>pk_stat := pk_stat p, pk_nodeidx := pk_nodeidx p\<rparr>"

lemma emits_putres: "sendable p \<Longrightarrow> emits (PutResponse_serialize p) (putres_pat p)"
  unfolding PutResponse_serialize_def putres_pat_def
  by (intro emits_size_check packet_emits) (auto simp: PutResponse_size_def header_sizes_valid)

interpretation putres: packet_codec PutResponse_serialize PutResponse_deserialize putres_pat sendable putres_members
  unfolding PutResponse_deserialize_def
  by (rule packet_codec_atleast [OF emits_putres, where n = "\<lambda>p. length (putres_pat p)"])
    (unfold putres_pat_def,
      (rule packet_parses | simp add: PutResponse_size_def header_sizes_valid putres_members_def Let_def)+)

definition PutResponseSeq_new :: "method_id \<Rightarrow> net_key \<Rightarrow> u32 \<Rightarrow> bool \<Rightarrow> u16 \<Rightarrow> packet res" where
  "PutResponseSeq_new m k seq stat nodeidx = bind_res (invariant (farreach_method m)) (\<lambda>_.
     Inr ((PutResponse_new m k stat nodeidx)\<lparr>pk_seq := seq, pk_type := PUTRES_SEQ\<rparr>))"

definition PutResponseSeq_size :: "method_id \<Rightarrow> nat res" where
  "PutResponseSeq_size m = bind_res (get_ophdrsize m) (\<lambda>size. bind_res (get_stat_padding_bytes m) (\<lambda>pad.
     Inr (size + 2 + 4 + 1 + 2 + pad + (if m = FARREACH_ID then 4 else 0))))"

definition PutResponseSeq_serialize :: "packet \<Rightarrow> writer" where
  "PutResponseSeq_serialize p = wseq [
     with_res (PutResponseSeq_size (pk_methodid p)) require_space, serialize_ophdr p,
     serialize_packet_type (pk_type p), put32_be (pk_seq p),
     wif (pk_methodid p = FARREACH_ID) [zero_bytes 4], put_bool (pk_stat p), put16_be (pk_nodeidx p),
     skip_res (get_stat_padding_bytes (pk_methodid p))]"

definition PutResponseSeq_deserialize :: "packet \<Rightarrow> byte list \<Rightarrow> packet res" where
  "PutResponseSeq_deserialize = run_atleast PutResponseSeq_size (rseq [
     deserialize_ophdr, rskip 2, rd32 pk_seq_update, rif (\<lambda>m. m = FARREACH_ID) [rskip 4],
     rdbool pk_stat_update, rd16 pk_nodeidx_update, rskip_res get_stat_padding_bytes])"

definition PutResponseSeq_data :: "packet \<Rightarrow> method_id \<Rightarrow> byte list \<Rightarrow> packet res" where
  "PutResponseSeq_data = receive (farreach_method) PutResponseSeq_deserialize
     (\<lambda>p. pk_type p = PUTRES_SEQ)"

definition putseqres_pat :: "packet \<Rightarrow> pattern" where
  "putseqres_pat p = concat [
     ophdr_pat p, be16_pat (pk_type p), be32_pat (pk_seq p),
     if pk_methodid p = FARREACH_ID then concat [bytes_pat (replicate 4 0)] else [],
     bytes_pat [if pk_stat p then 1 else 0], be16_pat (pk_nodeidx p), gap_pat 1]"

definition putseqres_members :: "packet \<Rightarrow> packet \<Rightarrow> packet" where
  "putseqres_members p this = (copy_ophdr p this)\<lparr>pk_seq := pk_seq p, pk_stat := pk_stat p, pk_nodeidx := pk_nodeidx p\<rparr>"

lemma emits_putseqres: "sendable p \<Longrightarrow> emits (PutResponseSeq_serialize p) (putseqres_pat p)"
  unfolding PutResponseSeq_serialize_def putseqres_pat_def
  by (intro emits_size_check packet_emits) (auto simp: PutResponseSeq_size_def header_sizes_valid)

interpretation putseqres: packet_codec PutResponseSeq_serialize PutResponseSeq_deserialize putseqres_pat sendable putseqres_members
  unfolding PutResponseSeq_deserialize_def
  by (rule packet_codec_atleast [OF emits_putseqres, where n = "\<lambda>p. length (putseqres_pat p)"])
    (unfold putseqres_pat_def,
      (rule packet_parses | simp add: PutResponseSeq_size_def header_sizes_valid putseqres_members_def Let_def)+)

definition PutResponseServer_new :: "method_id \<Rightarrow> net_key \<Rightarrow> bool \<Rightarrow> u16 \<Rightarrow> packet res" where
  "PutResponseServer_new m k stat nodeidx = bind_res (invariant (\<not> is_singleswitch m)) (\<lambda>_.
     Inr ((PutResponse_new m k stat nodeidx)\<lparr>pk_type := PUTRES_SERVER\<rparr>))"

definition PutResponseServerSeq_new :: "method_id \<Rightarrow> net_key \<Rightarrow> u32 \<Rightarrow> bool \<Rightarrow> u16 \<Rightarrow> packet res" where
  "PutResponseServerSeq_new m k seq stat nodeidx = bind_res (PutResponseSeq_new m k seq stat nodeidx) (\<lambda>p.
     bind_res (invariant (m = DISTFARREACH_ID)) (\<lambda>_. Inr (p\<lparr>pk_type := PUTRES_SERVER_SEQ\<rparr>)))"

definition PutResponseServerSeq_data :: "packet \<Rightarrow> method_id \<Rightarrow> byte list \<Rightarrow> packet res" where
  "PutResponseServerSeq_data = receive (\<lambda>m. m = DISTFARREACH_ID) PutResponseSeq_deserialize
     (\<lambda>p. pk_type p = PUTRES_SERVER_SEQ)"

definition DelResponse_new :: "method_id \<Rightarrow> net_key \<Rightarrow> bool \<Rightarrow> u16 \<Rightarrow> packet" where
  "DelResponse_new m k stat nodeidx = (packet_new m DELRES k)\<lparr>pk_stat := stat, pk_nodeidx := nodeidx\<rparr>"

definition DelResponse_size :: "method_id \<Rightarrow> nat res" where
  "DelResponse_size m = bind_res (get_ophdrsize m) (\<lambda>size. bind_res (get_stat_padding_bytes m) (\<lambda>pad.
     Inr (size + 2 + 1 + 2 + pad)))"

definition DelResponse_serialize :: "packet \<Rightarrow> writer" where
  "DelResponse_serialize p = wseq [
     with_res (DelResponse_size (pk_methodid p)) require_space, serialize_ophdr p,
     serialize_packet_type (pk_type p), put_bool (pk_stat p), put16_be (pk_nodeidx p),
     skip_res (get_stat_padding_bytes (pk_methodid p))]"

definition DelResponse_deserialize :: "packet \<Rightarrow> byte list \<Rightarrow> packet res" where
  "DelResponse_deserialize = run_atleast DelResponse_size (rseq [
     deserialize_ophdr, rskip 2, rdbool pk_stat_update, rd16 pk_nodeidx_update,
     rskip_res get_stat_padding_bytes])"

definition DelResponse_data :: "packet \<Rightarrow> method_id \<Rightarrow> byte list \<Rightarrow> packet res" where
  "DelResponse_data = receive any_method DelResponse_deserialize
     (\<lambda>p. pk_type p = DELRES)"

lemma emits_delres: "sendable p \<Longrightarrow> emits (DelResponse_serialize p) (putres_pat p)"
  unfolding DelResponse_serialize_def putres_pat_def
  by (intro emits_size_check packet_emits) (auto simp: DelResponse_size_def header_sizes_valid)

interpretation delres: packet_codec DelResponse_serialize DelResponse_deserialize putres_pat sendable putres_members
  unfolding DelResponse_deserialize_def
  by (rule packet_codec_atleast [OF emits_delres, where n = "\<lambda>p. length (putres_pat p)"])
    (unfold putres_pat_def,
      (rule packet_parses | simp add: DelResponse_size_def header_sizes_valid putres_members_def Let_def)+)

definition DelResponseSeq_new :: "method_id \<Rightarrow> net_key \<Rightarrow> u32 \<Rightarrow> bool \<Rightarrow> u16 \<Rightarrow> packet res" where
  "DelResponseSeq_new m k seq stat nodeidx = bind_res (PutResponseSeq_new m k seq stat nodeidx) (\<lambda>p.
     Inr (p\<lparr>pk_type := DELRES_SEQ\<rparr>))"

definition DelResponseSeq_data :: "packet \<Rightarrow> method_id \<Rightarrow> byte list \<Rightarrow> packet res" where
  "DelResponseSeq_data = receive (farreach_method) PutResponseSeq_deserialize
     (\<lambda>p. pk_type p = DELRES_SEQ)"

definition DelResponseServer_new :: "method_id \<Rightarrow> net_key \<Rightarrow> bool \<Rightarrow> u16 \<Rightarrow> packet res" where
  "DelResponseServer_new m k stat nodeidx = bind_res (invariant (\<not> is_singleswitch m)) (\<lambda>_.
     Inr ((DelResponse_new m k stat nodeidx)\<lparr>pk_type := DELRES_SERVER\<rparr>))"

definition DelResponseServerSeq_new :: "method_id \<Rightarrow> net_key \<Rightarrow> u32 \<Rightarrow> bool \<Rightarrow> u16 \<Rightarrow> packet res" where
  "DelResponseServerSeq_new m k seq stat nodeidx = bind_res (DelResponseSeq_new m k seq stat nodeidx) (\<lambda>p.
     bind_res (invariant (m = DISTFARREACH_ID)) (\<lambda>_. Inr (p\<lparr>pk_type := DELRES_SERVER_SEQ\<rparr>)))"

definition DelResponseServerSeq_data :: "packet \<Rightarrow> method_id \<Rightarrow> byte list \<Rightarrow> packet res" where
  "DelResponseServerSeq_data = receive (\<lambda>m. m = DISTFARREACH_ID) PutResponseSeq_deserialize
     (\<lambda>p. pk_type p = DELRES_SERVER_SEQ)"

section \<open>GetResponseLargevalue\<close>

definition GetResponseLargevalue_new :: "u16 \<Rightarrow> method_id \<Rightarrow> net_key \<Rightarrow> net_val \<Rightarrow> bool \<Rightarrow> u16 \<Rightarrow> packet res" where
  "GetResponseLargevalue_new junk m k v stat nodeidx = bind_res (val_copy v) (\<lambda>v.
     bind_res (invariant (val_length v > SWITCH_MAX_VALLEN)) (\<lambda>_.
     Inr ((packet_new_spineleaf junk m GETRES_LARGEVALUE 0 0 k)\<lparr>pk_val := v, pk_stat := stat, pk_nodeidx := nodeidx,
       pk_spineload := 0, pk_leafload := 0\<rparr>)))"

definition GetResponseLargevalue_size :: "method_id \<Rightarrow> nat res" where
  "GetResponseLargevalue_size m = bind_res (get_ophdrsize m) (\<lambda>size. bind_res (get_stat_padding_bytes m) (\<lambda>pad.
     Inr (size + 4 + unat SWITCH_MAX_VALLEN + 1 + 2 + pad + (if m = DISTCACHE_ID then 4 + 4 else 0))))"

definition GetResponseLargevalue_get_frag_hdrsize :: "method_id \<Rightarrow> nat res" where
  "GetResponseLargevalue_get_frag_hdrsize m = get_ophdrsize m"

definition GetResponseLargevalue_serialize :: "packet \<Rightarrow> writer" where
  "GetResponseLargevalue_serialize p = wseq [
     with_res (GetResponseLargevalue_size (pk_methodid p)) require_space, serialize_ophdr p,
     val_serialize_large (pk_val p), put_bool (pk_stat p), put16_be (pk_nodeidx p),
     skip_res (get_stat_padding_bytes (pk_methodid p)),
     wif (pk_methodid p = DISTCACHE_ID) [put32_be (pk_spineload p), put32_be (pk_leafload p)]]"

text \<open>\<^verbatim>\<open>tmpoff += n\<close> without a write.\<close>

definition dskip :: "nat res \<Rightarrow> dwriter" where
  "dskip r s = (case s of (d, off) \<Rightarrow> bind_res r (\<lambda>n. Inr (d, off + int n)))"

definition bool_byte :: "bool \<Rightarrow> byte list" where
  "bool_byte b = [if b then 1 else 0]"

definition GetResponseLargevalue_dynamic_serialize :: "packet \<Rightarrow> dyn_array \<Rightarrow> (dyn_array \<times> int) res" where
  "GetResponseLargevalue_dynamic_serialize p d = dseq ([
     dophdr p, dput_val_large (pk_val p), dput (bool_byte (pk_stat p)), dput (le16 (htons (pk_nodeidx p))),
     dskip (get_stat_padding_bytes (pk_methodid p))] @
     (if pk_methodid p = DISTCACHE_ID then [dput (le32 (htonl (pk_spineload p))), dput (le32 (htonl (pk_leafload p)))]
      else [])) (d, 0)"

definition GetResponseLargevalue_deserialize :: "packet \<Rightarrow> byte list \<Rightarrow> packet res" where
  "GetResponseLargevalue_deserialize = run_atleast GetResponseLargevalue_size (rseq [
     deserialize_ophdr, rdval_large pk_val_update, rdbool pk_stat_update, rd16 pk_nodeidx_update,
     rskip_res get_stat_padding_bytes,
     rif (\<lambda>m. m = DISTCACHE_ID) [rd32 pk_spineload_update, rd32 pk_leafload_update]])"

definition GetResponseLargevalue_data :: "packet \<Rightarrow> method_id \<Rightarrow> byte list \<Rightarrow> packet res" where
  "GetResponseLargevalue_data = receive any_method GetResponseLargevalue_deserialize
     (\<lambda>p. pk_type p = GETRES_LARGEVALUE \<and> val_length (pk_val p) > SWITCH_MAX_VALLEN)"

definition getlarge_pat :: "packet \<Rightarrow> pattern" where
  "getlarge_pat p = concat [
     ophdr_pat p, bytes_pat (val_pat_large (pk_val p)), bytes_pat [if pk_stat p then 1 else 0],
     be16_pat (pk_nodeidx p), gap_pat 1,
     if pk_methodid p = DISTCACHE_ID then concat [be32_pat (pk_spineload p), be32_pat (pk_leafload p)] else []]"

definition getlarge_members :: "packet \<Rightarrow> packet \<Rightarrow> packet" where
  "getlarge_members p this = (let q = (copy_ophdr p this)\<lparr>pk_val := pk_val p, pk_stat := pk_stat p, pk_nodeidx := pk_nodeidx p\<rparr> in
      if pk_methodid p = DISTCACHE_ID then q\<lparr>pk_spineload := pk_spineload p, pk_leafload := pk_leafload p\<rparr> else q)"

lemma emits_getlarge: "sendable_big p \<Longrightarrow> emits (GetResponseLargevalue_serialize p) (getlarge_pat p)"
  using big_pat_length [of p] unfolding GetResponseLargevalue_serialize_def getlarge_pat_def
  by (intro emits_size_check packet_emits)
    (auto simp: GetResponseLargevalue_size_def header_sizes_valid sendable_big_def sendable_big_def SWITCH_MAX_VALLEN_def)

interpretation getlarge: packet_codec GetResponseLargevalue_serialize GetResponseLargevalue_deserialize getlarge_pat sendable_big getlarge_members
  unfolding GetResponseLargevalue_deserialize_def
  apply (rule packet_codec_atleast [OF emits_getlarge, where n = "\<lambda>p. ophdrsize (pk_methodid p) + 136 + (if pk_methodid p = DISTCACHE_ID then 8 else 0)"])
    apply assumption
  subgoal for p using big_pat_length [of p]
    by (auto simp: GetResponseLargevalue_size_def header_sizes_valid sendable_big_def sendable_big_def SWITCH_MAX_VALLEN_def getlarge_pat_def)
  unfolding getlarge_pat_def sendable_big_def sendable_big_def
  by (rule packet_parses | simp add: getlarge_members_def Let_def header_sizes_valid; blast?)+

definition GetResponseLargevalueSeq_new ::
    "u16 \<Rightarrow> method_id \<Rightarrow> net_key \<Rightarrow> net_val \<Rightarrow> u32 \<Rightarrow> bool \<Rightarrow> u16 \<Rightarrow> packet res" where
  "GetResponseLargevalueSeq_new junk m k v seq stat nodeidx =
     bind_res (GetResponseLargevalue_new junk m k v stat nodeidx) (\<lambda>p.
     bind_res (invariant (farreach_method m)) (\<lambda>_.
     Inr (p\<lparr>pk_seq := seq, pk_type := GETRES_LARGEVALUE_SEQ\<rparr>)))"

definition GetResponseLargevalueSeq_size :: "method_id \<Rightarrow> nat res" where
  "GetResponseLargevalueSeq_size m = bind_res (get_ophdrsize m) (\<lambda>size. bind_res (get_stat_padding_bytes m) (\<lambda>pad.
     Inr (size + 4 + unat SWITCH_MAX_VALLEN + 4 + 1 + 2 + pad)))"

definition GetResponseLargevalueSeq_get_frag_hdrsize :: "method_id \<Rightarrow> nat res" where
  "GetResponseLargevalueSeq_get_frag_hdrsize m = get_ophdrsize m"

definition GetResponseLargevalueSeq_dynamic_serialize :: "packet \<Rightarrow> dyn_array \<Rightarrow> (dyn_array \<times> int) res" where
  "GetResponseLargevalueSeq_dynamic_serialize p d = dseq [
     dophdr p, dput_val_large (pk_val p), dput (le32 (htonl (pk_seq p))), dput (bool_byte (pk_stat p)),
     dput (le16 (htons (pk_nodeidx p))), dskip (get_stat_padding_bytes (pk_methodid p))] (d, 0)"

definition GetResponseLargevalueSeq_serialize :: "packet \<Rightarrow> writer" where
  "GetResponseLargevalueSeq_serialize p = wseq [
     with_res (GetResponseLargevalueSeq_size (pk_methodid p)) require_space, serialize_ophdr p,
     val_serialize_large (pk_val p), put32_be (pk_seq p), put_bool (pk_stat p), put16_be (pk_nodeidx p),
     skip_res (get_stat_padding_bytes (pk_methodid p))]"

text \<open>For DistCache \<^verbatim>\<open>deserialize\<close> would read two loads that \<^verbatim>\<open>serialize\<close> never writes; the constructors
  of the class exclude that method.\<close>

definition GetResponseLargevalueSeq_deserialize :: "packet \<Rightarrow> byte list \<Rightarrow> packet res" where
  "GetResponseLargevalueSeq_deserialize = run_atleast GetResponseLargevalueSeq_size (rseq [
     deserialize_ophdr, rdval_large pk_val_update, rd32 pk_seq_update, rdbool pk_stat_update,
     rd16 pk_nodeidx_update, rskip_res get_stat_padding_bytes,
     rif (\<lambda>m. m = DISTCACHE_ID) [rd32 pk_spineload_update, rd32 pk_leafload_update]])"

definition GetResponseLargevalueSeq_data :: "packet \<Rightarrow> method_id \<Rightarrow> byte list \<Rightarrow> packet res" where
  "GetResponseLargevalueSeq_data = receive (farreach_method) GetResponseLargevalueSeq_deserialize
     (\<lambda>p. pk_type p = GETRES_LARGEVALUE_SEQ \<and> val_length (pk_val p) > SWITCH_MAX_VALLEN)"

definition getlargeseq_pat :: "packet \<Rightarrow> pattern" where
  "getlargeseq_pat p = concat [
     ophdr_pat p, bytes_pat (val_pat_large (pk_val p)), be32_pat (pk_seq p),
     bytes_pat [if pk_stat p then 1 else 0], be16_pat (pk_nodeidx p), gap_pat 1]"

definition getlargeseq_members :: "packet \<Rightarrow> packet \<Rightarrow> packet" where
  "getlargeseq_members p this = (copy_ophdr p this)\<lparr>pk_val := pk_val p, pk_seq := pk_seq p, pk_stat := pk_stat p, pk_nodeidx := pk_nodeidx p\<rparr>"

definition sendable_big_far :: "packet \<Rightarrow> bool" where
  "sendable_big_far p \<longleftrightarrow> sendable_big p \<and> pk_methodid p \<noteq> DISTCACHE_ID"

lemma emits_getlargeseq: "sendable_big_far p \<Longrightarrow> emits (GetResponseLargevalueSeq_serialize p) (getlargeseq_pat p)"
  using big_pat_length [of p] unfolding GetResponseLargevalueSeq_serialize_def getlargeseq_pat_def
  by (intro emits_size_check packet_emits)
    (auto simp: GetResponseLargevalueSeq_size_def header_sizes_valid sendable_big_far_def sendable_big_def SWITCH_MAX_VALLEN_def)

interpretation getlargeseq: packet_codec GetResponseLargevalueSeq_serialize GetResponseLargevalueSeq_deserialize getlargeseq_pat sendable_big_far getlargeseq_members
  unfolding GetResponseLargevalueSeq_deserialize_def
  apply (rule packet_codec_atleast [OF emits_getlargeseq, where n = "\<lambda>p. ophdrsize (pk_methodid p) + 140"])
    apply assumption
  subgoal for p using big_pat_length [of p]
    by (auto simp: GetResponseLargevalueSeq_size_def header_sizes_valid sendable_big_far_def sendable_big_def SWITCH_MAX_VALLEN_def getlargeseq_pat_def)
  unfolding getlargeseq_pat_def sendable_big_far_def sendable_big_def
  by (rule packet_parses | simp add: getlargeseq_members_def Let_def header_sizes_valid; blast?)+

definition GetResponseLargevalueServer_new :: "u16 \<Rightarrow> method_id \<Rightarrow> net_key \<Rightarrow> net_val \<Rightarrow> bool \<Rightarrow> u16 \<Rightarrow> packet res" where
  "GetResponseLargevalueServer_new junk m k v stat nodeidx =
     bind_res (GetResponseLargevalue_new junk m k v stat nodeidx) (\<lambda>p.
     bind_res (invariant (\<not> is_singleswitch m)) (\<lambda>_. Inr (p\<lparr>pk_type := GETRES_LARGEVALUE_SERVER\<rparr>)))"

definition GetResponseLargevalueServer_new_spineleaf ::
    "u16 \<Rightarrow> method_id \<Rightarrow> switchidx \<Rightarrow> switchidx \<Rightarrow> net_key \<Rightarrow> net_val \<Rightarrow> bool \<Rightarrow> u16 \<Rightarrow> u32 \<Rightarrow> u32 \<Rightarrow> packet res" where
  "GetResponseLargevalueServer_new_spineleaf junk m spine leaf k v stat nodeidx spineload leafload =
     bind_res (GetResponseLargevalue_new junk m k v stat nodeidx) (\<lambda>p.
     bind_res (invariant (m = DISTCACHE_ID)) (\<lambda>_.
     Inr (p\<lparr>pk_type := GETRES_LARGEVALUE_SERVER, pk_spineswitchidx := spine, pk_leafswitchidx := leaf,
       pk_spineload := spineload, pk_leafload := leafload\<rparr>)))"

definition GetResponseLargevalueServer_data :: "packet \<Rightarrow> method_id \<Rightarrow> byte list \<Rightarrow> packet res" where
  "GetResponseLargevalueServer_data = receive (\<lambda>m. \<not> is_singleswitch m) GetResponseLargevalue_deserialize
     (\<lambda>p. pk_type p = GETRES_LARGEVALUE_SERVER \<and> val_length (pk_val p) > SWITCH_MAX_VALLEN)"

definition GetResponseLargevalueServerSeq_new ::
    "u16 \<Rightarrow> method_id \<Rightarrow> net_key \<Rightarrow> net_val \<Rightarrow> u32 \<Rightarrow> bool \<Rightarrow> u16 \<Rightarrow> packet res" where
  "GetResponseLargevalueServerSeq_new junk m k v seq stat nodeidx =
     bind_res (GetResponseLargevalueSeq_new junk m k v seq stat nodeidx) (\<lambda>p.
     bind_res (invariant (m = DISTFARREACH_ID)) (\<lambda>_. Inr (p\<lparr>pk_type := GETRES_LARGEVALUE_SERVER_SEQ\<rparr>)))"

definition GetResponseLargevalueServerSeq_data :: "packet \<Rightarrow> method_id \<Rightarrow> byte list \<Rightarrow> packet res" where
  "GetResponseLargevalueServerSeq_data = receive (\<lambda>m. m = DISTFARREACH_ID) GetResponseLargevalueSeq_deserialize
     (\<lambda>p. pk_type p = GETRES_LARGEVALUE_SERVER_SEQ \<and> val_length (pk_val p) > SWITCH_MAX_VALLEN)"

section \<open>Responses arrive as they were sent\<close>

lemma response_members [simp]:
  "pk_type (getres_members p this) = pk_type p" "pk_key (getres_members p this) = pk_key p"
  "pk_val (getres_members p this) = pk_val p" "pk_stat (getres_members p this) = pk_stat p"
  "pk_nodeidx (getres_members p this) = pk_nodeidx p"
  "pk_type (getseq_members p this) = pk_type p" "pk_key (getseq_members p this) = pk_key p"
  "pk_val (getseq_members p this) = pk_val p" "pk_stat (getseq_members p this) = pk_stat p"
  "pk_nodeidx (getseq_members p this) = pk_nodeidx p" "pk_seq (getseq_members p this) = pk_seq p"
  "pk_type (putres_members p this) = pk_type p" "pk_key (putres_members p this) = pk_key p"
  "pk_stat (putres_members p this) = pk_stat p" "pk_nodeidx (putres_members p this) = pk_nodeidx p"
  "pk_type (putseqres_members p this) = pk_type p" "pk_key (putseqres_members p this) = pk_key p"
  "pk_stat (putseqres_members p this) = pk_stat p" "pk_nodeidx (putseqres_members p this) = pk_nodeidx p"
  "pk_seq (putseqres_members p this) = pk_seq p"
  by (simp_all add: getres_members_def getseq_members_def putres_members_def putseqres_members_def Let_def)

lemma response_lengths:
  "val_ok (pk_val p) \<Longrightarrow> length (getres_pat p) = ophdrsize (pk_methodid p) +
     unat (val_length (pk_val p)) + padding (pk_val p) + 8 + (if pk_methodid p = DISTCACHE_ID then 8 else 0)"
  "val_ok (pk_val p) \<Longrightarrow> length (getseq_pat p) = ophdrsize (pk_methodid p) +
     unat (val_length (pk_val p)) + padding (pk_val p) + 12 + (if pk_methodid p = FARREACH_ID then 4 else 0)"
  "length (putres_pat p) = ophdrsize (pk_methodid p) + 6"
  "length (putseqres_pat p) = ophdrsize (pk_methodid p) + 10 + (if pk_methodid p = FARREACH_ID then 4 else 0)"
  by (simp_all add: getres_pat_def getseq_pat_def putres_pat_def putseqres_pat_def val_pat_def length_val_body)

lemma GetResponse_new_ok:
  assumes "val_ok v" "unat (val_length v) \<le> 128"
  shows "GetResponse_new m k v stat node = Inr ((packet_new m GETRES k)\<lparr>pk_val := v, pk_stat := stat,
    pk_nodeidx := node, pk_spineload := 0, pk_leafload := 0\<rparr>)"
  using val_copy_ok [OF assms(1)] assms(2)
  by (simp add: GetResponse_new_def SWITCH_MAX_VALLEN_def word_le_nat_alt)

lemmas response_defs = transmit_def packet_new_def sendable_val_def val_small_def SWITCH_MAX_VALLEN_def word_le_nat_alt
  response_lengths

text \<open>C25: the responses of a server that sits directly behind the switch arrive with key, status and
  evaluation index as they were built, get responses also with their value (at most 128 bytes), for
  every deployed method; the received operation code tells the three kinds apart: the receiver of
  a delete response refuses a put response, which has the same layout.\<close>

theorem response_roundtrip:
  assumes "m \<noteq> INVALID_ID" "val_ok v" "unat (val_length v) \<le> 128"
    "ophdrsize m + unat (val_length v) + padding v + 16 \<le> length buf"
  shows "(\<exists>q. bind_res (GetResponse_new m k v stat node) (transmit GetResponse_serialize (GetResponse_data this m) buf) = Inr q \<and>
      pk_type q = GETRES \<and> pk_key q = k \<and> pk_val q = v \<and> pk_stat q = stat \<and> pk_nodeidx q = node) \<and>
    (\<exists>q. transmit PutResponse_serialize (PutResponse_data this m) buf (PutResponse_new m k stat node) = Inr q \<and>
      pk_type q = PUTRES \<and> pk_key q = k \<and> pk_stat q = stat \<and> pk_nodeidx q = node) \<and>
    (\<exists>q. transmit DelResponse_serialize (DelResponse_data this m) buf (DelResponse_new m k stat node) = Inr q \<and>
      pk_type q = DELRES \<and> pk_key q = k \<and> pk_stat q = stat \<and> pk_nodeidx q = node) \<and>
    transmit PutResponse_serialize (DelResponse_data this m) buf (PutResponse_new m k stat node) = Inl Abort"
proof -
  let ?g = "(packet_new m GETRES k)\<lparr>pk_val := v, pk_stat := stat, pk_nodeidx := node, pk_spineload := 0, pk_leafload := 0\<rparr>"
  let ?p = "PutResponse_new m k stat node" and ?d = "DelResponse_new m k stat node"
  have "transmit GetResponse_serialize (GetResponse_data this m) buf ?g = Inr (getres_members ?g (packet_init m this))"
    using getres.send_receive [of ?g buf any_method
        "\<lambda>p. pk_type p = GETRES \<and> val_length (pk_val p) \<le> SWITCH_MAX_VALLEN" this] assms
    by (cases "m = DISTCACHE_ID") (simp_all add: response_defs GetResponse_data_def)
  moreover have "transmit PutResponse_serialize (PutResponse_data this m) buf ?p = Inr (putres_members ?p (packet_init m this))"
    using putres.send_receive [of ?p buf any_method "\<lambda>p. pk_type p = PUTRES" this] assms
    by (simp add: response_defs PutResponse_data_def PutResponse_new_def)
  moreover have "transmit DelResponse_serialize (DelResponse_data this m) buf ?d = Inr (putres_members ?d (packet_init m this))"
    using delres.send_receive [of ?d buf any_method "\<lambda>p. pk_type p = DELRES" this] assms
    by (simp add: response_defs DelResponse_data_def DelResponse_new_def)
  moreover have "transmit PutResponse_serialize (DelResponse_data this m) buf ?p = Inl Abort"
  proof -
    have p: "sendable ?p" "pk_methodid ?p = m" using assms(1) by (simp_all add: PutResponse_new_def packet_new_def)
    obtain data where d: "datagram PutResponse_serialize ?p buf = Inr data"
      "length data = length (putres_pat ?p)" "holds_pat 0 (putres_pat ?p) data"
      using putres.sent [OF p(1), of buf] assms p(2) by (auto simp: response_lengths)
    have "DelResponse_deserialize (packet_init m this) data = Inr (putres_members ?p (packet_init m this))"
      using delres.deser_reads [OF p(1) _ d(3,2)] p(2) by simp
    then show ?thesis
      using d(1) by (simp add: transmit_def DelResponse_data_def receive_def PutResponse_new_def packet_new_def)
  qed
  ultimately show ?thesis
    using GetResponse_new_ok [OF assms(2,3), of m k stat node]
    by (simp add: PutResponse_new_def DelResponse_new_def packet_new_def)
qed

theorem response_roundtrip_witness:
  "\<exists>q. bind_res (GetResponse_new DISTCACHE_ID key_max \<lparr>val_length = 3, val_data = Some [1, 2, 3]\<rparr> True 9)
      (transmit GetResponse_serialize (GetResponse_data packet_default DISTCACHE_ID) (replicate 60 0)) = Inr q \<and>
     pk_stat q \<and> pk_nodeidx q = 9"
  using response_roundtrip [of DISTCACHE_ID "\<lparr>val_length = 3, val_data = Some [1, 2, 3]\<rparr>" "replicate 60 0"
      key_max True 9 packet_default]
  by (auto simp: val_ok_def padding_def ophdrsize_def is_singleswitch_def)

text \<open>C24: the responses with a sequence number exist for FarReach and its multi-switch version only (the
  constructors refuse the other methods) and arrive with key, sequence number, status and
  evaluation index, get responses also with their value.\<close>

theorem seq_response_roundtrip:
  assumes "val_ok v" "unat (val_length v) \<le> 128" "ophdrsize m + unat (val_length v) + padding v + 16 \<le> length buf"
  shows "if farreach_method m
    then (\<exists>q. bind_res (GetResponseSeq_new m k v seq stat node)
        (transmit GetResponseSeq_serialize (GetResponseSeq_data this m) buf) = Inr q \<and>
        pk_type q = GETRES_SEQ \<and> pk_key q = k \<and> pk_val q = v \<and> pk_seq q = seq \<and> pk_stat q = stat \<and> pk_nodeidx q = node) \<and>
      (\<exists>q. bind_res (PutResponseSeq_new m k seq stat node)
        (transmit PutResponseSeq_serialize (PutResponseSeq_data this m) buf) = Inr q \<and>
        pk_type q = PUTRES_SEQ \<and> pk_key q = k \<and> pk_seq q = seq \<and> pk_stat q = stat \<and> pk_nodeidx q = node) \<and>
      (\<exists>q. bind_res (DelResponseSeq_new m k seq stat node)
        (transmit PutResponseSeq_serialize (DelResponseSeq_data this m) buf) = Inr q \<and>
        pk_type q = DELRES_SEQ \<and> pk_key q = k \<and> pk_seq q = seq \<and> pk_stat q = stat \<and> pk_nodeidx q = node)
    else GetResponseSeq_new m k v seq stat node = Inl Abort \<and> PutResponseSeq_new m k seq stat node = Inl Abort \<and>
      DelResponseSeq_new m k seq stat node = Inl Abort"
proof (cases "farreach_method m")
  case True
  let ?g = "(packet_new m GETRES_SEQ k)\<lparr>pk_val := v, pk_stat := stat, pk_nodeidx := node, pk_spineload := 0,
    pk_leafload := 0, pk_seq := seq\<rparr>"
  let ?p = "(PutResponse_new m k stat node)\<lparr>pk_seq := seq, pk_type := PUTRES_SEQ\<rparr>"
  let ?d = "(PutResponse_new m k stat node)\<lparr>pk_seq := seq, pk_type := DELRES_SEQ\<rparr>"
  have m: "m \<noteq> INVALID_ID" using True by auto
  have "GetResponseSeq_new m k v seq stat node = Inr ?g"
    using GetResponse_new_ok [OF assms(1,2), of m k stat node] True
    by (simp add: GetResponseSeq_new_def packet_new_def)
  moreover have "transmit GetResponseSeq_serialize (GetResponseSeq_data this m) buf ?g = Inr (getseq_members ?g (packet_init m this))"
    using getseq.send_receive [of ?g buf farreach_method
        "\<lambda>p. pk_type p = GETRES_SEQ \<and> val_length (pk_val p) \<le> SWITCH_MAX_VALLEN" this] assms True m
    by (cases "m = FARREACH_ID") (simp_all add: response_defs GetResponseSeq_data_def)
  moreover have "transmit PutResponseSeq_serialize (PutResponseSeq_data this m) buf ?p = Inr (putseqres_members ?p (packet_init m this))"
    using putseqres.send_receive [of ?p buf farreach_method "\<lambda>p. pk_type p = PUTRES_SEQ" this] assms True m
    by (cases "m = FARREACH_ID") (simp_all add: response_defs PutResponseSeq_data_def PutResponse_new_def)
  moreover have "transmit PutResponseSeq_serialize (DelResponseSeq_data this m) buf ?d = Inr (putseqres_members ?d (packet_init m this))"
    using putseqres.send_receive [of ?d buf farreach_method "\<lambda>p. pk_type p = DELRES_SEQ" this] assms True m
    by (cases "m = FARREACH_ID") (simp_all add: response_defs DelResponseSeq_data_def PutResponse_new_def)
  ultimately show ?thesis
    using True by (simp add: PutResponseSeq_new_def DelResponseSeq_new_def PutResponse_new_def packet_new_def)
next
  case False
  then show ?thesis
    using GetResponse_new_ok [OF assms(1,2), of m k stat node]
    by (auto simp: GetResponseSeq_new_def PutResponseSeq_new_def DelResponseSeq_new_def)
qed

theorem seq_response_roundtrip_witness:
  "\<exists>q. bind_res (PutResponseSeq_new FARREACH_ID key_max 77 True 9)
      (transmit PutResponseSeq_serialize (PutResponseSeq_data packet_default FARREACH_ID) (replicate 60 0)) = Inr q \<and>
     pk_seq q = 77"
  using seq_response_roundtrip [of "\<lparr>val_length = 3, val_data = Some [1, 2, 3]\<rparr>" FARREACH_ID "replicate 60 0"
      key_max 77 True 9 packet_default]
  by (auto simp: val_ok_def padding_def ophdrsize_def is_singleswitch_def)

lemma dseq_append: "dseq (ws @ vs) s = bind_res (dseq ws s) (dseq vs)"
  by (induction ws arbitrary: s) (auto simp: bind_res_def split: sum.splits)

lemma dseq_snoc: "dseq (ws @ [w]) s = bind_res (dseq ws s) w"
  by (induction ws arbitrary: s) (auto simp: bind_res_def split: sum.splits)

lemma big_response_members [simp]:
  "pk_type (getlarge_members p this) = pk_type p" "pk_key (getlarge_members p this) = pk_key p"
  "pk_val (getlarge_members p this) = pk_val p" "pk_stat (getlarge_members p this) = pk_stat p"
  "pk_nodeidx (getlarge_members p this) = pk_nodeidx p"
  "pk_type (getlargeseq_members p this) = pk_type p" "pk_key (getlargeseq_members p this) = pk_key p"
  "pk_val (getlargeseq_members p this) = pk_val p" "pk_stat (getlargeseq_members p this) = pk_stat p"
  "pk_nodeidx (getlargeseq_members p this) = pk_nodeidx p" "pk_seq (getlargeseq_members p this) = pk_seq p"
  by (simp_all add: getlarge_members_def getlargeseq_members_def Let_def)

text \<open>The dynamic array of a large response: \<^verbatim>\<open>tmpoff\<close> counts the padding byte behind the status, the
  array does not hold it.\<close>

lemma dynamic_padded:
  assumes "dstores_at 0 (dseq ws) bs" "pat = bytes_pat bs @ gap_pat 1" "holds_pat 0 pat data" "length data = length pat"
    "m \<noteq> INVALID_ID" "da_ok d" "da_bytes d = []" "int (length data) \<le> da_maxcapability d"
  shows "\<exists>d'. dseq (ws @ [dskip (get_stat_padding_bytes m)]) (d, 0) = Inr (d', int (length data)) \<and>
    da_bytes d' = butlast data"
proof -
  have "butlast data = bs"
    using assms(2-4) by (simp add: holds_pat_append holds_pat_bytes butlast_conv_take)
  moreover have "\<exists>d'. dseq ws (d, 0) = Inr (d', int (length bs)) \<and> da_ok d' \<and> da_bytes d' = bs"
    using dstores_fresh [OF assms(1,6,7)] assms(2,4,8) by simp
  ultimately show ?thesis
    using assms(2,4,5) by (auto simp: dseq_snoc dskip_def header_sizes_valid)
qed

lemma big_dstores:
  assumes "sendable_big p" "unat (val_length (pk_val p)) < 2 ^ 31"
  shows "dstores_at 0 (dseq [dophdr p, dput_val_large (pk_val p), dput (bool_byte (pk_stat p)), dput (le16 (htons (pk_nodeidx p)))])
      (concat [ophdr_bytes p, val_pat_large (pk_val p), bool_byte (pk_stat p), le16 (htons (pk_nodeidx p))])"
    "dstores_at 0 (dseq [dophdr p, dput_val_large (pk_val p), dput (le32 (htonl (pk_seq p))), dput (bool_byte (pk_stat p)),
       dput (le16 (htons (pk_nodeidx p)))])
      (concat [ophdr_bytes p, val_pat_large (pk_val p), le32 (htonl (pk_seq p)), bool_byte (pk_stat p), le16 (htons (pk_nodeidx p))])"
proof -
  have "4 + length (val_body (pk_val p)) < 2 ^ 32"
    using assms padding_less [of "pk_val p"] by (simp add: length_val_body sendable_big_def)
  then show "dstores_at 0 (dseq [dophdr p, dput_val_large (pk_val p), dput (bool_byte (pk_stat p)), dput (le16 (htons (pk_nodeidx p)))])
      (concat [ophdr_bytes p, val_pat_large (pk_val p), bool_byte (pk_stat p), le16 (htons (pk_nodeidx p))])"
    "dstores_at 0 (dseq [dophdr p, dput_val_large (pk_val p), dput (le32 (htonl (pk_seq p))), dput (bool_byte (pk_stat p)),
       dput (le16 (htons (pk_nodeidx p)))])
      (concat [ophdr_bytes p, val_pat_large (pk_val p), le32 (htonl (pk_seq p)), bool_byte (pk_stat p), le16 (htons (pk_nodeidx p))])"
    using assms(1) by (intro dstores_intros; simp add: sendable_big_def)+
qed

lemma big_response_lengths:
  "val_ok (pk_val p) \<Longrightarrow> length (getlarge_pat p) = ophdrsize (pk_methodid p) +
     unat (val_length (pk_val p)) + padding (pk_val p) + 8 + (if pk_methodid p = DISTCACHE_ID then 8 else 0)"
  "val_ok (pk_val p) \<Longrightarrow> length (getlargeseq_pat p) = ophdrsize (pk_methodid p) +
     unat (val_length (pk_val p)) + padding (pk_val p) + 12"
  by (simp_all add: getlarge_pat_def getlargeseq_pat_def val_pat_large_def length_val_body)

text \<open>With the two loads of DistCache behind it, the skipped padding byte is a gap of the array, which
  reads as zero.\<close>

definition loads_bytes :: "packet \<Rightarrow> byte list" where
  "loads_bytes p = le32 (htonl (pk_spineload p)) @ le32 (htonl (pk_leafload p))"

lemma length_loads_bytes [simp]: "length (loads_bytes p) = 8"
  by (simp add: loads_bytes_def le32_def)

lemma dynamic_gapped:
  assumes "da_ok d" "da_bytes d = bs" "int (length bs) + 9 \<le> da_maxcapability d"
  shows "\<exists>d'. dseq [dput (le32 (htonl (pk_spineload p))), dput (le32 (htonl (pk_leafload p)))] (d, int (length bs) + 1) =
      Inr (d', int (length bs) + 9) \<and> da_bytes d' = bs @ [0] @ loads_bytes p"
proof -
  let ?s = "le32 (htonl (pk_spineload p))" and ?l = "le32 (htonl (pk_leafload p))"
  have len: "length ?s = 4" "length ?l = 4" by (simp_all add: le32_def)
  obtain d1 where d1: "dynamic_memcpy d (int (length bs) + 1) ?s = Inr d1" "da_ok d1"
    "da_bytes d1 = patch (length bs + 1) ?s bs" "da_maxcapability d1 = da_maxcapability d"
    using dynamic_memcpy_fits [OF assms(1), of "int (length bs) + 1" ?s] assms(2,3) len by (auto simp: nat_add_distrib)
  have b1: "da_bytes d1 = bs @ [0] @ ?s" using d1(3) by (simp add: patch_def)
  obtain d2 where d2: "dynamic_memcpy d1 (int (length bs) + 5) ?l = Inr d2" "da_bytes d2 = patch (length bs + 5) ?l (da_bytes d1)"
    using dynamic_memcpy_fits [OF d1(2), of "int (length bs) + 5" ?l] assms(3) d1(4) len by (auto simp: nat_add_distrib)
  have "da_bytes d2 = bs @ [0] @ loads_bytes p"
    using d2(2) len by (simp add: b1 patch_def loads_bytes_def)
  then show ?thesis
    using d1(1) d2(1) len by (simp add: dput_def add.commute)
qed

lemma holds_pat_tail: "holds_pat off (None # bytes_pat bs) data \<longleftrightarrow>
    off + 1 + length bs \<le> length data \<and> take (length bs) (drop (off + 1) data) = bs"
  using holds_pat_append [of off "gap_pat 1" "bytes_pat bs" data] holds_pat_bytes [of "off + 1" bs data]
  by (auto simp: holds_pat_def [of off "[None]"])

lemma getlarge_dist:
  assumes "sendable_big p" "pk_methodid p = DISTCACHE_ID" "unat (val_length (pk_val p)) < 2 ^ 31"
    "holds_pat 0 (getlarge_pat p) data" "length data = length (getlarge_pat p)"
    "da_ok d" "da_bytes d = []" "int (length data) \<le> da_maxcapability d"
  shows "\<exists>d'. GetResponseLargevalue_dynamic_serialize p d = Inr (d', int (length data)) \<and>
    da_bytes d' = data[length data - 9 := 0]"
proof -
  let ?ws = "[dophdr p, dput_val_large (pk_val p), dput (bool_byte (pk_stat p)), dput (le16 (htons (pk_nodeidx p)))]"
  define bs where "bs = concat [ophdr_bytes p, val_pat_large (pk_val p), bool_byte (pk_stat p), le16 (htons (pk_nodeidx p))]"
  have pat: "getlarge_pat p = bytes_pat bs @ gap_pat 1 @ bytes_pat (loads_bytes p)"
    using assms(2) by (simp add: getlarge_pat_def bs_def bool_byte_def loads_bytes_def)
  have len: "length data = length bs + 9" using assms(5) pat by simp
  have "take (length bs) data = bs" "drop (length bs + 1) data = loads_bytes p"
    using assms(4) len by (simp_all add: pat holds_pat_append holds_pat_bytes holds_pat_tail)
  then have data: "data[length data - 9 := 0] = bs @ [0] @ loads_bytes p"
    using len by (simp add: upd_conv_take_nth_drop)
  obtain d1 where d1: "dseq ?ws (d, 0) = Inr (d1, int (length bs))" "da_ok d1" "da_bytes d1 = bs"
      "nat (da_maxcapability d1) = nat (da_maxcapability d)"
    using big_dstores(1) [OF assms(1,3)] assms(6-8) len
    unfolding dstores_at_def bs_def [symmetric] by (auto simp: patch_append dest!: spec [of _ d])
  have "dseq (?ws @ [dskip (get_stat_padding_bytes DISTCACHE_ID)]) (d, 0) = Inr (d1, int (length bs) + 1)"
    using d1(1) by (simp only: dseq_snoc) (simp add: dskip_def header_sizes_valid)
  then have "GetResponseLargevalue_dynamic_serialize p d =
      dseq [dput (le32 (htonl (pk_spineload p))), dput (le32 (htonl (pk_leafload p)))] (d1, int (length bs) + 1)"
    using dseq_append [of "?ws @ [dskip (get_stat_padding_bytes DISTCACHE_ID)]"
        "[dput (le32 (htonl (pk_spineload p))), dput (le32 (htonl (pk_leafload p)))]" "(d, 0)"] assms(2)
    by (simp add: GetResponseLargevalue_dynamic_serialize_def del: dseq.simps)
  then show ?thesis
    using dynamic_gapped [OF d1(2,3), of p] d1(4) assms(8) len data by (simp del: dseq.simps)
qed

lemma getlarge_arrives:
  assumes "sendable_big p" "pk_type p = GETRES_LARGEVALUE" "unat (val_length (pk_val p)) < 2 ^ 31"
    "length (getlarge_pat p) \<le> length buf" "da_ok d" "da_bytes d = []" "int (length (getlarge_pat p)) \<le> da_maxcapability d"
  shows "\<exists>data d'. datagram GetResponseLargevalue_serialize p buf = Inr data \<and>
    GetResponseLargevalue_data this (pk_methodid p) data = Inr (getlarge_members p (packet_init (pk_methodid p) this)) \<and>
    GetResponseLargevalue_dynamic_serialize p d = Inr (d', int (length data)) \<and>
    da_bytes d' = (if pk_methodid p = DISTCACHE_ID then data[length data - 9 := 0] else butlast data)"
proof -
  let ?m = "pk_methodid p"
  have ok: "sendable_big p" "?m \<noteq> INVALID_ID"
    using assms(1) by (simp_all add: sendable_big_def)
  obtain data where data: "datagram GetResponseLargevalue_serialize p buf = Inr data"
    "length data = length (getlarge_pat p)" "holds_pat 0 (getlarge_pat p) data"
    using getlarge.sent [OF ok(1) assms(4)] by blast
  have "GetResponseLargevalue_data this ?m data = Inr (getlarge_members p (packet_init ?m this))"
    using getlarge.deser_reads [OF ok(1) _ data(3,2), of "packet_init ?m this"] ok(1) assms(2)
    by (simp add: GetResponseLargevalue_data_def receive_def sendable_big_def)
  moreover have "\<exists>d'. GetResponseLargevalue_dynamic_serialize p d = Inr (d', int (length data)) \<and>
    da_bytes d' = (if ?m = DISTCACHE_ID then data[length data - 9 := 0] else butlast data)"
  proof (cases "?m = DISTCACHE_ID")
    case True
    then show ?thesis
      using getlarge_dist [OF ok(1) True assms(3) data(3,2) assms(5,6)] assms(7) data(2) by simp
  next
    case False
    then have "getlarge_pat p = bytes_pat (concat [ophdr_bytes p, val_pat_large (pk_val p), bool_byte (pk_stat p),
        le16 (htons (pk_nodeidx p))]) @ gap_pat 1"
      by (simp add: getlarge_pat_def bool_byte_def)
    then show ?thesis
      using dynamic_padded [OF big_dstores(1) [OF ok(1) assms(3)] _ data(3,2) ok(2) assms(5,6)] data(2) assms(7) False
      by (auto simp: GetResponseLargevalue_dynamic_serialize_def)
  qed
  ultimately show ?thesis using data(1) by blast
qed

lemma getlargeseq_arrives:
  assumes "sendable_big_far p" "farreach_method (pk_methodid p)" "pk_type p = GETRES_LARGEVALUE_SEQ"
    "unat (val_length (pk_val p)) < 2 ^ 31" "length (getlargeseq_pat p) \<le> length buf"
    "da_ok d" "da_bytes d = []" "int (length (getlargeseq_pat p)) \<le> da_maxcapability d"
  shows "\<exists>data d'. datagram GetResponseLargevalueSeq_serialize p buf = Inr data \<and>
    GetResponseLargevalueSeq_data this (pk_methodid p) data = Inr (getlargeseq_members p (packet_init (pk_methodid p) this)) \<and>
    GetResponseLargevalueSeq_dynamic_serialize p d = Inr (d', int (length data)) \<and> da_bytes d' = butlast data"
proof -
  let ?m = "pk_methodid p"
  have ok: "sendable_big p" "?m \<noteq> INVALID_ID"
    using assms(1) by (simp_all add: sendable_big_far_def sendable_big_def)
  obtain data where data: "datagram GetResponseLargevalueSeq_serialize p buf = Inr data"
    "length data = length (getlargeseq_pat p)" "holds_pat 0 (getlargeseq_pat p) data"
    using getlargeseq.sent [OF assms(1,5)] by blast
  have "GetResponseLargevalueSeq_data this ?m data = Inr (getlargeseq_members p (packet_init ?m this))"
    using getlargeseq.deser_reads [OF assms(1) _ data(3,2), of "packet_init ?m this"] ok(1) assms(2,3)
    by (simp add: GetResponseLargevalueSeq_data_def receive_def sendable_big_def)
  moreover have "getlargeseq_pat p = bytes_pat (concat [ophdr_bytes p, val_pat_large (pk_val p), le32 (htonl (pk_seq p)),
      bool_byte (pk_stat p), le16 (htons (pk_nodeidx p))]) @ gap_pat 1"
    by (simp add: getlargeseq_pat_def bool_byte_def)
  ultimately show ?thesis
    using dynamic_padded [OF big_dstores(2) [OF ok(1) assms(4)] _ data(3,2) ok(2) assms(6,7)] data assms(8)
    by (auto simp: GetResponseLargevalueSeq_dynamic_serialize_def)
qed

text \<open>C23: get responses with a value longer than 128 bytes arrive with key, value, status and evaluation
  index for every deployed method, and those of FarReach and DistFarReach with a sequence number
  arrive with it too; the constructors refuse a shorter value, and the one with a sequence
  number every other method. \<^verbatim>\<open>dynamic_serialize\<close> returns the size of the datagram of
  \<^verbatim>\<open>serialize\<close>, but skips the padding byte behind the status without writing it: its array lacks that byte
  where it is the last one, and holds a zero there for DistCache, whose two loads follow it.\<close>

theorem large_response_roundtrip:
  assumes "m \<noteq> INVALID_ID" "val_ok v" "unat (val_length v) < 2 ^ 31"
    "ophdrsize m + unat (val_length v) + padding v + 16 \<le> length buf"
    "da_ok d" "da_bytes d = []" "int (ophdrsize m + unat (val_length v) + padding v + 16) \<le> da_maxcapability d"
  shows "if 128 < unat (val_length v)
    then (\<exists>p q data d'. GetResponseLargevalue_new junk m k v stat node = Inr p \<and>
        datagram GetResponseLargevalue_serialize p buf = Inr data \<and> GetResponseLargevalue_data this m data = Inr q \<and>
        pk_type q = GETRES_LARGEVALUE \<and> pk_key q = k \<and> pk_val q = v \<and> pk_stat q = stat \<and> pk_nodeidx q = node \<and>
        GetResponseLargevalue_dynamic_serialize p d = Inr (d', int (length data)) \<and>
        da_bytes d' = (if m = DISTCACHE_ID then data[length data - 9 := 0] else butlast data)) \<and>
      (if farreach_method m
       then \<exists>p q data d'. GetResponseLargevalueSeq_new junk m k v seq stat node = Inr p \<and>
        datagram GetResponseLargevalueSeq_serialize p buf = Inr data \<and> GetResponseLargevalueSeq_data this m data = Inr q \<and>
        pk_type q = GETRES_LARGEVALUE_SEQ \<and> pk_key q = k \<and> pk_val q = v \<and> pk_seq q = seq \<and> pk_stat q = stat \<and>
        pk_nodeidx q = node \<and>
        GetResponseLargevalueSeq_dynamic_serialize p d = Inr (d', int (length data)) \<and> da_bytes d' = butlast data
       else GetResponseLargevalueSeq_new junk m k v seq stat node = Inl Abort)
    else GetResponseLargevalue_new junk m k v stat node = Inl Abort \<and>
      GetResponseLargevalueSeq_new junk m k v seq stat node = Inl Abort"
proof (cases "128 < unat (val_length v)")
  case True
  define p where "p = (packet_new_spineleaf junk m GETRES_LARGEVALUE 0 0 k)\<lparr>pk_val := v, pk_stat := stat,
    pk_nodeidx := node, pk_spineload := 0, pk_leafload := 0\<rparr>"
  define s where "s = p\<lparr>pk_seq := seq, pk_type := GETRES_LARGEVALUE_SEQ\<rparr>"
  have new: "GetResponseLargevalue_new junk m k v stat node = Inr p"
    using val_copy_ok [OF assms(2)] True
    by (simp add: GetResponseLargevalue_new_def p_def SWITCH_MAX_VALLEN_def word_less_nat_alt)
  have p: "sendable_big p" "pk_type p = GETRES_LARGEVALUE" "pk_methodid p = m" "pk_val p = v" "pk_key p = k"
      "pk_stat p = stat" "pk_nodeidx p = node"
    and s: "sendable_big s" "pk_type s = GETRES_LARGEVALUE_SEQ" "pk_methodid s = m" "pk_val s = v" "pk_key s = k"
      "pk_stat s = stat" "pk_nodeidx s = node" "pk_seq s = seq"
    using assms(1,2) True
    by (simp_all add: p_def s_def packet_new_spineleaf_def sendable_big_def SWITCH_MAX_VALLEN_def word_less_nat_alt)
  have len: "length (getlarge_pat p) \<le> length buf" "int (length (getlarge_pat p)) \<le> da_maxcapability d"
    "length (getlargeseq_pat s) \<le> length buf" "int (length (getlargeseq_pat s)) \<le> da_maxcapability d"
    using big_response_lengths [of p] big_response_lengths [of s] p s assms by (simp_all split: if_splits)
  have seq: "GetResponseLargevalueSeq_new junk m k v seq stat node = (if farreach_method m then Inr s else Inl Abort)"
    using new by (auto simp: GetResponseLargevalueSeq_new_def s_def)
  obtain data d' where a: "datagram GetResponseLargevalue_serialize p buf = Inr data"
      "GetResponseLargevalue_data this m data = Inr (getlarge_members p (packet_init m this))"
      "GetResponseLargevalue_dynamic_serialize p d = Inr (d', int (length data))"
      "da_bytes d' = (if m = DISTCACHE_ID then data[length data - 9 := 0] else butlast data)"
    using getlarge_arrives [OF p(1,2) _ len(1) assms(5,6) len(2), of this] p(3,4) assms(3) by auto
  have b: "\<exists>data d'. datagram GetResponseLargevalueSeq_serialize s buf = Inr data \<and>
      GetResponseLargevalueSeq_data this m data = Inr (getlargeseq_members s (packet_init m this)) \<and>
      GetResponseLargevalueSeq_dynamic_serialize s d = Inr (d', int (length data)) \<and> da_bytes d' = butlast data"
    if "farreach_method m"
    using getlargeseq_arrives [OF _ _ s(2) _ len(3) assms(5,6) len(4), of this] s that assms(3)
    by (auto simp: sendable_big_far_def)
  have "\<exists>p q data d'. GetResponseLargevalue_new junk m k v stat node = Inr p \<and>
        datagram GetResponseLargevalue_serialize p buf = Inr data \<and> GetResponseLargevalue_data this m data = Inr q \<and>
        pk_type q = GETRES_LARGEVALUE \<and> pk_key q = k \<and> pk_val q = v \<and> pk_stat q = stat \<and> pk_nodeidx q = node \<and>
        GetResponseLargevalue_dynamic_serialize p d = Inr (d', int (length data)) \<and>
        da_bytes d' = (if m = DISTCACHE_ID then data[length data - 9 := 0] else butlast data)"
    using a new p by fastforce
  moreover have "if farreach_method m
       then \<exists>p q data d'. GetResponseLargevalueSeq_new junk m k v seq stat node = Inr p \<and>
        datagram GetResponseLargevalueSeq_serialize p buf = Inr data \<and> GetResponseLargevalueSeq_data this m data = Inr q \<and>
        pk_type q = GETRES_LARGEVALUE_SEQ \<and> pk_key q = k \<and> pk_val q = v \<and> pk_seq q = seq \<and> pk_stat q = stat \<and>
        pk_nodeidx q = node \<and>
        GetResponseLargevalueSeq_dynamic_serialize p d = Inr (d', int (length data)) \<and> da_bytes d' = butlast data
       else GetResponseLargevalueSeq_new junk m k v seq stat node = Inl Abort"
  proof (cases "farreach_method m")
    case True
    then show ?thesis using b [OF True] seq s by (simp only: if_True) fastforce
  next
    case False
    then show ?thesis using seq by (simp only: if_False)
  qed
  ultimately show ?thesis using True by simp
next
  case False
  then show ?thesis using val_copy_ok [OF assms(2)]
    by (simp add: GetResponseLargevalueSeq_new_def GetResponseLargevalue_new_def SWITCH_MAX_VALLEN_def word_less_nat_alt)
qed

theorem large_response_roundtrip_witness:
  "GetResponseLargevalue_new 0 FARREACH_ID key_max \<lparr>val_length = 3, val_data = Some [1, 2, 3]\<rparr> True 9 = Inl Abort \<and>
   (\<exists>p q data. GetResponseLargevalue_new 0 DISTCACHE_ID key_max \<lparr>val_length = 129, val_data = Some (replicate 129 1)\<rparr> True 9 = Inr p \<and>
     datagram GetResponseLargevalue_serialize p (replicate 200 0) = Inr data \<and>
     GetResponseLargevalue_data packet_default DISTCACHE_ID data = Inr q \<and> pk_nodeidx q = 9)"
proof -
  obtain d where d: "da_new 2 256 = Inr d" "da_ok d" "da_bytes d = []" "da_maxcapability d = 256"
    using da_ok_init [of 2 256] by auto
  have "val_ok \<lparr>val_length = 129, val_data = Some (replicate 129 1)\<rparr>" by (simp add: val_ok_def)
  then show ?thesis
    using large_response_roundtrip [of FARREACH_ID "\<lparr>val_length = 3, val_data = Some [1, 2, 3]\<rparr>" "replicate 200 0" d 0
        key_max True 9 packet_default 0]
      large_response_roundtrip [of DISTCACHE_ID "\<lparr>val_length = 129, val_data = Some (replicate 129 1)\<rparr>" "replicate 200 0" d 0
        key_max True 9 packet_default 0] d
    by (auto simp: val_ok_def padding_def ophdrsize_def is_singleswitch_def)
qed

end
