(* ===== verification/Packet_Seq.thy ===== *)
theory Packet_Seq
  imports Packet_Res
begin

text \<open>
  Requests as the switch forwards them: with a sequence number the switch has assigned and, for
  FarReach, the token of the snapshot; responses and requests that carry the record a switch holds
  (LATEST, DELETED, CASE1); the parts of a split scan; and large put requests with a sequence number
  (src/common/packet_format_impl.h).
\<close>

section \<open>PutRequestSeq\<close>

definition PutRequestSeq_new :: "u16 \<Rightarrow> method_id \<Rightarrow> net_key \<Rightarrow> net_val \<Rightarrow> u32 \<Rightarrow> packet res" where
  "PutRequestSeq_new junk m k v seq = bind_res (val_copy v) (\<lambda>v.
     Inr ((packet_new_spineleaf junk m PUTREQ_SEQ 0 0 k)\<lparr>pk_val := v, pk_seq := seq, pk_snapshot_token := 0\<rparr>))"

definition PutRequestSeq_serialize :: "packet \<Rightarrow> writer" where
  "PutRequestSeq_serialize p = wseq [
     serialize_ophdr p, val_serialize (pk_val p), serialize_packet_type (pk_type p), put32_be (pk_seq p),
     wif (pk_methodid p = FARREACH_ID) [put32_be (pk_snapshot_token p)]]"

definition PutRequestSeq_deserialize :: "packet \<Rightarrow> byte list \<Rightarrow> packet res" where
  "PutRequestSeq_deserialize = run (rseq [
     deserialize_ophdr, rdval pk_val_update, rskip 2, rd32 pk_seq_update,
     rif (\<lambda>m. m = FARREACH_ID) [rd32 pk_snapshot_token_update]])"

definition PutRequestSeq_data :: "packet \<Rightarrow> method_id \<Rightarrow> byte list \<Rightarrow> packet res" where
  "PutRequestSeq_data = receive any_method PutRequestSeq_deserialize
     (\<lambda>p. pk_type p = PUTREQ_SEQ \<and> val_length (pk_val p) \<le> SWITCH_MAX_VALLEN)"

definition putseq_pat :: "packet \<Rightarrow> pattern" where
  "putseq_pat p = concat [
     ophdr_pat p, bytes_pat (val_pat (pk_val p)), be16_pat (pk_type p), be32_pat (pk_seq p),
     if pk_methodid p = FARREACH_ID then concat [be32_pat (pk_snapshot_token p)] else []]"

definition putseq_members :: "packet \<Rightarrow> packet \<Rightarrow> packet" where
  "putseq_members p this = (let q = (copy_ophdr p this)\<lparr>pk_val := pk_val p, pk_seq := pk_seq p\<rparr> in
      if pk_methodid p = FARREACH_ID then q\<lparr>pk_snapshot_token := pk_snapshot_token p\<rparr> else q)"

interpretation putseq: packet_codec PutRequestSeq_serialize PutRequestSeq_deserialize putseq_pat sendable_val putseq_members
  unfolding PutRequestSeq_deserialize_def
  by (rule packet_codec_run)
    (unfold PutRequestSeq_serialize_def putseq_pat_def sendable_val_def,
      (intro packet_emits; simp add: header_sizes_valid),
      (rule packet_parses | simp add: putseq_members_def header_sizes_valid Let_def)+)

definition PutRequestPopSeq_data :: "packet \<Rightarrow> method_id \<Rightarrow> byte list \<Rightarrow> packet res" where
  "PutRequestPopSeq_data = receive (farreach_method) PutRequestSeq_deserialize
     (\<lambda>p. pk_type p = PUTREQ_POP_SEQ \<and> val_length (pk_val p) \<le> SWITCH_MAX_VALLEN)"

definition PutRequestSeqCase3_data :: "packet \<Rightarrow> method_id \<Rightarrow> byte list \<Rightarrow> packet res" where
  "PutRequestSeqCase3_data = receive (farreach_method) PutRequestSeq_deserialize
     (\<lambda>p. pk_type p = PUTREQ_SEQ_CASE3 \<and> val_length (pk_val p) \<le> SWITCH_MAX_VALLEN)"

definition PutRequestPopSeqCase3_data :: "packet \<Rightarrow> method_id \<Rightarrow> byte list \<Rightarrow> packet res" where
  "PutRequestPopSeqCase3_data = receive (farreach_method) PutRequestSeq_deserialize
     (\<lambda>p. pk_type p = PUTREQ_POP_SEQ_CASE3 \<and> val_length (pk_val p) \<le> SWITCH_MAX_VALLEN)"

definition PutRequestSeqBeingevicted_data :: "packet \<Rightarrow> method_id \<Rightarrow> byte list \<Rightarrow> packet res" where
  "PutRequestSeqBeingevicted_data = receive (farreach_method) PutRequestSeq_deserialize
     (\<lambda>p. pk_type p = PUTREQ_SEQ_BEINGEVICTED \<and> val_length (pk_val p) \<le> SWITCH_MAX_VALLEN)"

definition PutRequestSeqCase3Beingevicted_data :: "packet \<Rightarrow> method_id \<Rightarrow> byte list \<Rightarrow> packet res" where
  "PutRequestSeqCase3Beingevicted_data = receive (farreach_method) PutRequestSeq_deserialize
     (\<lambda>p. pk_type p = PUTREQ_SEQ_CASE3_BEINGEVICTED \<and> val_length (pk_val p) \<le> SWITCH_MAX_VALLEN)"

definition NetcachePutRequestSeqCached_data :: "packet \<Rightarrow> method_id \<Rightarrow> byte list \<Rightarrow> packet res" where
  "NetcachePutRequestSeqCached_data = receive (\<lambda>m. m = NETCACHE_ID \<or> m = DISTCACHE_ID) PutRequestSeq_deserialize
     (\<lambda>p. pk_type p = NETCACHE_PUTREQ_SEQ_CACHED)"

section \<open>Responses with the latest record\<close>

definition GetResponseLatestSeq_new :: "u16 \<Rightarrow> method_id \<Rightarrow> net_key \<Rightarrow> net_val \<Rightarrow> u32 \<Rightarrow> u16 \<Rightarrow> packet res" where
  "GetResponseLatestSeq_new junk m k v seq nodeidx = bind_res (PutRequestSeq_new junk m k v seq) (\<lambda>p.
     bind_res (invariant (val_length (pk_val p) \<le> SWITCH_MAX_VALLEN)) (\<lambda>_.
     Inr (p\<lparr>pk_stat := True, pk_nodeidx := nodeidx, pk_type := GETRES_LATEST_SEQ\<rparr>)))"

definition GetResponseLatestSeq_serialize :: "packet \<Rightarrow> writer" where
  "GetResponseLatestSeq_serialize p = wseq [
     serialize_ophdr p, val_serialize (pk_val p), serialize_packet_type (pk_type p), put32_be (pk_seq p),
     wif (pk_methodid p = FARREACH_ID) [zero_bytes 4], put_bool (pk_stat p), put16_be (pk_nodeidx p),
     skip_res (get_stat_padding_bytes (pk_methodid p))]"

text \<open>Its layout is that of \<^verbatim>\<open>GetResponseSeq\<close>.\<close>

lemma GetResponseLatestSeq_layout: "GetResponseLatestSeq_serialize = GetResponseSeq_serialize"
  by (rule ext) (simp only: GetResponseLatestSeq_serialize_def GetResponseSeq_serialize_def)

definition GetResponseLatestSeqServer_new ::
    "u16 \<Rightarrow> method_id \<Rightarrow> switchidx \<Rightarrow> net_key \<Rightarrow> net_val \<Rightarrow> u32 \<Rightarrow> u16 \<Rightarrow> packet res" where
  "GetResponseLatestSeqServer_new junk m switchidx k v seq nodeidx =
     bind_res (GetResponseLatestSeq_new junk m k v seq nodeidx) (\<lambda>p.
     bind_res (invariant (m = DISTFARREACH_ID)) (\<lambda>_.
     Inr (p\<lparr>pk_type := GETRES_LATEST_SEQ_SERVER, pk_leafswitchidx := switchidx\<rparr>)))"

definition GetResponseDeletedSeq_new :: "u16 \<Rightarrow> method_id \<Rightarrow> net_key \<Rightarrow> net_val \<Rightarrow> u32 \<Rightarrow> u16 \<Rightarrow> packet res" where
  "GetResponseDeletedSeq_new junk m k v seq nodeidx =
     bind_res (GetResponseLatestSeq_new junk m k v seq nodeidx) (\<lambda>p.
     bind_res (invariant (farreach_method m \<and> val_length (pk_val p) = 0)) (\<lambda>_.
     Inr (p\<lparr>pk_stat := False, pk_type := GETRES_DELETED_SEQ\<rparr>)))"

definition GetResponseDeletedSeqServer_new ::
    "u16 \<Rightarrow> method_id \<Rightarrow> switchidx \<Rightarrow> net_key \<Rightarrow> net_val \<Rightarrow> u32 \<Rightarrow> u16 \<Rightarrow> packet res" where
  "GetResponseDeletedSeqServer_new junk m switchidx k v seq nodeidx =
     bind_res (GetResponseDeletedSeq_new junk m k v seq nodeidx) (\<lambda>p.
     bind_res (invariant (m = DISTFARREACH_ID)) (\<lambda>_.
     Inr (p\<lparr>pk_type := GETRES_DELETED_SEQ_SERVER, pk_leafswitchidx := switchidx\<rparr>)))"

section \<open>CASE1: the record of a snapshot\<close>

text \<open>During a snapshot the switch sends the record it is about to overwrite. The class has its own
  \<^verbatim>\<open>_stat\<close>, which hides the one of the base class; \<^verbatim>\<open>deserialize\<close> stops behind it.\<close>

definition GetResponseLatestSeqInswitchCase1_new ::
    "u16 \<Rightarrow> method_id \<Rightarrow> net_key \<Rightarrow> net_val \<Rightarrow> u32 \<Rightarrow> u16 \<Rightarrow> bool \<Rightarrow> packet res" where
  "GetResponseLatestSeqInswitchCase1_new junk m k v seq idx stat =
     bind_res (GetResponseLatestSeq_new junk m k v seq 0) (\<lambda>p.
     bind_res (invariant (farreach_method m \<and> val_length (pk_val p) \<le> SWITCH_MAX_VALLEN)) (\<lambda>_.
     Inr (p\<lparr>pk_idx := idx, pk_stat := stat, pk_type := GETRES_LATEST_SEQ_INSWITCH_CASE1\<rparr>)))"

definition GetResponseLatestSeqInswitchCase1_serialize :: "packet \<Rightarrow> writer" where
  "GetResponseLatestSeqInswitchCase1_serialize p = wseq [
     serialize_ophdr p, val_serialize (pk_val p), serialize_packet_type (pk_type p), put32_be (pk_seq p),
     wif (pk_methodid p = FARREACH_ID) [zero_bytes 4], zero_res (get_inswitch_prev_bytes (pk_methodid p)),
     put16_be (pk_idx p), put_bool (pk_stat p), zero_bytes 2,
     skip_res (get_stat_padding_bytes (pk_methodid p)), zero_res (get_clone_bytes (pk_methodid p))]"

definition GetResponseLatestSeqInswitchCase1_deserialize :: "packet \<Rightarrow> byte list \<Rightarrow> packet res" where
  "GetResponseLatestSeqInswitchCase1_deserialize = run (rseq [
     deserialize_ophdr, rdval pk_val_update, rskip 2, rd32 pk_seq_update,
     rif (\<lambda>m. m = FARREACH_ID) [rskip 4], rskip_res get_inswitch_prev_bytes, rd16 pk_idx_update,
     rdbool pk_stat_update])"

definition GetResponseLatestSeqInswitchCase1_data :: "packet \<Rightarrow> method_id \<Rightarrow> byte list \<Rightarrow> packet res" where
  "GetResponseLatestSeqInswitchCase1_data = receive (farreach_method) GetResponseLatestSeqInswitchCase1_deserialize
     (\<lambda>p. pk_type p = GETRES_LATEST_SEQ_INSWITCH_CASE1 \<and> val_length (pk_val p) \<le> SWITCH_MAX_VALLEN)"

definition GetResponseLatestSeqInswitchCase1_bwcost :: "packet \<Rightarrow> nat res" where
  "GetResponseLatestSeqInswitchCase1_bwcost p =
     (let m = pk_methodid p in
      bind_res (get_ophdrsize m) (\<lambda>size.
      bind_res (get_inswitch_prev_bytes m) (\<lambda>prev.
      bind_res (get_stat_padding_bytes m) (\<lambda>pad.
      bind_res (get_clone_bytes m) (\<lambda>clone.
      Inr (size + 2 + unat (val_length (pk_val p)) + 2 + 4 + prev + 2 + 1 + 2 + pad + clone +
        (if m = FARREACH_ID then 4 else 0)))))))"

definition case1_pat :: "packet \<Rightarrow> pattern" where
  "case1_pat p = concat [
     ophdr_pat p, bytes_pat (val_pat (pk_val p)), be16_pat (pk_type p), be32_pat (pk_seq p),
     if pk_methodid p = FARREACH_ID then concat [bytes_pat (replicate 4 0)] else [],
     bytes_pat (replicate (inswitch_prev (pk_methodid p)) 0), be16_pat (pk_idx p),
     bytes_pat [if pk_stat p then 1 else 0], bytes_pat (replicate 2 0), gap_pat 1,
     bytes_pat (replicate (clone_bytes (pk_methodid p)) 0)]"

definition case1_head :: "packet \<Rightarrow> pattern" where
  "case1_head p = concat [
     ophdr_pat p, bytes_pat (val_pat (pk_val p)), be16_pat (pk_type p), be32_pat (pk_seq p),
     if pk_methodid p = FARREACH_ID then concat [bytes_pat (replicate 4 0)] else [],
     bytes_pat (replicate (inswitch_prev (pk_methodid p)) 0), be16_pat (pk_idx p),
     bytes_pat [if pk_stat p then 1 else 0]]"

definition case1_members :: "packet \<Rightarrow> packet \<Rightarrow> packet" where
  "case1_members p this = (copy_ophdr p this)\<lparr>pk_val := pk_val p, pk_seq := pk_seq p, pk_idx := pk_idx p, pk_stat := pk_stat p\<rparr>"

definition case1_rest :: "packet \<Rightarrow> pattern" where
  "case1_rest p = concat [bytes_pat (replicate 2 0), gap_pat 1, bytes_pat (replicate (clone_bytes (pk_methodid p)) 0)]"

lemma case1_split: "case1_pat p = case1_head p @ case1_rest p"
  by (simp add: case1_pat_def case1_head_def case1_rest_def)

interpretation case1: packet_codec GetResponseLatestSeqInswitchCase1_serialize GetResponseLatestSeqInswitchCase1_deserialize
  case1_pat sendable_val case1_members
  unfolding GetResponseLatestSeqInswitchCase1_deserialize_def
  by (rule packet_codec_prefix [where head = case1_head and rest = case1_rest])
    (unfold GetResponseLatestSeqInswitchCase1_serialize_def case1_pat_def case1_head_def case1_rest_def sendable_val_def,
      (intro packet_emits; simp add: header_sizes_valid), simp,
      (rule packet_parses | simp add: case1_members_def header_sizes_valid Let_def)+)

text \<open>The three classes derived from it differ in the operation code.\<close>

definition GetResponseDeletedSeqInswitchCase1_new ::
    "u16 \<Rightarrow> method_id \<Rightarrow> net_key \<Rightarrow> net_val \<Rightarrow> u32 \<Rightarrow> u16 \<Rightarrow> bool \<Rightarrow> packet res" where
  "GetResponseDeletedSeqInswitchCase1_new junk m k v seq idx stat =
     bind_res (GetResponseLatestSeqInswitchCase1_new junk m k v seq idx stat) (\<lambda>p.
     bind_res (invariant (val_length (pk_val p) \<le> SWITCH_MAX_VALLEN)) (\<lambda>_.
     Inr (p\<lparr>pk_type := GETRES_DELETED_SEQ_INSWITCH_CASE1\<rparr>)))"

definition GetResponseDeletedSeqInswitchCase1_data :: "packet \<Rightarrow> method_id \<Rightarrow> byte list \<Rightarrow> packet res" where
  "GetResponseDeletedSeqInswitchCase1_data = receive (farreach_method) GetResponseLatestSeqInswitchCase1_deserialize
     (\<lambda>p. pk_type p = GETRES_DELETED_SEQ_INSWITCH_CASE1 \<and> val_length (pk_val p) \<le> SWITCH_MAX_VALLEN)"

definition PutRequestSeqInswitchCase1_new ::
    "u16 \<Rightarrow> method_id \<Rightarrow> net_key \<Rightarrow> net_val \<Rightarrow> u32 \<Rightarrow> u16 \<Rightarrow> bool \<Rightarrow> packet res" where
  "PutRequestSeqInswitchCase1_new junk m k v seq idx stat =
     bind_res (GetResponseLatestSeqInswitchCase1_new junk m k v seq idx stat) (\<lambda>p.
     bind_res (invariant (val_length (pk_val p) \<le> SWITCH_MAX_VALLEN)) (\<lambda>_.
     Inr (p\<lparr>pk_type := PUTREQ_SEQ_INSWITCH_CASE1\<rparr>)))"

definition PutRequestSeqInswitchCase1_data :: "packet \<Rightarrow> method_id \<Rightarrow> byte list \<Rightarrow> packet res" where
  "PutRequestSeqInswitchCase1_data = receive (farreach_method) GetResponseLatestSeqInswitchCase1_deserialize
     (\<lambda>p. pk_type p = PUTREQ_SEQ_INSWITCH_CASE1 \<and> val_length (pk_val p) \<le> SWITCH_MAX_VALLEN)"

definition DelRequestSeqInswitchCase1_new ::
    "u16 \<Rightarrow> method_id \<Rightarrow> net_key \<Rightarrow> net_val \<Rightarrow> u32 \<Rightarrow> u16 \<Rightarrow> bool \<Rightarrow> packet res" where
  "DelRequestSeqInswitchCase1_new junk m k v seq idx stat =
     bind_res (GetResponseLatestSeqInswitchCase1_new junk m k v seq idx stat) (\<lambda>p.
     bind_res (invariant (val_length (pk_val p) \<le> SWITCH_MAX_VALLEN)) (\<lambda>_.
     Inr (p\<lparr>pk_type := DELREQ_SEQ_INSWITCH_CASE1\<rparr>)))"

definition DelRequestSeqInswitchCase1_data :: "packet \<Rightarrow> method_id \<Rightarrow> byte list \<Rightarrow> packet res" where
  "DelRequestSeqInswitchCase1_data = receive (farreach_method) GetResponseLatestSeqInswitchCase1_deserialize
     (\<lambda>p. pk_type p = DELREQ_SEQ_INSWITCH_CASE1 \<and> val_length (pk_val p) \<le> SWITCH_MAX_VALLEN)"

section \<open>DelRequestSeq\<close>

text \<open>Only the switch builds these; \<^verbatim>\<open>serialize\<close> of the class ends the process.\<close>

definition DelRequestSeq_size :: "method_id \<Rightarrow> nat res" where
  "DelRequestSeq_size m = bind_res (get_ophdrsize m) (\<lambda>size.
     Inr (size + 2 + 4 + (if m = FARREACH_ID then 4 else 0)))"

definition DelRequestSeq_deserialize :: "packet \<Rightarrow> byte list \<Rightarrow> packet res" where
  "DelRequestSeq_deserialize = run_atleast DelRequestSeq_size (rseq [
     deserialize_ophdr, rskip 2, rd32 pk_seq_update,
     rif (\<lambda>m. m = FARREACH_ID) [rd32 pk_snapshot_token_update]])"

definition DelRequestSeq_data :: "packet \<Rightarrow> method_id \<Rightarrow> byte list \<Rightarrow> packet res" where
  "DelRequestSeq_data = receive any_method DelRequestSeq_deserialize
     (\<lambda>p. pk_type p = DELREQ_SEQ)"

definition DelRequestSeqCase3_data :: "packet \<Rightarrow> method_id \<Rightarrow> byte list \<Rightarrow> packet res" where
  "DelRequestSeqCase3_data = receive (farreach_method) DelRequestSeq_deserialize
     (\<lambda>p. pk_type p = DELREQ_SEQ_CASE3)"

definition DelRequestSeqBeingevicted_data :: "packet \<Rightarrow> method_id \<Rightarrow> byte list \<Rightarrow> packet res" where
  "DelRequestSeqBeingevicted_data = receive (farreach_method) DelRequestSeq_deserialize
     (\<lambda>p. pk_type p = DELREQ_SEQ_BEINGEVICTED)"

definition DelRequestSeqCase3Beingevicted_data :: "packet \<Rightarrow> method_id \<Rightarrow> byte list \<Rightarrow> packet res" where
  "DelRequestSeqCase3Beingevicted_data = receive (farreach_method) DelRequestSeq_deserialize
     (\<lambda>p. pk_type p = DELREQ_SEQ_CASE3_BEINGEVICTED)"

definition NetcacheDelRequestSeqCached_data :: "packet \<Rightarrow> method_id \<Rightarrow> byte list \<Rightarrow> packet res" where
  "NetcacheDelRequestSeqCached_data = receive (\<lambda>m. m = NETCACHE_ID \<or> m = DISTCACHE_ID) DelRequestSeq_deserialize
     (\<lambda>p. pk_type p = NETCACHE_DELREQ_SEQ_CACHED)"

text \<open>This class checks the method after deserializing.\<close>

definition GetRequestLargevalueblockSeq_data :: "packet \<Rightarrow> method_id \<Rightarrow> byte list \<Rightarrow> packet res" where
  "GetRequestLargevalueblockSeq_data = receive any_method DelRequestSeq_deserialize
     (\<lambda>p. farreach_method (pk_methodid p) \<and> pk_type p = GETREQ_LARGEVALUEBLOCK_SEQ)"

definition delseq_pat :: "packet \<Rightarrow> pattern" where
  "delseq_pat p = concat [
     ophdr_pat p, be16_pat (pk_type p), be32_pat (pk_seq p),
     if pk_methodid p = FARREACH_ID then concat [be32_pat (pk_snapshot_token p)] else []]"

definition delseq_members :: "packet \<Rightarrow> packet \<Rightarrow> packet" where
  "delseq_members p this = (let q = (copy_ophdr p this)\<lparr>pk_seq := pk_seq p\<rparr> in
      if pk_methodid p = FARREACH_ID then q\<lparr>pk_snapshot_token := pk_snapshot_token p\<rparr> else q)"

lemma delseq_reads:
  assumes "sendable p" "pk_methodid this = pk_methodid p" "holds_pat 0 (delseq_pat p) data"
  shows "DelRequestSeq_deserialize this data = Inr (delseq_members p this)"
  unfolding DelRequestSeq_deserialize_def
proof (rule run_atleast_parses [OF _ _ _ assms(3)])
  show "DelRequestSeq_size (pk_methodid this) = Inr (length (delseq_pat p))"
    using assms(1,2) by (simp add: DelRequestSeq_size_def header_sizes_valid delseq_pat_def)
  show "length (delseq_pat p) \<le> length data" using assms(3) by (simp add: holds_pat_def)
  show "parses (rseq [deserialize_ophdr, rskip 2, rd32 pk_seq_update,
      rif (\<lambda>m. m = FARREACH_ID) [rd32 pk_snapshot_token_update]] this) (delseq_pat p) (delseq_members p this)"
    unfolding delseq_pat_def by (rule packet_parses | simp add: delseq_members_def Let_def assms(1,2))+
qed

section \<open>ScanRequestSplit\<close>

definition ScanRequestSplit_new :: "method_id \<Rightarrow> net_key \<Rightarrow> net_key \<Rightarrow> u16 \<Rightarrow> u16 \<Rightarrow> packet res" where
  "ScanRequestSplit_new m k e cur_scanidx max_scannum = bind_res (invariant (is_singleswitch m)) (\<lambda>_.
     Inr ((ScanRequest_new m k e)\<lparr>pk_cur_scanidx := cur_scanidx, pk_max_scannum := max_scannum,
       pk_cur_scanswitchidx := 0, pk_max_scanswitchnum := 0, pk_type := SCANREQ_SPLIT\<rparr>))"

definition ScanRequestSplit_new_switch ::
    "method_id \<Rightarrow> net_key \<Rightarrow> net_key \<Rightarrow> u16 \<Rightarrow> u16 \<Rightarrow> u16 \<Rightarrow> u16 \<Rightarrow> packet res" where
  "ScanRequestSplit_new_switch m k e cur_scanidx max_scannum cur_scanswitchidx max_scanswitchnum =
     bind_res (invariant (\<not> is_singleswitch m)) (\<lambda>_.
     Inr ((ScanRequest_new m k e)\<lparr>pk_cur_scanidx := cur_scanidx, pk_max_scannum := max_scannum,
       pk_cur_scanswitchidx := cur_scanswitchidx, pk_max_scanswitchnum := max_scanswitchnum, pk_type := SCANREQ_SPLIT\<rparr>))"

definition ScanRequestSplit_size :: "method_id \<Rightarrow> nat res" where
  "ScanRequestSplit_size m = bind_res (get_ophdrsize m) (\<lambda>size. bind_res (get_split_prev_bytes m) (\<lambda>prev.
     Inr (size + 16 + prev + 2 + 2 + (if \<not> is_singleswitch m then 2 + 2 else 0))))"

definition scan_hdr :: "step list" where
  "scan_hdr = [deserialize_ophdr, rdkey pk_endkey_update, rskip_res get_split_prev_bytes,
     rd16 pk_cur_scanidx_update, rd16 pk_max_scannum_update,
     rif (\<lambda>m. \<not> is_singleswitch m) [rd16 pk_cur_scanswitchidx_update, rd16 pk_max_scanswitchnum_update]]"

definition ScanRequestSplit_deserialize :: "packet \<Rightarrow> byte list \<Rightarrow> packet res" where
  "ScanRequestSplit_deserialize = run_exact ScanRequestSplit_size (rseq scan_hdr)"

definition ScanRequestSplit_data :: "packet \<Rightarrow> method_id \<Rightarrow> byte list \<Rightarrow> packet res" where
  "ScanRequestSplit_data = receive any_method ScanRequestSplit_deserialize (\<lambda>p. pk_type p = SCANREQ_SPLIT)"

section \<open>PutRequestLargevalueSeq\<close>

definition PutRequestLargevalueSeq_new ::
    "u16 \<Rightarrow> method_id \<Rightarrow> net_key \<Rightarrow> net_val \<Rightarrow> u32 \<Rightarrow> u16 \<Rightarrow> u32 \<Rightarrow> packet res" where
  "PutRequestLargevalueSeq_new junk m k v seq client_logical_idx fragseq =
     bind_res (PutRequestLargevalue_new junk m k v client_logical_idx fragseq) (\<lambda>p.
     bind_res (invariant (val_length (pk_val p) > SWITCH_MAX_VALLEN)) (\<lambda>_.
     Inr (p\<lparr>pk_seq := seq, pk_snapshot_token := 0, pk_type := PUTREQ_LARGEVALUE_SEQ\<rparr>)))"

definition PutRequestLargevalueSeq_size :: "method_id \<Rightarrow> nat res" where
  "PutRequestLargevalueSeq_size m = bind_res (get_ophdrsize m) (\<lambda>size.
     Inr (size + 2 + 4 + 2 + 4 + 4 + unat SWITCH_MAX_VALLEN + (if m = FARREACH_ID then 4 else 0)))"

definition PutRequestLargevalueSeq_get_frag_hdrsize :: "method_id \<Rightarrow> nat res" where
  "PutRequestLargevalueSeq_get_frag_hdrsize m = bind_res (get_ophdrsize m) (\<lambda>size.
     Inr (size + 2 + 4 + 2 + 4 + (if m = FARREACH_ID then 4 else 0)))"

definition PutRequestLargevalueSeq_serialize :: "packet \<Rightarrow> writer" where
  "PutRequestLargevalueSeq_serialize p = wseq [
     with_res (PutRequestLargevalueSeq_size (pk_methodid p)) require_space, serialize_ophdr p,
     serialize_packet_type (pk_type p), put32_be (pk_seq p),
     wif (pk_methodid p = FARREACH_ID) [put32_be (pk_snapshot_token p)], put16_be (pk_client_logical_idx p),
     put32_be (pk_fragseq p), val_serialize_large (pk_val p)]"

definition PutRequestLargevalueSeq_deserialize :: "packet \<Rightarrow> byte list \<Rightarrow> packet res" where
  "PutRequestLargevalueSeq_deserialize = run_atleast PutRequestLargevalueSeq_size (rseq [
     deserialize_ophdr, rskip 2, rd32 pk_seq_update,
     rif (\<lambda>m. m = FARREACH_ID) [rd32 pk_snapshot_token_update], rd16 pk_client_logical_idx_update,
     rdfragseq, rdval_large pk_val_update])"

definition PutRequestLargevalueSeq_data :: "packet \<Rightarrow> method_id \<Rightarrow> byte list \<Rightarrow> packet res" where
  "PutRequestLargevalueSeq_data = receive any_method PutRequestLargevalueSeq_deserialize
     (\<lambda>p. pk_type p = PUTREQ_LARGEVALUE_SEQ \<and> val_length (pk_val p) > SWITCH_MAX_VALLEN)"

definition largeseq_pat :: "packet \<Rightarrow> pattern" where
  "largeseq_pat p = concat [
     ophdr_pat p, be16_pat (pk_type p), be32_pat (pk_seq p),
     if pk_methodid p = FARREACH_ID then concat [be32_pat (pk_snapshot_token p)] else [],
     be16_pat (pk_client_logical_idx p), be32_pat (pk_fragseq p), bytes_pat (val_pat_large (pk_val p))]"

definition largeseq_members :: "packet \<Rightarrow> packet \<Rightarrow> packet" where
  "largeseq_members p this = (let q = (copy_ophdr p this)\<lparr>pk_seq := pk_seq p, pk_client_logical_idx := pk_client_logical_idx p, pk_fragseq := ucast (htons (ucast (htonl (pk_fragseq p)))), pk_val := pk_val p\<rparr> in
      if pk_methodid p = FARREACH_ID then q\<lparr>pk_snapshot_token := pk_snapshot_token p\<rparr> else q)"

lemma emits_largeseq: "sendable_big p \<Longrightarrow> emits (PutRequestLargevalueSeq_serialize p) (largeseq_pat p)"
  using big_pat_length [of p] unfolding PutRequestLargevalueSeq_serialize_def largeseq_pat_def
  by (intro emits_size_check packet_emits)
    (auto simp: PutRequestLargevalueSeq_size_def header_sizes_valid sendable_big_def SWITCH_MAX_VALLEN_def)

interpretation largeseq: packet_codec PutRequestLargevalueSeq_serialize PutRequestLargevalueSeq_deserialize largeseq_pat sendable_big largeseq_members
  unfolding PutRequestLargevalueSeq_deserialize_def
  apply (rule packet_codec_atleast [OF emits_largeseq, where n = "\<lambda>p. ophdrsize (pk_methodid p) + 144 + (if pk_methodid p = FARREACH_ID then 4 else 0)"])
    apply assumption
  subgoal for p using big_pat_length [of p]
    by (auto simp: PutRequestLargevalueSeq_size_def header_sizes_valid sendable_big_def SWITCH_MAX_VALLEN_def largeseq_pat_def)
  unfolding largeseq_pat_def sendable_big_def
  by (rule packet_parses | simp add: largeseq_members_def Let_def header_sizes_valid)+

definition PutRequestLargevalueSeqCached_new ::
    "u16 \<Rightarrow> method_id \<Rightarrow> net_key \<Rightarrow> net_val \<Rightarrow> u32 \<Rightarrow> u16 \<Rightarrow> u32 \<Rightarrow> packet res" where
  "PutRequestLargevalueSeqCached_new junk m k v seq client_logical_idx fragseq =
     bind_res (PutRequestLargevalueSeq_new junk m k v seq client_logical_idx fragseq) (\<lambda>p.
     bind_res (invariant ((m = NETCACHE_ID \<or> m = DISTCACHE_ID) \<and> val_length (pk_val p) > SWITCH_MAX_VALLEN)) (\<lambda>_.
     Inr (p\<lparr>pk_type := PUTREQ_LARGEVALUE_SEQ_CACHED\<rparr>)))"

definition PutRequestLargevalueSeqCached_data :: "packet \<Rightarrow> method_id \<Rightarrow> byte list \<Rightarrow> packet res" where
  "PutRequestLargevalueSeqCached_data = receive (\<lambda>m. m = NETCACHE_ID \<or> m = DISTCACHE_ID) PutRequestLargevalueSeq_deserialize
     (\<lambda>p. pk_type p = PUTREQ_LARGEVALUE_SEQ_CACHED \<and> val_length (pk_val p) > SWITCH_MAX_VALLEN)"

definition PutRequestLargevalueSeqCached_get_frag_hdrsize :: "method_id \<Rightarrow> nat res" where
  "PutRequestLargevalueSeqCached_get_frag_hdrsize m = bind_res (get_ophdrsize m) (\<lambda>size.
     Inr (size + 2 + 4 + 2 + 4 + (if m = FARREACH_ID then 4 else 0)))"

definition PutRequestLargevalueSeqCase3_new ::
    "u16 \<Rightarrow> method_id \<Rightarrow> net_key \<Rightarrow> net_val \<Rightarrow> u32 \<Rightarrow> u16 \<Rightarrow> u32 \<Rightarrow> packet res" where
  "PutRequestLargevalueSeqCase3_new junk m k v seq client_logical_idx fragseq =
     bind_res (PutRequestLargevalueSeq_new junk m k v seq client_logical_idx fragseq) (\<lambda>p.
     bind_res (invariant ((farreach_method m) \<and> val_length (pk_val p) > SWITCH_MAX_VALLEN)) (\<lambda>_.
     Inr (p\<lparr>pk_type := PUTREQ_LARGEVALUE_SEQ_CASE3\<rparr>)))"

definition PutRequestLargevalueSeqCase3_data :: "packet \<Rightarrow> method_id \<Rightarrow> byte list \<Rightarrow> packet res" where
  "PutRequestLargevalueSeqCase3_data = receive (farreach_method) PutRequestLargevalueSeq_deserialize
     (\<lambda>p. pk_type p = PUTREQ_LARGEVALUE_SEQ_CASE3 \<and> val_length (pk_val p) > SWITCH_MAX_VALLEN)"

definition PutRequestLargevalueSeqCase3_get_frag_hdrsize :: "method_id \<Rightarrow> nat res" where
  "PutRequestLargevalueSeqCase3_get_frag_hdrsize m = bind_res (get_ophdrsize m) (\<lambda>size.
     Inr (size + 2 + 4 + 2 + 4 + (if m = FARREACH_ID then 4 else 0)))"

definition PutRequestLargevalueSeqBeingevicted_new ::
    "u16 \<Rightarrow> method_id \<Rightarrow> net_key \<Rightarrow> net_val \<Rightarrow> u32 \<Rightarrow> u16 \<Rightarrow> u32 \<Rightarrow> packet res" where
  "PutRequestLargevalueSeqBeingevicted_new junk m k v seq client_logical_idx fragseq =
     bind_res (PutRequestLargevalueSeq_new junk m k v seq client_logical_idx fragseq) (\<lambda>p.
     bind_res (invariant ((farreach_method m) \<and> val_length (pk_val p) > SWITCH_MAX_VALLEN)) (\<lambda>_.
     Inr (p\<lparr>pk_type := PUTREQ_LARGEVALUE_SEQ_BEINGEVICTED\<rparr>)))"

definition PutRequestLargevalueSeqBeingevicted_data :: "packet \<Rightarrow> method_id \<Rightarrow> byte list \<Rightarrow> packet res" where
  "PutRequestLargevalueSeqBeingevicted_data = receive (farreach_method) PutRequestLargevalueSeq_deserialize
     (\<lambda>p. pk_type p = PUTREQ_LARGEVALUE_SEQ_BEINGEVICTED \<and> val_length (pk_val p) > SWITCH_MAX_VALLEN)"

definition PutRequestLargevalueSeqBeingevicted_get_frag_hdrsize :: "method_id \<Rightarrow> nat res" where
  "PutRequestLargevalueSeqBeingevicted_get_frag_hdrsize m = bind_res (get_ophdrsize m) (\<lambda>size.
     Inr (size + 2 + 4 + 2 + 4 + (if m = FARREACH_ID then 4 else 0)))"

definition PutRequestLargevalueSeqCase3Beingevicted_new ::
    "u16 \<Rightarrow> method_id \<Rightarrow> net_key \<Rightarrow> net_val \<Rightarrow> u32 \<Rightarrow> u16 \<Rightarrow> u32 \<Rightarrow> packet res" where
  "PutRequestLargevalueSeqCase3Beingevicted_new junk m k v seq client_logical_idx fragseq =
     bind_res (PutRequestLargevalueSeq_new junk m k v seq client_logical_idx fragseq) (\<lambda>p.
     bind_res (invariant ((farreach_method m) \<and> val_length (pk_val p) > SWITCH_MAX_VALLEN)) (\<lambda>_.
     Inr (p\<lparr>pk_type := PUTREQ_LARGEVALUE_SEQ_CASE3_BEINGEVICTED\<rparr>)))"

definition PutRequestLargevalueSeqCase3Beingevicted_data :: "packet \<Rightarrow> method_id \<Rightarrow> byte list \<Rightarrow> packet res" where
  "PutRequestLargevalueSeqCase3Beingevicted_data = receive (farreach_method) PutRequestLargevalueSeq_deserialize
     (\<lambda>p. pk_type p = PUTREQ_LARGEVALUE_SEQ_CASE3_BEINGEVICTED \<and> val_length (pk_val p) > SWITCH_MAX_VALLEN)"

definition PutRequestLargevalueSeqCase3Beingevicted_get_frag_hdrsize :: "method_id \<Rightarrow> nat res" where
  "PutRequestLargevalueSeqCase3Beingevicted_get_frag_hdrsize m = bind_res (get_ophdrsize m) (\<lambda>size.
     Inr (size + 2 + 4 + 2 + 4 + (if m = FARREACH_ID then 4 else 0)))"

section \<open>GetRequestBeingevicted\<close>

definition GetRequestBeingevicted_new :: "method_id \<Rightarrow> net_key \<Rightarrow> packet res" where
  "GetRequestBeingevicted_new m k = bind_res (GetRequest_new m k) (\<lambda>p.
     bind_res (invariant (farreach_method m)) (\<lambda>_. Inr (p\<lparr>pk_type := GETREQ_BEINGEVICTED\<rparr>)))"

definition GetRequestBeingevicted_data :: "packet \<Rightarrow> method_id \<Rightarrow> byte list \<Rightarrow> packet res" where
  "GetRequestBeingevicted_data = receive (farreach_method) GetRequest_deserialize
     (\<lambda>p. pk_type p = GETREQ_BEINGEVICTED)"

section \<open>Dispatch on the operation code\<close>

text \<open>Classes of one layout are told apart by the operation code: a receiver accepts the datagrams of
  its own code and refuses the others.\<close>

context packet_codec
begin

lemma dispatch:
  assumes "ok p" "length (pat p) \<le> length buf" "okm (pk_methodid p)"
  shows "transmit ser (receive okm deser accept this (pk_methodid p)) buf p =
    (if accept (members p (packet_init (pk_methodid p) this)) then Inr (members p (packet_init (pk_methodid p) this))
     else Inl Abort)"
  using send_receive [of p buf okm accept this] receive_wrong_type [of p buf accept this okm] assms
  by (simp add: transmit_def)

lemma dispatch_method:
  assumes "ok p" "length (pat p) \<le> length buf"
  shows "transmit ser (receive okm deser accept this (pk_methodid p)) buf p =
    (if okm (pk_methodid p) \<and> accept (members p (packet_init (pk_methodid p) this))
     then Inr (members p (packet_init (pk_methodid p) this)) else Inl Abort)"
proof (cases "okm (pk_methodid p)")
  case False
  obtain data where "datagram ser p buf = Inr data" using sent [OF assms] by blast
  then show ?thesis using False by (simp add: transmit_def receive_def)
qed (simp add: dispatch [OF assms])

end

lemma seq_members [simp]:
  "pk_type (putseq_members p this) = pk_type p" "pk_key (putseq_members p this) = pk_key p"
  "pk_val (putseq_members p this) = pk_val p" "pk_seq (putseq_members p this) = pk_seq p"
  "pk_methodid p = FARREACH_ID \<Longrightarrow> pk_snapshot_token (putseq_members p this) = pk_snapshot_token p"
  "pk_type (delseq_members p this) = pk_type p" "pk_key (delseq_members p this) = pk_key p"
  "pk_seq (delseq_members p this) = pk_seq p"
  "pk_methodid p = FARREACH_ID \<Longrightarrow> pk_snapshot_token (delseq_members p this) = pk_snapshot_token p"
  "pk_methodid (delseq_members p this) = pk_methodid this"
  "pk_type (case1_members p this) = pk_type p" "pk_key (case1_members p this) = pk_key p"
  "pk_val (case1_members p this) = pk_val p" "pk_seq (case1_members p this) = pk_seq p"
  "pk_idx (case1_members p this) = pk_idx p" "pk_stat (case1_members p this) = pk_stat p"
  "pk_type (largeseq_members p this) = pk_type p" "pk_key (largeseq_members p this) = pk_key p"
  "pk_val (largeseq_members p this) = pk_val p" "pk_seq (largeseq_members p this) = pk_seq p"
  "pk_client_logical_idx (largeseq_members p this) = pk_client_logical_idx p"
  "pk_fragseq (largeseq_members p this) = drop_bit 16 (pk_fragseq p)"
  "pk_methodid p = FARREACH_ID \<Longrightarrow> pk_snapshot_token (largeseq_members p this) = pk_snapshot_token p"
  by (simp_all add: putseq_members_def delseq_members_def case1_members_def largeseq_members_def fragseq_high Let_def)

text \<open>The receivers for the layouts of a put and of a delete request with a sequence number: the operation code, the methods
  that have the class, and its parsing constructor.\<close>

type_synonym receiver = "packet \<Rightarrow> method_id \<Rightarrow> byte list \<Rightarrow> packet res"

definition put_receivers :: "(optype \<times> (method_id \<Rightarrow> bool) \<times> receiver) list" where
  "put_receivers = [(PUTREQ_SEQ, any_method, PutRequestSeq_data), (PUTREQ_POP_SEQ, farreach_method, PutRequestPopSeq_data),
     (PUTREQ_SEQ_CASE3, farreach_method, PutRequestSeqCase3_data), (PUTREQ_POP_SEQ_CASE3, farreach_method, PutRequestPopSeqCase3_data),
     (PUTREQ_SEQ_BEINGEVICTED, farreach_method, PutRequestSeqBeingevicted_data),
     (PUTREQ_SEQ_CASE3_BEINGEVICTED, farreach_method, PutRequestSeqCase3Beingevicted_data),
     (NETCACHE_PUTREQ_SEQ_CACHED, \<lambda>m. m = NETCACHE_ID \<or> m = DISTCACHE_ID, NetcachePutRequestSeqCached_data)]"

definition del_receivers :: "(optype \<times> (method_id \<Rightarrow> bool) \<times> receiver) list" where
  "del_receivers = [(DELREQ_SEQ, any_method, DelRequestSeq_data), (DELREQ_SEQ_CASE3, farreach_method, DelRequestSeqCase3_data),
     (DELREQ_SEQ_BEINGEVICTED, farreach_method, DelRequestSeqBeingevicted_data),
     (DELREQ_SEQ_CASE3_BEINGEVICTED, farreach_method, DelRequestSeqCase3Beingevicted_data),
     (NETCACHE_DELREQ_SEQ_CACHED, \<lambda>m. m = NETCACHE_ID \<or> m = DISTCACHE_ID, NetcacheDelRequestSeqCached_data),
     (GETREQ_LARGEVALUEBLOCK_SEQ, farreach_method, GetRequestLargevalueblockSeq_data)]"

lemmas put_receiver_defs = PutRequestSeq_data_def PutRequestPopSeq_data_def PutRequestSeqCase3_data_def
  PutRequestPopSeqCase3_data_def PutRequestSeqBeingevicted_data_def PutRequestSeqCase3Beingevicted_data_def
  NetcachePutRequestSeqCached_data_def

lemmas del_receiver_defs = DelRequestSeq_data_def DelRequestSeqCase3_data_def DelRequestSeqBeingevicted_data_def
  DelRequestSeqCase3Beingevicted_data_def NetcacheDelRequestSeqCached_data_def GetRequestLargevalueblockSeq_data_def

text \<open>C16: a put request with a value of at most 128 bytes that the switch has sequenced is accepted by exactly the receiver
  of its operation code, and only for the methods that have this class; it arrives with key, value, sequence number and
  (FarReach) snapshot token, and every other of the seven receivers aborts. The same holds of the six receivers for the
  datagrams that have the layout of a sequenced delete request (five kinds of delete request and
  \<^verbatim>\<open>GETREQ_LARGEVALUEBLOCK_SEQ\<close>).\<close>

theorem seq_request_dispatch:
  assumes "pk_methodid p \<noteq> INVALID_ID" "val_ok (pk_val p)" "unat (val_length (pk_val p)) \<le> 128"
    "ophdrsize (pk_methodid p) + unat (val_length (pk_val p)) + padding (pk_val p) + 12 \<le> length buf"
    "(t, okm, recv) \<in> set put_receivers" "(t', okm', recv') \<in> set del_receivers" "holds_pat 0 (delseq_pat p) data"
  shows "(if okm (pk_methodid p) \<and> pk_type p = t
     then \<exists>q. transmit PutRequestSeq_serialize (recv this (pk_methodid p)) buf p = Inr q \<and> pk_type q = t \<and>
       pk_key q = pk_key p \<and> pk_val q = pk_val p \<and> pk_seq q = pk_seq p \<and>
       (pk_methodid p = FARREACH_ID \<longrightarrow> pk_snapshot_token q = pk_snapshot_token p)
     else transmit PutRequestSeq_serialize (recv this (pk_methodid p)) buf p = Inl Abort) \<and>
    (if okm' (pk_methodid p) \<and> pk_type p = t'
     then \<exists>q. recv' this (pk_methodid p) data = Inr q \<and> pk_type q = t' \<and> pk_key q = pk_key p \<and> pk_seq q = pk_seq p \<and>
       (pk_methodid p = FARREACH_ID \<longrightarrow> pk_snapshot_token q = pk_snapshot_token p)
     else recv' this (pk_methodid p) data = Inl Abort)"
proof -
  let ?m = "pk_methodid p"
  let ?q = "putseq_members p (packet_init ?m this)" and ?r = "delseq_members p (packet_init ?m this)"
  have ok: "sendable_val p" "sendable p" using assms(1-3) by (auto simp: sendable_val_def val_small_def)
  have len: "length (putseq_pat p) \<le> length buf"
    using assms(2,4) by (auto simp: putseq_pat_def val_pat_def length_val_body)
  have put: "transmit PutRequestSeq_serialize (recv this ?m) buf p = (if okm ?m \<and> pk_type p = t then Inr ?q else Inl Abort)"
  proof -
    have "recv = receive okm PutRequestSeq_deserialize (\<lambda>p. pk_type p = t \<and> val_length (pk_val p) \<le> SWITCH_MAX_VALLEN) \<or>
        recv = receive okm PutRequestSeq_deserialize (\<lambda>p. pk_type p = t)"
      using assms(5) by (auto simp: put_receivers_def put_receiver_defs)
    then show ?thesis
      using assms(3) putseq.dispatch_method [OF ok(1) len] by (elim disjE) (simp_all add: SWITCH_MAX_VALLEN_def word_le_nat_alt)
  qed
  have del: "recv' this ?m data = (if okm' ?m \<and> pk_type p = t' then Inr ?r else Inl Abort)"
  proof -
    have "recv' = receive okm' DelRequestSeq_deserialize (\<lambda>p. pk_type p = t') \<or>
        recv' = receive any_method DelRequestSeq_deserialize (\<lambda>p. okm' (pk_methodid p) \<and> pk_type p = t')"
      using assms(6) by (auto simp: del_receivers_def del_receiver_defs)
    then show ?thesis
      using delseq_reads [OF ok(2) _ assms(7), of "packet_init ?m this"] by (elim disjE) (simp_all add: receive_def invariant_def)
  qed
  show ?thesis by (simp add: put del)
qed

theorem seq_request_dispatch_witness:
  "\<exists>q. bind_res (PutRequestSeq_new 0 FARREACH_ID key_max \<lparr>val_length = 3, val_data = Some [1, 2, 3]\<rparr> 77)
      (transmit PutRequestSeq_serialize (PutRequestSeq_data packet_default FARREACH_ID) (replicate 60 0)) = Inr q \<and>
     pk_seq q = 77"
proof -
  let ?v = "\<lparr>val_length = 3, val_data = Some [1, 2, 3]\<rparr> :: net_val"
  let ?p = "(packet_new_spineleaf 0 FARREACH_ID PUTREQ_SEQ 0 0 key_max)\<lparr>pk_val := ?v, pk_seq := 77, pk_snapshot_token := 0\<rparr>"
  have v: "val_ok ?v" by (simp add: val_ok_def)
  have new: "PutRequestSeq_new 0 FARREACH_ID key_max ?v 77 = Inr ?p"
    using val_copy_ok [OF v] by (simp add: PutRequestSeq_new_def)
  have "holds_pat 0 (delseq_pat ?p) (overlay 0 (delseq_pat ?p) (replicate 40 0))"
    by (rule holds_pat_overlay) (simp add: delseq_pat_def packet_new_spineleaf_def ophdrsize_def is_singleswitch_def)
  then show ?thesis
    using seq_request_dispatch [of ?p "replicate 60 0" PUTREQ_SEQ any_method PutRequestSeq_data DELREQ_SEQ any_method DelRequestSeq_data
      "overlay 0 (delseq_pat ?p) (replicate 40 0)" packet_default] v
    by (auto simp: new put_receivers_def del_receivers_def packet_new_spineleaf_def padding_def ophdrsize_def is_singleswitch_def)
qed

definition case1_receivers :: "(optype \<times> (packet \<Rightarrow> method_id \<Rightarrow> byte list \<Rightarrow> packet res)) list" where
  "case1_receivers = [(GETRES_LATEST_SEQ_INSWITCH_CASE1, GetResponseLatestSeqInswitchCase1_data),
     (GETRES_DELETED_SEQ_INSWITCH_CASE1, GetResponseDeletedSeqInswitchCase1_data),
     (PUTREQ_SEQ_INSWITCH_CASE1, PutRequestSeqInswitchCase1_data),
     (DELREQ_SEQ_INSWITCH_CASE1, DelRequestSeqInswitchCase1_data)]"

lemmas case1_receiver_defs = GetResponseLatestSeqInswitchCase1_data_def GetResponseDeletedSeqInswitchCase1_data_def
  PutRequestSeqInswitchCase1_data_def DelRequestSeqInswitchCase1_data_def

text \<open>C20: a CASE1 packet carries the record that a snapshot must keep: exactly the receiver of its
  operation code accepts it, with key, value, sequence number, cache index and the flag that says
  whether the record exists; \<^verbatim>\<open>bwcost\<close> is the number of bytes sent, without the padding of the value.\<close>

theorem case1_dispatch:
  assumes "farreach_method (pk_methodid p)" "val_ok (pk_val p)" "unat (val_length (pk_val p)) \<le> 128"
    "length (case1_pat p) \<le> length buf" "(t, recv) \<in> set case1_receivers"
  shows "(if pk_type p = t
     then \<exists>q. transmit GetResponseLatestSeqInswitchCase1_serialize (recv this (pk_methodid p)) buf p = Inr q \<and> pk_type q = t \<and>
       pk_key q = pk_key p \<and> pk_val q = pk_val p \<and> pk_seq q = pk_seq p \<and> pk_idx q = pk_idx p \<and> pk_stat q = pk_stat p
     else transmit GetResponseLatestSeqInswitchCase1_serialize (recv this (pk_methodid p)) buf p = Inl Abort) \<and>
    (\<exists>data. datagram GetResponseLatestSeqInswitchCase1_serialize p buf = Inr data \<and>
       GetResponseLatestSeqInswitchCase1_bwcost p = Inr (length data - padding (pk_val p)))"
proof -
  let ?m = "pk_methodid p"
  let ?q = "case1_members p (packet_init ?m this)"
  have ok: "sendable_val p" "?m \<noteq> INVALID_ID" using assms(1-3) by (auto simp: sendable_val_def val_small_def)
  have "transmit GetResponseLatestSeqInswitchCase1_serialize (recv this ?m) buf p = (if pk_type p = t then Inr ?q else Inl Abort)"
    using assms(3,5) case1.dispatch [OF ok(1) assms(4), of farreach_method, OF assms(1)]
    by (auto simp: case1_receivers_def case1_receiver_defs SWITCH_MAX_VALLEN_def word_le_nat_alt)
  moreover obtain data where "datagram GetResponseLatestSeqInswitchCase1_serialize p buf = Inr data" "length data = length (case1_pat p)"
    using case1.sent [OF ok(1) assms(4)] by blast
  moreover have "length (case1_pat p) - padding (pk_val p) = ophdrsize ?m + 2 + unat (val_length (pk_val p)) + 2 + 4 +
      inswitch_prev ?m + 2 + 1 + 2 + 1 + clone_bytes ?m + (if ?m = FARREACH_ID then 4 else 0)"
    using assms(2) by (simp add: case1_pat_def val_pat_def length_val_body)
  ultimately show ?thesis
    using ok(2) by (simp add: GetResponseLatestSeqInswitchCase1_bwcost_def Let_def header_sizes_valid)
qed

theorem case1_dispatch_witness:
  "\<exists>q. transmit GetResponseLatestSeqInswitchCase1_serialize (PutRequestSeqInswitchCase1_data packet_default FARREACH_ID)
      (replicate 80 0) (packet_default\<lparr>pk_methodid := FARREACH_ID, pk_type := PUTREQ_SEQ_INSWITCH_CASE1, pk_idx := 5\<rparr>) = Inr q \<and>
     pk_idx q = 5"
  using case1_dispatch [of "packet_default\<lparr>pk_methodid := FARREACH_ID, pk_type := PUTREQ_SEQ_INSWITCH_CASE1, pk_idx := 5\<rparr>"
      "replicate 80 0" PUTREQ_SEQ_INSWITCH_CASE1 PutRequestSeqInswitchCase1_data packet_default]
  by (auto simp: case1_receivers_def packet_default_def val_ok_def val_default_def case1_pat_def val_pat_def length_val_body
      padding_def ophdrsize_def is_singleswitch_def inswitch_prev_def get_inswitch_prev_bytes_def clone_bytes_def
      get_clone_bytes_def the_res_def)

definition large_receivers :: "(optype \<times> (method_id \<Rightarrow> bool) \<times> receiver \<times> (method_id \<Rightarrow> nat res)) list" where
  "large_receivers = [(PUTREQ_LARGEVALUE_SEQ, any_method, PutRequestLargevalueSeq_data, PutRequestLargevalueSeq_get_frag_hdrsize),
     (PUTREQ_LARGEVALUE_SEQ_CACHED, \<lambda>m. m = NETCACHE_ID \<or> m = DISTCACHE_ID, PutRequestLargevalueSeqCached_data,
       PutRequestLargevalueSeqCached_get_frag_hdrsize),
     (PUTREQ_LARGEVALUE_SEQ_CASE3, farreach_method, PutRequestLargevalueSeqCase3_data, PutRequestLargevalueSeqCase3_get_frag_hdrsize),
     (PUTREQ_LARGEVALUE_SEQ_BEINGEVICTED, farreach_method, PutRequestLargevalueSeqBeingevicted_data,
       PutRequestLargevalueSeqBeingevicted_get_frag_hdrsize),
     (PUTREQ_LARGEVALUE_SEQ_CASE3_BEINGEVICTED, farreach_method, PutRequestLargevalueSeqCase3Beingevicted_data,
       PutRequestLargevalueSeqCase3Beingevicted_get_frag_hdrsize)]"

lemmas large_receiver_defs = PutRequestLargevalueSeq_data_def PutRequestLargevalueSeqCached_data_def PutRequestLargevalueSeqCase3_data_def
  PutRequestLargevalueSeqBeingevicted_data_def PutRequestLargevalueSeqCase3Beingevicted_data_def

lemmas large_hdrsize_defs = PutRequestLargevalueSeq_get_frag_hdrsize_def PutRequestLargevalueSeqCached_get_frag_hdrsize_def
  PutRequestLargevalueSeqCase3_get_frag_hdrsize_def PutRequestLargevalueSeqBeingevicted_get_frag_hdrsize_def
  PutRequestLargevalueSeqCase3Beingevicted_get_frag_hdrsize_def

lemma largeseq_length:
  "val_ok (pk_val p) \<Longrightarrow> length (largeseq_pat p) = ophdrsize (pk_methodid p) + 16 + unat (val_length (pk_val p)) +
     padding (pk_val p) + (if pk_methodid p = FARREACH_ID then 4 else 0)"
  by (simp add: largeseq_pat_def val_pat_large_def length_val_body)

text \<open>C19: a sequenced put request with a value longer than 128 bytes is accepted by exactly the one of the five receivers
  that has its operation code, and only for the methods that have this class; it arrives with key, value, sequence number,
  (FarReach) snapshot token and client index, but with the upper half of the fragment sequence number only. The header that
  every fragment repeats (\<^verbatim>\<open>get_frag_hdrsize\<close> of the class) is what precedes the value in the datagram.\<close>

theorem large_seq_dispatch:
  assumes "pk_methodid p \<noteq> INVALID_ID" "val_ok (pk_val p)" "128 < unat (val_length (pk_val p))"
    "ophdrsize (pk_methodid p) + 20 + unat (val_length (pk_val p)) + padding (pk_val p) \<le> length buf"
    "(t, okm, recv, hdrsize) \<in> set large_receivers"
  shows "(if okm (pk_methodid p) \<and> pk_type p = t
     then \<exists>q. transmit PutRequestLargevalueSeq_serialize (recv this (pk_methodid p)) buf p = Inr q \<and> pk_type q = t \<and>
       pk_key q = pk_key p \<and> pk_val q = pk_val p \<and> pk_seq q = pk_seq p \<and>
       (pk_methodid p = FARREACH_ID \<longrightarrow> pk_snapshot_token q = pk_snapshot_token p) \<and>
       pk_client_logical_idx q = pk_client_logical_idx p \<and> pk_fragseq q = drop_bit 16 (pk_fragseq p)
     else transmit PutRequestLargevalueSeq_serialize (recv this (pk_methodid p)) buf p = Inl Abort) \<and>
    (\<exists>data hdr. datagram PutRequestLargevalueSeq_serialize p buf = Inr data \<and>
       hdrsize (pk_methodid p) = Inr hdr \<and> drop hdr data = val_pat_large (pk_val p))"
proof -
  let ?m = "pk_methodid p"
  let ?q = "largeseq_members p (packet_init ?m this)"
  have ok: "sendable_big p" using assms(1-3) by (auto simp: sendable_big_def SWITCH_MAX_VALLEN_def word_less_nat_alt)
  have len: "length (largeseq_pat p) \<le> length buf" using assms(4) largeseq_length [OF assms(2)] by auto
  have disp: "transmit PutRequestLargevalueSeq_serialize (recv this ?m) buf p = (if okm ?m \<and> pk_type p = t then Inr ?q else Inl Abort)"
  proof -
    have "recv = receive okm PutRequestLargevalueSeq_deserialize (\<lambda>p. pk_type p = t \<and> val_length (pk_val p) > SWITCH_MAX_VALLEN)"
      using assms(5) by (auto simp: large_receivers_def large_receiver_defs)
    then show ?thesis
      using assms(3) largeseq.dispatch_method [OF ok len] by (simp add: SWITCH_MAX_VALLEN_def word_less_nat_alt)
  qed
  define hdr where "hdr = concat [ophdr_bytes p, le16 (htons (pk_type p)), le32 (htonl (pk_seq p)),
    if ?m = FARREACH_ID then le32 (htonl (pk_snapshot_token p)) else [],
    le16 (htons (pk_client_logical_idx p)), le32 (htonl (pk_fragseq p))]"
  have "largeseq_pat p = bytes_pat (hdr @ val_pat_large (pk_val p))" by (simp add: largeseq_pat_def hdr_def)
  then have "datagram PutRequestLargevalueSeq_serialize p buf = Inr (hdr @ val_pat_large (pk_val p))"
    using largeseq.sent_bytes [OF ok] len by simp
  moreover have "hdrsize ?m = Inr (length hdr)"
    using assms(1,5) by (auto simp: large_receivers_def large_hdrsize_defs header_sizes_valid hdr_def)
  ultimately show ?thesis by (simp add: disp)
qed

theorem large_seq_dispatch_witness:
  "\<exists>q. transmit PutRequestLargevalueSeq_serialize (PutRequestLargevalueSeqCached_data packet_default NETCACHE_ID)
      (replicate 200 0) (packet_default\<lparr>pk_methodid := NETCACHE_ID, pk_type := PUTREQ_LARGEVALUE_SEQ_CACHED,
        pk_val := \<lparr>val_length = 129, val_data = Some (replicate 129 1)\<rparr>, pk_seq := 5\<rparr>) = Inr q \<and> pk_seq q = 5"
proof -
  have "val_ok \<lparr>val_length = 129, val_data = Some (replicate 129 1)\<rparr>" by (simp add: val_ok_def)
  then show ?thesis
    using large_seq_dispatch [of "packet_default\<lparr>pk_methodid := NETCACHE_ID, pk_type := PUTREQ_LARGEVALUE_SEQ_CACHED,
        pk_val := \<lparr>val_length = 129, val_data = Some (replicate 129 1)\<rparr>, pk_seq := 5\<rparr>" "replicate 200 0"
        PUTREQ_LARGEVALUE_SEQ_CACHED "\<lambda>m. m = NETCACHE_ID \<or> m = DISTCACHE_ID" PutRequestLargevalueSeqCached_data
        PutRequestLargevalueSeqCached_get_frag_hdrsize packet_default]
    by (auto simp: large_receivers_def padding_def ophdrsize_def is_singleswitch_def)
qed

end
