(* ===== verification/Packet_Cache.thy ===== *)
theory Packet_Cache
  imports Packet_Seq
begin

text \<open>
  The packets that manage the cache: population and eviction of records between server, controller
  and switch, the validity bits, and the value updates of NetCache and DistCache
  (src/common/packet_format_impl.h).
\<close>

abbreviation netcache_method :: "method_id \<Rightarrow> bool" where
  "netcache_method m \<equiv> m = NETCACHE_ID \<or> m = DISTCACHE_ID"

section \<open>CachePop and CacheEvict\<close>

text \<open>Only end hosts see these two, so they carry no shadow type; \<^verbatim>\<open>bwcost\<close> is what a controller accounts.\<close>

definition CachePop_new :: "u16 \<Rightarrow> method_id \<Rightarrow> net_key \<Rightarrow> net_val \<Rightarrow> u32 \<Rightarrow> bool \<Rightarrow> u16 \<Rightarrow> packet res" where
  "CachePop_new junk m k v seq stat serveridx = bind_res (PutRequestSeq_new junk m k v seq) (\<lambda>p.
     bind_res (invariant (val_length (pk_val p) \<le> SWITCH_MAX_VALLEN)) (\<lambda>_.
     Inr (p\<lparr>pk_stat := stat, pk_serveridx := serveridx, pk_type := CACHE_POP\<rparr>)))"

definition CachePop_serialize :: "packet \<Rightarrow> writer" where
  "CachePop_serialize p = wseq [
     serialize_ophdr p, val_serialize (pk_val p), put32_be (pk_seq p), put_bool (pk_stat p),
     put16_be (pk_serveridx p)]"

definition CachePop_deserialize :: "packet \<Rightarrow> byte list \<Rightarrow> packet res" where
  "CachePop_deserialize = run (rseq [
     deserialize_ophdr, rdval pk_val_update, rd32 pk_seq_update, rdbool pk_stat_update,
     rd16 pk_serveridx_update])"

definition CachePop_data :: "packet \<Rightarrow> method_id \<Rightarrow> byte list \<Rightarrow> packet res" where
  "CachePop_data = receive any_method CachePop_deserialize
     (\<lambda>p. pk_type p = CACHE_POP \<and> val_length (pk_val p) \<le> SWITCH_MAX_VALLEN)"

definition CachePop_bwcost :: "packet \<Rightarrow> nat res" where
  "CachePop_bwcost p = bind_res (get_ophdrsize (pk_methodid p)) (\<lambda>size.
     Inr (size + 2 + unat (val_length (pk_val p)) + 4 + 1 + 2))"

definition pop_pat :: "packet \<Rightarrow> pattern" where
  "pop_pat p = concat [
     ophdr_pat p, bytes_pat (val_pat (pk_val p)), be32_pat (pk_seq p),
     bytes_pat [if pk_stat p then 1 else 0], be16_pat (pk_serveridx p)]"

definition pop_members :: "packet \<Rightarrow> packet \<Rightarrow> packet" where
  "pop_members p this = (copy_ophdr p this)\<lparr>pk_val := pk_val p, pk_seq := pk_seq p, pk_stat := pk_stat p, pk_serveridx := pk_serveridx p\<rparr>"

interpretation pop: packet_codec CachePop_serialize CachePop_deserialize pop_pat sendable_val pop_members
  unfolding CachePop_deserialize_def
  by (rule packet_codec_run)
    (unfold CachePop_serialize_def pop_pat_def sendable_val_def,
      (intro packet_emits; simp add: header_sizes_valid),
      (rule packet_parses | simp add: pop_members_def header_sizes_valid Let_def)+)

definition CacheEvict_new :: "u16 \<Rightarrow> method_id \<Rightarrow> net_key \<Rightarrow> net_val \<Rightarrow> u32 \<Rightarrow> bool \<Rightarrow> u16 \<Rightarrow> packet res" where
  "CacheEvict_new junk m k v seq stat serveridx = bind_res (GetResponseLatestSeq_new junk m k v seq 0) (\<lambda>p.
     bind_res (invariant (val_length (pk_val p) \<le> SWITCH_MAX_VALLEN)) (\<lambda>_.
     Inr (p\<lparr>pk_serveridx := serveridx, pk_stat := stat, pk_type := CACHE_EVICT\<rparr>)))"

definition CacheEvict_serialize :: "packet \<Rightarrow> writer" where
  "CacheEvict_serialize p = wseq [
     serialize_ophdr p, val_serialize (pk_val p), put32_be (pk_seq p), put_bool (pk_stat p),
     put16_be (pk_serveridx p)]"

definition CacheEvict_deserialize :: "packet \<Rightarrow> byte list \<Rightarrow> packet res" where
  "CacheEvict_deserialize = run (rseq [
     deserialize_ophdr, rdval pk_val_update, rd32 pk_seq_update, rdbool pk_stat_update,
     rd16 pk_serveridx_update])"

definition CacheEvict_data :: "packet \<Rightarrow> method_id \<Rightarrow> byte list \<Rightarrow> packet res" where
  "CacheEvict_data = receive any_method CacheEvict_deserialize
     (\<lambda>p. pk_type p = CACHE_EVICT)"

definition CacheEvict_bwcost :: "packet \<Rightarrow> nat res" where
  "CacheEvict_bwcost p = bind_res (get_ophdrsize (pk_methodid p)) (\<lambda>size.
     Inr (size + 2 + unat (val_length (pk_val p)) + 4 + 1 + 2))"

interpretation evict: packet_codec CacheEvict_serialize CacheEvict_deserialize pop_pat sendable_val pop_members
  unfolding CacheEvict_deserialize_def
  by (rule packet_codec_run)
    (unfold CacheEvict_serialize_def pop_pat_def sendable_val_def,
      (intro packet_emits; simp), (rule packet_parses | simp add: pop_members_def)+)

definition CacheEvictCase2_new :: "u16 \<Rightarrow> method_id \<Rightarrow> net_key \<Rightarrow> net_val \<Rightarrow> u32 \<Rightarrow> bool \<Rightarrow> u16 \<Rightarrow> packet res" where
  "CacheEvictCase2_new junk m k v seq stat serveridx = bind_res (CacheEvict_new junk m k v seq stat serveridx) (\<lambda>p.
     bind_res (invariant (farreach_method m \<and> val_length (pk_val p) \<le> SWITCH_MAX_VALLEN)) (\<lambda>_.
     Inr (p\<lparr>pk_type := CACHE_EVICT_CASE2\<rparr>)))"

definition CacheEvictCase2_data :: "packet \<Rightarrow> method_id \<Rightarrow> byte list \<Rightarrow> packet res" where
  "CacheEvictCase2_data = receive (farreach_method) CacheEvict_deserialize
     (\<lambda>p. pk_type p = CACHE_EVICT_CASE2)"

definition NetcacheCachePopAck_new :: "u16 \<Rightarrow> method_id \<Rightarrow> net_key \<Rightarrow> net_val \<Rightarrow> u32 \<Rightarrow> bool \<Rightarrow> u16 \<Rightarrow> packet res" where
  "NetcacheCachePopAck_new junk m k v seq stat serveridx = bind_res (CachePop_new junk m k v seq stat serveridx) (\<lambda>p.
     bind_res (invariant (netcache_method m \<and> val_length (pk_val p) \<le> SWITCH_MAX_VALLEN)) (\<lambda>_.
     Inr (p\<lparr>pk_type := NETCACHE_CACHE_POP_ACK\<rparr>)))"

definition NetcacheCachePopAck_data :: "packet \<Rightarrow> method_id \<Rightarrow> byte list \<Rightarrow> packet res" where
  "NetcacheCachePopAck_data = receive (netcache_method) CachePop_deserialize
     (\<lambda>p. pk_type p = NETCACHE_CACHE_POP_ACK \<and> val_length (pk_val p) \<le> SWITCH_MAX_VALLEN)"

definition NetcacheCachePopAckNLatest_new :: "u16 \<Rightarrow> method_id \<Rightarrow> net_key \<Rightarrow> u32 \<Rightarrow> bool \<Rightarrow> u16 \<Rightarrow> packet res" where
  "NetcacheCachePopAckNLatest_new junk m k seq stat serveridx =
     bind_res (NetcacheCachePopAck_new junk m k val_default seq stat serveridx) (\<lambda>p.
     bind_res (invariant (m = NETCACHE_ID \<and> val_length (pk_val p) = 0)) (\<lambda>_.
     Inr (p\<lparr>pk_type := NETCACHE_CACHE_POP_ACK_NLATEST\<rparr>)))"

definition NetcacheCachePopAckNLatest_data :: "packet \<Rightarrow> method_id \<Rightarrow> byte list \<Rightarrow> packet res" where
  "NetcacheCachePopAckNLatest_data = receive (\<lambda>m. m = NETCACHE_ID) CachePop_deserialize
     (\<lambda>p. pk_type p = NETCACHE_CACHE_POP_ACK_NLATEST \<and> val_length (pk_val p) = 0)"

section \<open>CachePopInswitch\<close>

text \<open>The controller installs a record in a free slot of the switch (\<^verbatim>\<open>pk_idx\<close> is \<^verbatim>\<open>_freeidx\<close>); only the switch
  reads these packets.\<close>

definition CachePopInswitch_new :: "u16 \<Rightarrow> method_id \<Rightarrow> net_key \<Rightarrow> net_val \<Rightarrow> u32 \<Rightarrow> u16 \<Rightarrow> bool \<Rightarrow> packet res" where
  "CachePopInswitch_new junk m k v seq freeidx stat = bind_res (PutRequestSeq_new junk m k v seq) (\<lambda>p.
     bind_res (invariant (val_length (pk_val p) \<le> SWITCH_MAX_VALLEN)) (\<lambda>_.
     Inr (p\<lparr>pk_idx := freeidx, pk_stat := stat, pk_type := CACHE_POP_INSWITCH\<rparr>)))"

definition CachePopInswitch_new_switch ::
    "u16 \<Rightarrow> method_id \<Rightarrow> switchidx \<Rightarrow> net_key \<Rightarrow> net_val \<Rightarrow> u32 \<Rightarrow> u16 \<Rightarrow> bool \<Rightarrow> packet res" where
  "CachePopInswitch_new_switch junk m switchidx k v seq freeidx stat = bind_res (PutRequestSeq_new junk m k v seq) (\<lambda>p.
     bind_res (invariant (val_length (pk_val p) \<le> SWITCH_MAX_VALLEN)) (\<lambda>_.
     Inr (p\<lparr>pk_idx := freeidx, pk_stat := stat, pk_type := CACHE_POP_INSWITCH, pk_globalswitchidx := switchidx\<rparr>)))"

definition CachePopInswitch_new_spineleaf ::
    "u16 \<Rightarrow> method_id \<Rightarrow> switchidx \<Rightarrow> switchidx \<Rightarrow> net_key \<Rightarrow> net_val \<Rightarrow> u32 \<Rightarrow> u16 \<Rightarrow> bool \<Rightarrow> packet res" where
  "CachePopInswitch_new_spineleaf junk m spine leaf k v seq freeidx stat = bind_res (PutRequestSeq_new junk m k v seq) (\<lambda>p.
     bind_res (invariant (val_length (pk_val p) \<le> SWITCH_MAX_VALLEN)) (\<lambda>_.
     Inr (p\<lparr>pk_idx := freeidx, pk_stat := stat, pk_type := CACHE_POP_INSWITCH, pk_spineswitchidx := spine,
       pk_leafswitchidx := leaf\<rparr>)))"

definition CachePopInswitch_serialize :: "packet \<Rightarrow> writer" where
  "CachePopInswitch_serialize p = wseq [
     serialize_ophdr p, val_serialize (pk_val p), serialize_packet_type (pk_type p), put32_be (pk_seq p),
     wif (pk_methodid p = FARREACH_ID) [zero_bytes 4], zero_res (get_inswitch_prev_bytes (pk_methodid p)),
     put16_be (pk_idx p), put_bool (pk_stat p), zero_bytes 2,
     skip_res (get_stat_padding_bytes (pk_methodid p))]"

definition popin_pat :: "packet \<Rightarrow> pattern" where
  "popin_pat p = concat [
     ophdr_pat p, bytes_pat (val_pat (pk_val p)), be16_pat (pk_type p), be32_pat (pk_seq p),
     if pk_methodid p = FARREACH_ID then concat [bytes_pat (replicate 4 0)] else [],
     bytes_pat (replicate (inswitch_prev (pk_methodid p)) 0), be16_pat (pk_idx p),
     bytes_pat [if pk_stat p then 1 else 0], bytes_pat (replicate 2 0), gap_pat 1]"

lemma emits_popin:
  assumes "sendable_val p"
  shows "emits (CachePopInswitch_serialize p) (popin_pat p)"
  unfolding CachePopInswitch_serialize_def popin_pat_def
  using assms by (intro packet_emits) (auto simp: sendable_val_def header_sizes_valid)

definition NetcacheCachePopInswitchNLatest_new :: "u16 \<Rightarrow> method_id \<Rightarrow> net_key \<Rightarrow> u32 \<Rightarrow> u16 \<Rightarrow> bool \<Rightarrow> packet res" where
  "NetcacheCachePopInswitchNLatest_new junk m k seq freeidx stat =
     bind_res (CachePopInswitch_new junk m k val_default seq freeidx stat) (\<lambda>p.
     bind_res (invariant (m = NETCACHE_ID \<and> val_length (pk_val p) = 0)) (\<lambda>_.
     Inr (p\<lparr>pk_type := NETCACHE_CACHE_POP_INSWITCH_NLATEST\<rparr>)))"

section \<open>Loading from the switch\<close>

text \<open>\<^verbatim>\<open>pk_idx\<close> is \<^verbatim>\<open>_evictidx\<close>.\<close>

definition packet_new_switch :: "method_id \<Rightarrow> optype \<Rightarrow> switchidx \<Rightarrow> net_key \<Rightarrow> packet" where
  "packet_new_switch m t switchidx k = (packet_new m t k)\<lparr>pk_globalswitchidx := switchidx\<rparr>"

definition CacheEvictLoadfreqInswitch_new :: "method_id \<Rightarrow> net_key \<Rightarrow> u16 \<Rightarrow> packet res" where
  "CacheEvictLoadfreqInswitch_new m k evictidx = bind_res (invariant (is_singleswitch m)) (\<lambda>_.
     Inr ((packet_new m CACHE_EVICT_LOADFREQ_INSWITCH k)\<lparr>pk_idx := evictidx\<rparr>))"

definition CacheEvictLoadfreqInswitch_new_switch :: "method_id \<Rightarrow> switchidx \<Rightarrow> net_key \<Rightarrow> u16 \<Rightarrow> packet res" where
  "CacheEvictLoadfreqInswitch_new_switch m switchidx k evictidx =
     bind_res (invariant (m = DISTFARREACH_ID \<or> m = DISTNOCACHE_ID)) (\<lambda>_.
     Inr ((packet_new_switch m CACHE_EVICT_LOADFREQ_INSWITCH switchidx k)\<lparr>pk_idx := evictidx\<rparr>))"

definition CacheEvictLoadfreqInswitch_new_spineleaf ::
    "u16 \<Rightarrow> method_id \<Rightarrow> switchidx \<Rightarrow> switchidx \<Rightarrow> net_key \<Rightarrow> u16 \<Rightarrow> packet res" where
  "CacheEvictLoadfreqInswitch_new_spineleaf junk m spine leaf k evictidx =
     bind_res (invariant (m = DISTCACHE_ID)) (\<lambda>_.
     Inr ((packet_new_spineleaf junk m CACHE_EVICT_LOADFREQ_INSWITCH spine leaf k)\<lparr>pk_idx := evictidx\<rparr>))"

definition CacheEvictLoadfreqInswitch_size :: "method_id \<Rightarrow> nat res" where
  "CacheEvictLoadfreqInswitch_size m = bind_res (get_ophdrsize m) (\<lambda>size. bind_res (get_inswitch_prev_bytes m) (\<lambda>prev.
     Inr (size + 2 + prev + 2)))"

definition CacheEvictLoadfreqInswitch_serialize :: "packet \<Rightarrow> writer" where
  "CacheEvictLoadfreqInswitch_serialize p = wseq [
     with_res (CacheEvictLoadfreqInswitch_size (pk_methodid p)) require_space, serialize_ophdr p,
     serialize_packet_type (pk_type p), zero_res (get_inswitch_prev_bytes (pk_methodid p)),
     put16_be (pk_idx p)]"

definition loadin_pat :: "packet \<Rightarrow> pattern" where
  "loadin_pat p = concat [
     ophdr_pat p, be16_pat (pk_type p), bytes_pat (replicate (inswitch_prev (pk_methodid p)) 0),
     be16_pat (pk_idx p)]"

lemma emits_loadin: "sendable p \<Longrightarrow> emits (CacheEvictLoadfreqInswitch_serialize p) (loadin_pat p)"
  unfolding CacheEvictLoadfreqInswitch_serialize_def loadin_pat_def
  by (intro emits_size_check packet_emits) (auto simp: CacheEvictLoadfreqInswitch_size_def header_sizes_valid)

definition CacheEvictLoadfreqInswitchAck_size :: "method_id \<Rightarrow> nat res" where
  "CacheEvictLoadfreqInswitchAck_size m = bind_res (get_ophdrsize m) (\<lambda>size. Inr (size + 4))"

definition CacheEvictLoadfreqInswitchAck_deserialize :: "packet \<Rightarrow> byte list \<Rightarrow> packet res" where
  "CacheEvictLoadfreqInswitchAck_deserialize = run_atleast CacheEvictLoadfreqInswitchAck_size (rseq [
     deserialize_ophdr, rd32 pk_frequency_update])"

definition CacheEvictLoadfreqInswitchAck_data :: "packet \<Rightarrow> method_id \<Rightarrow> byte list \<Rightarrow> packet res" where
  "CacheEvictLoadfreqInswitchAck_data = receive any_method CacheEvictLoadfreqInswitchAck_deserialize
     (\<lambda>p. pk_type p = CACHE_EVICT_LOADFREQ_INSWITCH_ACK)"

definition CacheEvictLoaddataInswitch_new :: "method_id \<Rightarrow> net_key \<Rightarrow> u16 \<Rightarrow> packet res" where
  "CacheEvictLoaddataInswitch_new m k idx = bind_res (CacheEvictLoadfreqInswitch_new m k idx) (\<lambda>p.
     Inr (p\<lparr>pk_type := CACHE_EVICT_LOADDATA_INSWITCH\<rparr>))"

definition CacheEvictLoaddataInswitch_new_switch :: "method_id \<Rightarrow> switchidx \<Rightarrow> net_key \<Rightarrow> u16 \<Rightarrow> packet res" where
  "CacheEvictLoaddataInswitch_new_switch m switchidx k idx = bind_res (CacheEvictLoadfreqInswitch_new_switch m switchidx k idx) (\<lambda>p.
     Inr (p\<lparr>pk_type := CACHE_EVICT_LOADDATA_INSWITCH\<rparr>))"

definition CacheEvictLoaddataInswitch_new_spineleaf ::
    "u16 \<Rightarrow> method_id \<Rightarrow> switchidx \<Rightarrow> switchidx \<Rightarrow> net_key \<Rightarrow> u16 \<Rightarrow> packet res" where
  "CacheEvictLoaddataInswitch_new_spineleaf junk m spine leaf k idx =
     bind_res (CacheEvictLoadfreqInswitch_new_spineleaf junk m spine leaf k idx) (\<lambda>p.
     Inr (p\<lparr>pk_type := CACHE_EVICT_LOADDATA_INSWITCH\<rparr>))"

definition LoadsnapshotdataInswitch_new :: "method_id \<Rightarrow> net_key \<Rightarrow> u16 \<Rightarrow> packet res" where
  "LoadsnapshotdataInswitch_new m k idx = bind_res (CacheEvictLoadfreqInswitch_new m k idx) (\<lambda>p.
     Inr (p\<lparr>pk_type := LOADSNAPSHOTDATA_INSWITCH\<rparr>))"

definition LoadsnapshotdataInswitch_new_switch :: "method_id \<Rightarrow> switchidx \<Rightarrow> net_key \<Rightarrow> u16 \<Rightarrow> packet res" where
  "LoadsnapshotdataInswitch_new_switch m switchidx k idx = bind_res (CacheEvictLoadfreqInswitch_new_switch m switchidx k idx) (\<lambda>p.
     Inr (p\<lparr>pk_type := LOADSNAPSHOTDATA_INSWITCH\<rparr>))"

definition LoadsnapshotdataInswitch_new_spineleaf ::
    "u16 \<Rightarrow> method_id \<Rightarrow> switchidx \<Rightarrow> switchidx \<Rightarrow> net_key \<Rightarrow> u16 \<Rightarrow> packet res" where
  "LoadsnapshotdataInswitch_new_spineleaf junk m spine leaf k idx =
     bind_res (CacheEvictLoadfreqInswitch_new_spineleaf junk m spine leaf k idx) (\<lambda>p.
     Inr (p\<lparr>pk_type := LOADSNAPSHOTDATA_INSWITCH\<rparr>))"

text \<open>Both answers with a record stop reading behind the status.\<close>

definition CacheEvictLoaddataInswitchAck_deserialize :: "packet \<Rightarrow> byte list \<Rightarrow> packet res" where
  "CacheEvictLoaddataInswitchAck_deserialize = run (rseq [
     deserialize_ophdr, rdval pk_val_update, rskip 2, rd32 pk_seq_update,
     rif (\<lambda>m. m = FARREACH_ID) [rskip 4], rdbool pk_stat_update])"

definition CacheEvictLoaddataInswitchAck_data :: "packet \<Rightarrow> method_id \<Rightarrow> byte list \<Rightarrow> packet res" where
  "CacheEvictLoaddataInswitchAck_data = receive any_method CacheEvictLoaddataInswitchAck_deserialize
     (\<lambda>p. pk_type p = CACHE_EVICT_LOADDATA_INSWITCH_ACK \<and> val_length (pk_val p) \<le> SWITCH_MAX_VALLEN)"

definition LoadsnapshotdataInswitchAck_deserialize :: "packet \<Rightarrow> byte list \<Rightarrow> packet res" where
  "LoadsnapshotdataInswitchAck_deserialize = run (rseq [
     deserialize_ophdr, rdval pk_val_update, rskip 2, rd32 pk_seq_update,
     rif (\<lambda>m. m = FARREACH_ID) [rskip 4], rskip_res get_inswitch_prev_bytes, rd16 pk_idx_update,
     rdbool pk_stat_update])"

definition LoadsnapshotdataInswitchAck_data :: "packet \<Rightarrow> method_id \<Rightarrow> byte list \<Rightarrow> packet res" where
  "LoadsnapshotdataInswitchAck_data = receive any_method LoadsnapshotdataInswitchAck_deserialize
     (\<lambda>p. pk_type p = LOADSNAPSHOTDATA_INSWITCH_ACK \<and> val_length (pk_val p) \<le> SWITCH_MAX_VALLEN)"

section \<open>SetvalidInswitch\<close>

abbreviation validvalue_ok :: "byte \<Rightarrow> bool" where
  "validvalue_ok b \<equiv> b = 0 \<or> b = 1 \<or> b = 3"

definition SetvalidInswitch_new :: "method_id \<Rightarrow> net_key \<Rightarrow> u16 \<Rightarrow> byte \<Rightarrow> packet res" where
  "SetvalidInswitch_new m k idx validvalue =
     bind_res (invariant (is_singleswitch m \<and> validvalue_ok validvalue)) (\<lambda>_.
     Inr ((packet_new m SETVALID_INSWITCH k)\<lparr>pk_idx := idx, pk_validvalue := validvalue\<rparr>))"

definition SetvalidInswitch_new_switch :: "method_id \<Rightarrow> switchidx \<Rightarrow> net_key \<Rightarrow> u16 \<Rightarrow> byte \<Rightarrow> packet res" where
  "SetvalidInswitch_new_switch m switchidx k idx validvalue =
     bind_res (invariant ((m = DISTFARREACH_ID \<or> m = DISTNOCACHE_ID) \<and> validvalue_ok validvalue)) (\<lambda>_.
     Inr ((packet_new_switch m SETVALID_INSWITCH switchidx k)\<lparr>pk_idx := idx, pk_validvalue := validvalue\<rparr>))"

definition SetvalidInswitch_new_spineleaf ::
    "u16 \<Rightarrow> method_id \<Rightarrow> switchidx \<Rightarrow> switchidx \<Rightarrow> net_key \<Rightarrow> u16 \<Rightarrow> byte \<Rightarrow> packet res" where
  "SetvalidInswitch_new_spineleaf junk m spine leaf k idx validvalue =
     bind_res (invariant (m = DISTCACHE_ID \<and> validvalue_ok validvalue)) (\<lambda>_.
     Inr ((packet_new_spineleaf junk m SETVALID_INSWITCH spine leaf k)\<lparr>pk_idx := idx, pk_validvalue := validvalue\<rparr>))"

definition SetvalidInswitch_size :: "method_id \<Rightarrow> nat res" where
  "SetvalidInswitch_size m = bind_res (get_ophdrsize m) (\<lambda>size. bind_res (get_inswitch_prev_bytes m) (\<lambda>prev.
     Inr (size + 2 + prev + 2 + 1)))"

definition SetvalidInswitch_serialize :: "packet \<Rightarrow> writer" where
  "SetvalidInswitch_serialize p = wseq [
     with_res (SetvalidInswitch_size (pk_methodid p)) require_space, serialize_ophdr p,
     serialize_packet_type (pk_type p), zero_res (get_inswitch_prev_bytes (pk_methodid p)),
     put16_be (pk_idx p), put_bytes [pk_validvalue p]]"

definition setvalid_pat :: "packet \<Rightarrow> pattern" where
  "setvalid_pat p = concat [
     ophdr_pat p, be16_pat (pk_type p), bytes_pat (replicate (inswitch_prev (pk_methodid p)) 0),
     be16_pat (pk_idx p), bytes_pat [pk_validvalue p]]"

lemma emits_setvalid: "sendable p \<Longrightarrow> emits (SetvalidInswitch_serialize p) (setvalid_pat p)"
  unfolding SetvalidInswitch_serialize_def setvalid_pat_def
  by (intro emits_size_check packet_emits emits_put_bytes) (auto simp: SetvalidInswitch_size_def header_sizes_valid)

section \<open>NetCache\<close>

definition NetcacheGetRequestPop_new :: "method_id \<Rightarrow> net_key \<Rightarrow> packet res" where
  "NetcacheGetRequestPop_new m k = bind_res (GetRequest_new m k) (\<lambda>p.
     bind_res (invariant (netcache_method m)) (\<lambda>_. Inr (p\<lparr>pk_type := NETCACHE_GETREQ_POP\<rparr>)))"

definition NetcacheGetRequestPop_size :: "method_id \<Rightarrow> nat res" where
  "NetcacheGetRequestPop_size m = bind_res (get_ophdrsize m) (\<lambda>size. bind_res (get_clone_bytes m) (\<lambda>clone.
     Inr (if m = DISTCACHE_ID then size + clone + (2 + 4 + 4) else size + clone)))"

definition NetcacheGetRequestPop_deserialize :: "packet \<Rightarrow> byte list \<Rightarrow> packet res" where
  "NetcacheGetRequestPop_deserialize = run_atleast NetcacheGetRequestPop_size (rseq [
     deserialize_ophdr,
     rif (\<lambda>m. m = DISTCACHE_ID) [rskip 2, rd32 pk_spineload_update, rd32 pk_leafload_update],
     rskip_res get_clone_bytes])"

definition NetcacheGetRequestPop_data :: "packet \<Rightarrow> method_id \<Rightarrow> byte list \<Rightarrow> packet res" where
  "NetcacheGetRequestPop_data = receive (netcache_method) NetcacheGetRequestPop_deserialize
     (\<lambda>p. pk_type p = NETCACHE_GETREQ_POP)"

definition NetcacheCachePop_new :: "method_id \<Rightarrow> net_key \<Rightarrow> u16 \<Rightarrow> packet res" where
  "NetcacheCachePop_new m k serveridx = bind_res (invariant (netcache_method m)) (\<lambda>_.
     Inr ((WarmupRequest_new m k)\<lparr>pk_serveridx := serveridx, pk_type := NETCACHE_CACHE_POP\<rparr>))"

definition NetcacheCachePop_size :: "method_id \<Rightarrow> nat res" where
  "NetcacheCachePop_size m = bind_res (get_ophdrsize m) (\<lambda>size. Inr (size + 2))"

definition NetcacheCachePop_serialize :: "packet \<Rightarrow> writer" where
  "NetcacheCachePop_serialize p = wseq [
     with_res (NetcacheCachePop_size (pk_methodid p)) require_space, serialize_ophdr p,
     put16_be (pk_serveridx p)]"

definition NetcacheCachePop_deserialize :: "packet \<Rightarrow> byte list \<Rightarrow> packet res" where
  "NetcacheCachePop_deserialize = run_exact NetcacheCachePop_size (rseq [
     deserialize_ophdr, rd16 pk_serveridx_update])"

definition NetcacheCachePop_data :: "packet \<Rightarrow> method_id \<Rightarrow> byte list \<Rightarrow> packet res" where
  "NetcacheCachePop_data = receive (netcache_method) NetcacheCachePop_deserialize
     (\<lambda>p. pk_type p = NETCACHE_CACHE_POP)"

definition ncpop_pat :: "packet \<Rightarrow> pattern" where
  "ncpop_pat p = concat [
     ophdr_pat p, be16_pat (pk_serveridx p)]"

definition ncpop_members :: "packet \<Rightarrow> packet \<Rightarrow> packet" where
  "ncpop_members p this = (copy_ophdr p this)\<lparr>pk_serveridx := pk_serveridx p\<rparr>"

lemma emits_ncpop: "sendable p \<Longrightarrow> emits (NetcacheCachePop_serialize p) (ncpop_pat p)"
  unfolding NetcacheCachePop_serialize_def ncpop_pat_def
  by (intro emits_size_check packet_emits) (auto simp: NetcacheCachePop_size_def header_sizes_valid)

interpretation ncpop: packet_codec NetcacheCachePop_serialize NetcacheCachePop_deserialize ncpop_pat sendable ncpop_members
  unfolding NetcacheCachePop_deserialize_def
  by (rule packet_codec_exact [OF emits_ncpop])
    (unfold ncpop_pat_def,
      (rule packet_parses | simp add: NetcacheCachePop_size_def header_sizes_valid ncpop_members_def Let_def)+)

definition NetcacheCachePopFinish_new :: "u16 \<Rightarrow> method_id \<Rightarrow> net_key \<Rightarrow> u16 \<Rightarrow> packet res" where
  "NetcacheCachePopFinish_new junk m k serveridx = bind_res (NetcacheCachePop_new m k serveridx) (\<lambda>p.
     bind_res (invariant (m = NETCACHE_ID)) (\<lambda>_.
     Inr (p\<lparr>pk_type := NETCACHE_CACHE_POP_FINISH, pk_kvidx := junk\<rparr>)))"

definition NetcacheCachePopFinish_new_kvidx :: "method_id \<Rightarrow> net_key \<Rightarrow> u16 \<Rightarrow> u16 \<Rightarrow> packet res" where
  "NetcacheCachePopFinish_new_kvidx m k serveridx kvidx = bind_res (NetcacheCachePop_new m k serveridx) (\<lambda>p.
     bind_res (invariant (m = DISTCACHE_ID)) (\<lambda>_.
     Inr (p\<lparr>pk_kvidx := kvidx, pk_type := NETCACHE_CACHE_POP_FINISH\<rparr>)))"

definition NetcacheCachePopFinish_size :: "method_id \<Rightarrow> nat res" where
  "NetcacheCachePopFinish_size m = bind_res (get_ophdrsize m) (\<lambda>size. Inr (size + 2 + 2))"

definition NetcacheCachePopFinish_serialize :: "packet \<Rightarrow> writer" where
  "NetcacheCachePopFinish_serialize p = wseq [
     with_res (NetcacheCachePopFinish_size (pk_methodid p)) require_space, serialize_ophdr p,
     put16_be (pk_serveridx p), put16_be (pk_kvidx p)]"

definition NetcacheCachePopFinish_deserialize :: "packet \<Rightarrow> byte list \<Rightarrow> packet res" where
  "NetcacheCachePopFinish_deserialize = run_exact NetcacheCachePopFinish_size (rseq [
     deserialize_ophdr, rd16 pk_serveridx_update, rd16 pk_kvidx_update])"

definition NetcacheCachePopFinish_data :: "packet \<Rightarrow> method_id \<Rightarrow> byte list \<Rightarrow> packet res" where
  "NetcacheCachePopFinish_data = receive (netcache_method) NetcacheCachePopFinish_deserialize
     (\<lambda>p. pk_type p = NETCACHE_CACHE_POP_FINISH)"

definition ncfin_pat :: "packet \<Rightarrow> pattern" where
  "ncfin_pat p = concat [
     ophdr_pat p, be16_pat (pk_serveridx p), be16_pat (pk_kvidx p)]"

definition ncfin_members :: "packet \<Rightarrow> packet \<Rightarrow> packet" where
  "ncfin_members p this = (copy_ophdr p this)\<lparr>pk_serveridx := pk_serveridx p, pk_kvidx := pk_kvidx p\<rparr>"

lemma emits_ncfin: "sendable p \<Longrightarrow> emits (NetcacheCachePopFinish_serialize p) (ncfin_pat p)"
  unfolding NetcacheCachePopFinish_serialize_def ncfin_pat_def
  by (intro emits_size_check packet_emits) (auto simp: NetcacheCachePopFinish_size_def header_sizes_valid)

interpretation ncfin: packet_codec NetcacheCachePopFinish_serialize NetcacheCachePopFinish_deserialize ncfin_pat sendable ncfin_members
  unfolding NetcacheCachePopFinish_deserialize_def
  by (rule packet_codec_exact [OF emits_ncfin])
    (unfold ncfin_pat_def,
      (rule packet_parses | simp add: NetcacheCachePopFinish_size_def header_sizes_valid ncfin_members_def Let_def)+)

definition NetcacheCachePopFinishAck_new :: "method_id \<Rightarrow> net_key \<Rightarrow> u16 \<Rightarrow> packet res" where
  "NetcacheCachePopFinishAck_new m k serveridx = bind_res (NetcacheCachePop_new m k serveridx) (\<lambda>p.
     Inr (p\<lparr>pk_type := NETCACHE_CACHE_POP_FINISH_ACK\<rparr>))"

definition NetcacheCachePopFinishAck_data :: "packet \<Rightarrow> method_id \<Rightarrow> byte list \<Rightarrow> packet res" where
  "NetcacheCachePopFinishAck_data = receive (netcache_method) NetcacheCachePop_deserialize
     (\<lambda>p. pk_type p = NETCACHE_CACHE_POP_FINISH_ACK)"

definition NetcacheCacheEvict_new :: "method_id \<Rightarrow> net_key \<Rightarrow> u16 \<Rightarrow> packet res" where
  "NetcacheCacheEvict_new m k serveridx = bind_res (NetcacheCachePop_new m k serveridx) (\<lambda>p.
     Inr (p\<lparr>pk_type := NETCACHE_CACHE_EVICT\<rparr>))"

definition NetcacheCacheEvict_data :: "packet \<Rightarrow> method_id \<Rightarrow> byte list \<Rightarrow> packet res" where
  "NetcacheCacheEvict_data = receive (netcache_method) NetcacheCachePop_deserialize
     (\<lambda>p. pk_type p = NETCACHE_CACHE_EVICT)"

definition NetcacheCacheEvictAck_new :: "method_id \<Rightarrow> net_key \<Rightarrow> u16 \<Rightarrow> packet res" where
  "NetcacheCacheEvictAck_new m k serveridx = bind_res (NetcacheCachePop_new m k serveridx) (\<lambda>p.
     Inr (p\<lparr>pk_type := NETCACHE_CACHE_EVICT_ACK\<rparr>))"

definition NetcacheCacheEvictAck_data :: "packet \<Rightarrow> method_id \<Rightarrow> byte list \<Rightarrow> packet res" where
  "NetcacheCacheEvictAck_data = receive (netcache_method) NetcacheCachePop_deserialize
     (\<lambda>p. pk_type p = NETCACHE_CACHE_EVICT_ACK)"

text \<open>\<^verbatim>\<open>serialize\<close> of this class returns \<^verbatim>\<open>sizeof(begin - data)\<close>, the size of a pointer difference.\<close>

definition NetcacheWarmupRequestInswitchPop_size :: "method_id \<Rightarrow> nat res" where
  "NetcacheWarmupRequestInswitchPop_size m = bind_res (get_ophdrsize m) (\<lambda>size. bind_res (get_inswitch_prev_bytes m) (\<lambda>prev.
     bind_res (get_clone_bytes m) (\<lambda>clone. Inr (size + 2 + prev + 2 + clone))))"

definition NetcacheWarmupRequestInswitchPop_serialize :: "packet \<Rightarrow> writer" where
  "NetcacheWarmupRequestInswitchPop_serialize p s = bind_res (wseq [
     with_res (NetcacheWarmupRequestInswitchPop_size (pk_methodid p)) require_space,
     serialize_ophdr p, serialize_packet_type (pk_type p),
     zero_res (get_inswitch_prev_bytes (pk_methodid p)), zero_bytes 2,
     skip_res (get_clone_bytes (pk_methodid p))] s) (\<lambda>(buf, off). Inr (buf, 8))"

definition NetcacheWarmupRequestInswitchPop_deserialize :: "packet \<Rightarrow> byte list \<Rightarrow> packet res" where
  "NetcacheWarmupRequestInswitchPop_deserialize = run_atleast NetcacheWarmupRequestInswitchPop_size (rseq [
     deserialize_ophdr, rmember deserialize_packet_type (\<lambda>x. pk_type_update (\<lambda>_. x)),
     rskip_res get_inswitch_prev_bytes, rskip 2, rskip_res get_clone_bytes])"

definition NetcacheWarmupRequestInswitchPop_data :: "packet \<Rightarrow> method_id \<Rightarrow> byte list \<Rightarrow> packet res" where
  "NetcacheWarmupRequestInswitchPop_data = receive (netcache_method) NetcacheWarmupRequestInswitchPop_deserialize
     (\<lambda>p. pk_type p = NETCACHE_WARMUPREQ_INSWITCH_POP)"

definition NetcacheValueupdate_new :: "u16 \<Rightarrow> method_id \<Rightarrow> net_key \<Rightarrow> net_val \<Rightarrow> u32 \<Rightarrow> bool \<Rightarrow> packet res" where
  "NetcacheValueupdate_new junk m k v seq stat = bind_res (GetResponseLatestSeq_new junk m k v seq 0) (\<lambda>p.
     bind_res (invariant (m = NETCACHE_ID)) (\<lambda>_.
     Inr (p\<lparr>pk_stat := stat, pk_type := NETCACHE_VALUEUPDATE\<rparr>)))"

definition NetcacheValueupdate_new_spineleaf ::
    "u16 \<Rightarrow> method_id \<Rightarrow> switchidx \<Rightarrow> switchidx \<Rightarrow> net_key \<Rightarrow> net_val \<Rightarrow> u32 \<Rightarrow> bool \<Rightarrow> packet res" where
  "NetcacheValueupdate_new_spineleaf junk m spine leaf k v seq stat =
     bind_res (GetResponseLatestSeq_new junk m k v seq 0) (\<lambda>p.
     bind_res (invariant (m = DISTCACHE_ID)) (\<lambda>_.
     Inr (p\<lparr>pk_stat := stat, pk_type := NETCACHE_VALUEUPDATE, pk_spineswitchidx := spine, pk_leafswitchidx := leaf\<rparr>)))"

section \<open>DistCache\<close>

definition DistcacheCacheEvictVictim_new :: "u16 \<Rightarrow> method_id \<Rightarrow> net_key \<Rightarrow> net_key \<Rightarrow> u16 \<Rightarrow> packet res" where
  "DistcacheCacheEvictVictim_new junk m k victimkey victimidx = bind_res (invariant (m = DISTCACHE_ID)) (\<lambda>_.
     Inr ((packet_new_spineleaf junk m DISTCACHE_CACHE_EVICT_VICTIM 0 0 k)\<lparr>pk_victimkey := victimkey, pk_victimidx := victimidx\<rparr>))"

definition DistcacheCacheEvictVictim_size :: "method_id \<Rightarrow> nat res" where
  "DistcacheCacheEvictVictim_size m = bind_res (get_ophdrsize m) (\<lambda>size. Inr (size + 16 + 2))"

definition DistcacheCacheEvictVictim_serialize :: "packet \<Rightarrow> writer" where
  "DistcacheCacheEvictVictim_serialize p = wseq [
     with_res (DistcacheCacheEvictVictim_size (pk_methodid p)) require_space, serialize_ophdr p,
     key_serialize (pk_victimkey p), put_bytes (le16 (pk_victimidx p))]"

definition DistcacheCacheEvictVictim_deserialize :: "packet \<Rightarrow> byte list \<Rightarrow> packet res" where
  "DistcacheCacheEvictVictim_deserialize = run_atleast DistcacheCacheEvictVictim_size (rseq [
     deserialize_ophdr, rdkey pk_victimkey_update,
     rmember get16 (\<lambda>x. pk_victimidx_update (\<lambda>_. x))])"

definition DistcacheCacheEvictVictim_data :: "packet \<Rightarrow> method_id \<Rightarrow> byte list \<Rightarrow> packet res" where
  "DistcacheCacheEvictVictim_data = receive (\<lambda>m. m = DISTCACHE_ID) DistcacheCacheEvictVictim_deserialize
     (\<lambda>p. pk_type p = DISTCACHE_CACHE_EVICT_VICTIM)"

lemmas [packet_emits] = emits_put_bytes

lemmas [packet_parses] = parses_get16

definition victim_pat :: "packet \<Rightarrow> pattern" where
  "victim_pat p = concat [
     ophdr_pat p, bytes_pat (key_bytes (pk_victimkey p)), bytes_pat (le16 (pk_victimidx p))]"

definition victim_members :: "packet \<Rightarrow> packet \<Rightarrow> packet" where
  "victim_members p this = (copy_ophdr p this)\<lparr>pk_victimkey := pk_victimkey p, pk_victimidx := pk_victimidx p\<rparr>"

lemma emits_victim: "sendable p \<Longrightarrow> emits (DistcacheCacheEvictVictim_serialize p) (victim_pat p)"
  unfolding DistcacheCacheEvictVictim_serialize_def victim_pat_def
  by (intro emits_size_check packet_emits) (auto simp: DistcacheCacheEvictVictim_size_def header_sizes_valid)

interpretation victim: packet_codec DistcacheCacheEvictVictim_serialize DistcacheCacheEvictVictim_deserialize victim_pat sendable victim_members
  unfolding DistcacheCacheEvictVictim_deserialize_def
  by (rule packet_codec_atleast [OF emits_victim, where n = "\<lambda>p. length (victim_pat p)"])
    (unfold victim_pat_def,
      (rule packet_parses | simp add: DistcacheCacheEvictVictim_size_def header_sizes_valid victim_members_def Let_def)+)

definition DistcacheSpineValueupdateInswitch_new ::
    "u16 \<Rightarrow> method_id \<Rightarrow> switchidx \<Rightarrow> switchidx \<Rightarrow> net_key \<Rightarrow> net_val \<Rightarrow> u32 \<Rightarrow> bool \<Rightarrow> u16 \<Rightarrow> packet res" where
  "DistcacheSpineValueupdateInswitch_new junk m spine leaf k v seq stat kvidx =
     bind_res (GetResponseLatestSeq_new junk m k v seq 0) (\<lambda>p.
     bind_res (invariant (m = DISTCACHE_ID)) (\<lambda>_.
     Inr (p\<lparr>pk_kvidx := kvidx, pk_type := DISTCACHE_SPINE_VALUEUPDATE_INSWITCH, pk_spineswitchidx := spine,
       pk_leafswitchidx := leaf, pk_stat := stat\<rparr>)))"

definition DistcacheSpineValueupdateInswitch_serialize :: "packet \<Rightarrow> writer" where
  "DistcacheSpineValueupdateInswitch_serialize p = wseq [
     serialize_ophdr p, val_serialize (pk_val p), serialize_packet_type (pk_type p), put32_be (pk_seq p),
     zero_res (get_inswitch_prev_bytes (pk_methodid p)), put16_be (pk_kvidx p), put_bool (pk_stat p),
     put16_be (pk_nodeidx p), skip_res (get_stat_padding_bytes (pk_methodid p))]"

definition spineupd_pat :: "packet \<Rightarrow> pattern" where
  "spineupd_pat p = concat [
     ophdr_pat p, bytes_pat (val_pat (pk_val p)), be16_pat (pk_type p), be32_pat (pk_seq p),
     bytes_pat (replicate (inswitch_prev (pk_methodid p)) 0), be16_pat (pk_kvidx p),
     bytes_pat [if pk_stat p then 1 else 0], be16_pat (pk_nodeidx p), gap_pat 1]"

lemma emits_spineupd:
  assumes "sendable_val p"
  shows "emits (DistcacheSpineValueupdateInswitch_serialize p) (spineupd_pat p)"
  unfolding DistcacheSpineValueupdateInswitch_serialize_def spineupd_pat_def
  using assms by (intro packet_emits) (auto simp: sendable_val_def header_sizes_valid)

definition DistcacheLeafValueupdateInswitch_new ::
    "u16 \<Rightarrow> method_id \<Rightarrow> switchidx \<Rightarrow> switchidx \<Rightarrow> net_key \<Rightarrow> net_val \<Rightarrow> u32 \<Rightarrow> bool \<Rightarrow> u16 \<Rightarrow> packet res" where
  "DistcacheLeafValueupdateInswitch_new junk m spine leaf k v seq stat kvidx =
     bind_res (DistcacheSpineValueupdateInswitch_new junk m spine leaf k v seq stat kvidx) (\<lambda>p.
     Inr (p\<lparr>pk_type := DISTCACHE_LEAF_VALUEUPDATE_INSWITCH\<rparr>))"

definition DistcacheValueupdateInswitch_new ::
    "u16 \<Rightarrow> method_id \<Rightarrow> switchidx \<Rightarrow> switchidx \<Rightarrow> net_key \<Rightarrow> net_val \<Rightarrow> u32 \<Rightarrow> bool \<Rightarrow> u16 \<Rightarrow> packet res" where
  "DistcacheValueupdateInswitch_new junk m spine leaf k v seq stat kvidx =
     bind_res (DistcacheSpineValueupdateInswitch_new junk m spine leaf k v seq stat kvidx) (\<lambda>p.
     Inr (p\<lparr>pk_type := DISTCACHE_VALUEUPDATE_INSWITCH\<rparr>))"

definition DistcacheValueupdateInswitchAck_size :: "method_id \<Rightarrow> nat res" where
  "DistcacheValueupdateInswitchAck_size m = bind_res (get_ophdrsize m) (\<lambda>size. bind_res (get_inswitch_prev_bytes m) (\<lambda>prev.
     Inr (size + prev + 2)))"

definition DistcacheValueupdateInswitchAck_deserialize :: "packet \<Rightarrow> byte list \<Rightarrow> packet res" where
  "DistcacheValueupdateInswitchAck_deserialize = run_atleast DistcacheValueupdateInswitchAck_size (rseq [
     deserialize_ophdr, rskip 2, rskip_res get_inswitch_prev_bytes, rskip 2])"

definition DistcacheValueupdateInswitchAck_data :: "packet \<Rightarrow> method_id \<Rightarrow> byte list \<Rightarrow> packet res" where
  "DistcacheValueupdateInswitchAck_data = receive (\<lambda>m. m = DISTCACHE_ID) DistcacheValueupdateInswitchAck_deserialize
     (\<lambda>p. pk_type p = DISTCACHE_VALUEUPDATE_INSWITCH_ACK)"

section \<open>Cache packets arrive as they were sent\<close>

lemma cache_members [simp]:
  "pk_type (pop_members p this) = pk_type p" "pk_key (pop_members p this) = pk_key p"
  "pk_val (pop_members p this) = pk_val p" "pk_seq (pop_members p this) = pk_seq p"
  "pk_stat (pop_members p this) = pk_stat p" "pk_serveridx (pop_members p this) = pk_serveridx p"
  "pk_type (ncpop_members p this) = pk_type p" "pk_key (ncpop_members p this) = pk_key p"
  "pk_serveridx (ncpop_members p this) = pk_serveridx p"
  "pk_type (ncfin_members p this) = pk_type p" "pk_key (ncfin_members p this) = pk_key p"
  "pk_serveridx (ncfin_members p this) = pk_serveridx p" "pk_kvidx (ncfin_members p this) = pk_kvidx p"
  "pk_type (victim_members p this) = pk_type p" "pk_key (victim_members p this) = pk_key p"
  "pk_victimkey (victim_members p this) = pk_victimkey p" "pk_victimidx (victim_members p this) = pk_victimidx p"
  by (simp_all add: pop_members_def ncpop_members_def ncfin_members_def victim_members_def)

text \<open>The receivers for the layout of a record that moves between server and controller, with the
  \<^verbatim>\<open>serialize\<close> and \<^verbatim>\<open>bwcost\<close> of the sender's class.\<close>

definition record_receivers ::
    "(optype \<times> (packet \<Rightarrow> writer) \<times> (packet \<Rightarrow> method_id \<Rightarrow> byte list \<Rightarrow> packet res) \<times> (packet \<Rightarrow> nat res)) list" where
  "record_receivers = [(CACHE_POP, CachePop_serialize, CachePop_data, CachePop_bwcost),
     (CACHE_EVICT, CacheEvict_serialize, CacheEvict_data, CacheEvict_bwcost),
     (CACHE_EVICT_CASE2, CacheEvict_serialize, CacheEvictCase2_data, CacheEvict_bwcost)]"

lemma pop_length: "val_ok (pk_val p) \<Longrightarrow> length (pop_pat p) = ophdrsize (pk_methodid p) + 9 +
    unat (val_length (pk_val p)) + padding (pk_val p)"
  by (simp add: pop_pat_def val_pat_def length_val_body)

text \<open>C17: population and eviction move a record unchanged between server and controller: exactly the
  receiver of the operation code accepts the datagram, with key, value, sequence number, the
  flag that tells a deleted record from an existing one and the server index; the accounted bandwidth is
  the size of the datagram without the padding of the value.\<close>

theorem cache_record_dispatch:
  assumes "farreach_method (pk_methodid p)" "val_ok (pk_val p)" "unat (val_length (pk_val p)) \<le> 128"
    "ophdrsize (pk_methodid p) + 9 + unat (val_length (pk_val p)) + padding (pk_val p) \<le> length buf"
    "(t, ser, recv, bwcost) \<in> set record_receivers"
  shows "(if pk_type p = t
     then \<exists>q. transmit ser (recv this (pk_methodid p)) buf p = Inr q \<and> pk_type q = t \<and> pk_key q = pk_key p \<and>
       pk_val q = pk_val p \<and> pk_seq q = pk_seq p \<and> pk_stat q = pk_stat p \<and> pk_serveridx q = pk_serveridx p
     else transmit ser (recv this (pk_methodid p)) buf p = Inl Abort) \<and>
    (\<exists>data. datagram ser p buf = Inr data \<and> bwcost p = Inr (length data - padding (pk_val p)))"
proof -
  let ?m = "pk_methodid p"
  let ?q = "pop_members p (packet_init ?m this)"
  have ok: "sendable_val p" "?m \<noteq> INVALID_ID" using assms(1-3) by (auto simp: sendable_val_def val_small_def)
  have len: "length (pop_pat p) \<le> length buf" using assms(4) pop_length [OF assms(2)] by simp
  note d = pop.dispatch [OF ok(1) len, of any_method] evict.dispatch [OF ok(1) len, of any_method]
    evict.dispatch [OF ok(1) len, of farreach_method, OF assms(1)]
  have "transmit ser (recv this ?m) buf p = (if pk_type p = t then Inr ?q else Inl Abort)"
    using assms(3,5) by (auto simp: record_receivers_def d CachePop_data_def CacheEvict_data_def CacheEvictCase2_data_def
      SWITCH_MAX_VALLEN_def word_le_nat_alt)
  moreover have "\<exists>data. datagram ser p buf = Inr data \<and> length data = length (pop_pat p)"
    using pop.sent [OF ok(1) len] evict.sent [OF ok(1) len] assms(5) by (auto simp: record_receivers_def)
  moreover have "bwcost p = Inr (length (pop_pat p) - padding (pk_val p))"
    using assms(5) ok(2) pop_length [OF assms(2)]
    by (auto simp: record_receivers_def CachePop_bwcost_def CacheEvict_bwcost_def header_sizes_valid)
  ultimately show ?thesis by fastforce
qed

theorem cache_record_dispatch_witness:
  "\<exists>q. transmit CacheEvict_serialize (CacheEvictCase2_data packet_default FARREACH_ID)
      (replicate 40 0) (packet_default\<lparr>pk_methodid := FARREACH_ID, pk_type := CACHE_EVICT_CASE2, pk_serveridx := 5\<rparr>) = Inr q \<and>
     pk_serveridx q = 5"
  using cache_record_dispatch [of "packet_default\<lparr>pk_methodid := FARREACH_ID, pk_type := CACHE_EVICT_CASE2, pk_serveridx := 5\<rparr>"
      "replicate 40 0" CACHE_EVICT_CASE2 CacheEvict_serialize CacheEvictCase2_data CacheEvict_bwcost packet_default]
  by (auto simp: record_receivers_def packet_default_def val_ok_def val_default_def padding_def ophdrsize_def is_singleswitch_def)

text \<open>C18: the NetCache and DistCache control packets of fixed size arrive with key, server index, cache
  index and victim as they were built, exactly at the receiver of their operation code: every receiver aborts on the
  packets of its layout with another operation code, and the one for victims for every method but DistCache. The receivers of
  the four packets with a server index only also refuse datagrams of any other size. The packet that asks for the population of a
  warmed-up key never arrives: its \<^verbatim>\<open>serialize\<close> returns 8, the size of a pointer difference, and every receiver
  refuses the 8 bytes.\<close>

theorem netcache_dispatch:
  assumes "netcache_method m" "pk_methodid p = m" "ophdrsize m + 60 \<le> length buf"
    "(t, recv) \<in> {(NETCACHE_CACHE_POP, NetcacheCachePop_data), (NETCACHE_CACHE_POP_FINISH_ACK, NetcacheCachePopFinishAck_data),
      (NETCACHE_CACHE_EVICT, NetcacheCacheEvict_data), (NETCACHE_CACHE_EVICT_ACK, NetcacheCacheEvictAck_data)}"
    "length other \<noteq> ophdrsize m + 2"
  shows "(if pk_type p = t
     then \<exists>q. transmit NetcacheCachePop_serialize (recv this m) buf p = Inr q \<and> pk_type q = t \<and> pk_key q = pk_key p \<and>
       pk_serveridx q = pk_serveridx p
     else transmit NetcacheCachePop_serialize (recv this m) buf p = Inl Abort) \<and>
    recv this m other = Inl Abort \<and>
    (if pk_type p = NETCACHE_CACHE_POP_FINISH
     then \<exists>q. transmit NetcacheCachePopFinish_serialize (NetcacheCachePopFinish_data this m) buf p = Inr q \<and> pk_type q = pk_type p \<and>
        pk_key q = pk_key p \<and> pk_serveridx q = pk_serveridx p \<and> pk_kvidx q = pk_kvidx p
     else transmit NetcacheCachePopFinish_serialize (NetcacheCachePopFinish_data this m) buf p = Inl Abort) \<and>
    (if m = DISTCACHE_ID \<and> pk_type p = DISTCACHE_CACHE_EVICT_VICTIM
     then \<exists>q. transmit DistcacheCacheEvictVictim_serialize (DistcacheCacheEvictVictim_data this m) buf p = Inr q \<and> pk_type q = pk_type p \<and>
        pk_key q = pk_key p \<and> pk_victimkey q = pk_victimkey p \<and> pk_victimidx q = pk_victimidx p
     else transmit DistcacheCacheEvictVictim_serialize (DistcacheCacheEvictVictim_data this m) buf p = Inl Abort) \<and>
    (\<exists>data. datagram NetcacheWarmupRequestInswitchPop_serialize p buf = Inr data \<and> length data = 8 \<and>
      NetcacheWarmupRequestInswitchPop_data this m data = Inl Abort)"
proof -
  have ok: "sendable p" "m \<noteq> INVALID_ID" using assms(1,2) by auto
  have len: "length (ncpop_pat p) \<le> length buf" "length (ncfin_pat p) \<le> length buf" "length (victim_pat p) \<le> length buf"
    using assms(2,3) by (simp_all add: ncpop_pat_def ncfin_pat_def victim_pat_def)
  note d = ncpop.dispatch [OF ok(1) len(1), of netcache_method] ncfin.dispatch [OF ok(1) len(2), of netcache_method]
    victim.dispatch_method [OF ok(1) len(3), of "\<lambda>m. m = DISTCACHE_ID"]
  have victim: "transmit DistcacheCacheEvictVictim_serialize (DistcacheCacheEvictVictim_data this m) buf p =
      (if m = DISTCACHE_ID \<and> pk_type p = DISTCACHE_CACHE_EVICT_VICTIM then Inr (victim_members p (packet_init m this)) else Inl Abort)"
    using d(3) [unfolded assms(2)] by (simp add: DistcacheCacheEvictVictim_data_def)
  have "transmit NetcacheCachePop_serialize (recv this m) buf p =
      (if pk_type p = t then Inr (ncpop_members p (packet_init m this)) else Inl Abort)"
    using assms(4) d(1) [unfolded assms(2), OF assms(1)]
    by (auto simp: NetcacheCachePop_data_def NetcacheCachePopFinishAck_data_def NetcacheCacheEvict_data_def NetcacheCacheEvictAck_data_def)
  moreover have "recv this m other = Inl Abort"
    using assms(1,4,5) ok(2)
    by (auto simp: NetcacheCachePop_data_def NetcacheCachePopFinishAck_data_def NetcacheCacheEvict_data_def NetcacheCacheEvictAck_data_def
      receive_def NetcacheCachePop_deserialize_def size_checks NetcacheCachePop_size_def header_sizes_valid)
  moreover have "transmit NetcacheCachePopFinish_serialize (NetcacheCachePopFinish_data this m) buf p =
      (if pk_type p = NETCACHE_CACHE_POP_FINISH then Inr (ncfin_members p (packet_init m this)) else Inl Abort)"
    using d(2) [unfolded assms(2), OF assms(1)] by (simp add: NetcacheCachePopFinish_data_def)
  moreover have "if m = DISTCACHE_ID \<and> pk_type p = DISTCACHE_CACHE_EVICT_VICTIM
     then \<exists>q. transmit DistcacheCacheEvictVictim_serialize (DistcacheCacheEvictVictim_data this m) buf p = Inr q \<and> pk_type q = pk_type p \<and>
        pk_key q = pk_key p \<and> pk_victimkey q = pk_victimkey p \<and> pk_victimidx q = pk_victimidx p
     else transmit DistcacheCacheEvictVictim_serialize (DistcacheCacheEvictVictim_data this m) buf p = Inl Abort"
    unfolding victim by simp
  moreover have "\<exists>data. datagram NetcacheWarmupRequestInswitchPop_serialize p buf = Inr data \<and> length data = 8 \<and>
      NetcacheWarmupRequestInswitchPop_data this m data = Inl Abort"
  proof -
    let ?pat = "concat [ophdr_pat p, be16_pat (pk_type p), bytes_pat (replicate (inswitch_prev m) 0), bytes_pat (replicate 2 0),
      gap_pat (clone_bytes m)]"
    have m: "inswitch_prev m = 26" "clone_bytes m \<le> 18" "8 \<le> ophdrsize m"
      using assms(1) by (auto simp: inswitch_prev_def get_inswitch_prev_bytes_def clone_bytes_def get_clone_bytes_def the_res_def
        ophdrsize_def is_singleswitch_def)
    have "emits (wseq [with_res (NetcacheWarmupRequestInswitchPop_size (pk_methodid p)) require_space,
      serialize_ophdr p, serialize_packet_type (pk_type p), zero_res (get_inswitch_prev_bytes (pk_methodid p)), zero_bytes 2,
      skip_res (get_clone_bytes (pk_methodid p))]) ?pat"
      using ok assms(2) by (intro emits_size_check packet_emits)
        (auto simp: NetcacheWarmupRequestInswitchPop_size_def header_sizes_valid)
    moreover have "length ?pat \<le> length buf" using assms(2,3) m by simp
    ultimately have "NetcacheWarmupRequestInswitchPop_serialize p (buf, 0) = Inr (overlay 0 ?pat buf, 8)"
      unfolding NetcacheWarmupRequestInswitchPop_serialize_def emits_def by (simp del: wseq.simps)
    then have "datagram NetcacheWarmupRequestInswitchPop_serialize p buf = Inr (take 8 (overlay 0 ?pat buf))"
      by (simp add: datagram_def)
    moreover have "length (take 8 (overlay 0 ?pat buf)) = 8" using \<open>length ?pat \<le> length buf\<close> assms(3) by simp
    moreover have "NetcacheWarmupRequestInswitchPop_data this m data = Inl Abort" if "length data = 8" for data
      using that assms(1) ok(2) m by (simp add: NetcacheWarmupRequestInswitchPop_data_def receive_def
        NetcacheWarmupRequestInswitchPop_deserialize_def size_checks NetcacheWarmupRequestInswitchPop_size_def header_sizes_valid)
    ultimately show ?thesis by blast
  qed
  ultimately show ?thesis by (intro conjI) simp_all
qed

theorem netcache_dispatch_witness:
  "\<exists>q. transmit NetcacheCachePop_serialize (NetcacheCacheEvict_data packet_default NETCACHE_ID)
      (replicate 90 0) (packet_default\<lparr>pk_methodid := NETCACHE_ID, pk_type := NETCACHE_CACHE_EVICT, pk_serveridx := 5\<rparr>) = Inr q \<and>
     pk_serveridx q = 5"
  using netcache_dispatch [of NETCACHE_ID "packet_default\<lparr>pk_methodid := NETCACHE_ID, pk_type := NETCACHE_CACHE_EVICT, pk_serveridx := 5\<rparr>"
      "replicate 90 0" NETCACHE_CACHE_EVICT NetcacheCacheEvict_data "[]" packet_default]
  by (auto simp: ophdrsize_def is_singleswitch_def)

end
