(* ===== verification/Packet_Scan.thy ===== *)
theory Packet_Scan
  imports Packet_Cache
begin

text \<open>
  The response to one part of a split scan, with its list of records, and the functions at the end
  of src/common/packet_format_impl.h that read single fields of a received datagram: the operation
  code, the key, the client index and fragment sequence number of a large packet, and the offsets at
  which the receiver of a scan finds the numbers of sources. Of a \<^verbatim>\<open>snapshot_record_t\<close> only the value is
  on the wire.
\<close>

section \<open>ScanResponseSplit\<close>

definition ScanResponseSplit_new ::
    "method_id \<Rightarrow> net_key \<Rightarrow> net_key \<Rightarrow> u16 \<Rightarrow> u16 \<Rightarrow> u16 \<Rightarrow> u32 \<Rightarrow> u32 \<Rightarrow> (net_key \<times> net_val) list \<Rightarrow> packet res" where
  "ScanResponseSplit_new m k e cur_scanidx max_scannum nodeidx snapshotid pairnum pairs =
     bind_res (ScanRequestSplit_new m k e cur_scanidx max_scannum) (\<lambda>p.
     bind_res (invariant (0 \<le> sint snapshotid \<and> pairnum = of_nat (length pairs))) (\<lambda>_.
     Inr (p\<lparr>pk_nodeidx := nodeidx, pk_snapshotid := snapshotid, pk_pairnum := pairnum, pk_type := SCANRES_SPLIT,
       pk_pairs := pairs\<rparr>)))"

definition ScanResponseSplit_new_switch ::
    "method_id \<Rightarrow> net_key \<Rightarrow> net_key \<Rightarrow> u16 \<Rightarrow> u16 \<Rightarrow> u16 \<Rightarrow> u16 \<Rightarrow> u16 \<Rightarrow> u32 \<Rightarrow> u32 \<Rightarrow> (net_key \<times> net_val) list \<Rightarrow> packet res" where
  "ScanResponseSplit_new_switch m k e cur_scanidx max_scannum cur_scanswitchidx max_scanswitchnum nodeidx snapshotid pairnum pairs =
     bind_res (ScanRequestSplit_new_switch m k e cur_scanidx max_scannum cur_scanswitchidx max_scanswitchnum) (\<lambda>p.
     bind_res (invariant (0 \<le> sint snapshotid \<and> pairnum = of_nat (length pairs))) (\<lambda>_.
     Inr (p\<lparr>pk_nodeidx := nodeidx, pk_snapshotid := snapshotid, pk_pairnum := pairnum, pk_type := SCANRES_SPLIT,
       pk_pairs := pairs\<rparr>)))"

definition ScanResponseSplitServer_new ::
    "method_id \<Rightarrow> net_key \<Rightarrow> net_key \<Rightarrow> u16 \<Rightarrow> u16 \<Rightarrow> u16 \<Rightarrow> u16 \<Rightarrow> u16 \<Rightarrow> u32 \<Rightarrow> u32 \<Rightarrow> (net_key \<times> net_val) list \<Rightarrow> packet res" where
  "ScanResponseSplitServer_new m k e cur_scanidx max_scannum cur_scanswitchidx max_scanswitchnum nodeidx snapshotid pairnum pairs =
     bind_res (ScanResponseSplit_new_switch m k e cur_scanidx max_scannum cur_scanswitchidx max_scanswitchnum nodeidx snapshotid
       pairnum pairs) (\<lambda>p. Inr (p\<lparr>pk_type := SCANRES_SPLIT_SERVER\<rparr>))"

definition ScanResponseSplit_size :: "method_id \<Rightarrow> nat res" where
  "ScanResponseSplit_size m = bind_res (get_ophdrsize m) (\<lambda>size. bind_res (get_split_prev_bytes m) (\<lambda>prev.
     Inr (size + 16 + prev + 2 + 2 + 2 + 4 + 4 + (if \<not> is_singleswitch m then 2 + 2 else 0))))"

text \<open>The loop over the records.\<close>

definition put_pairs :: "(net_key \<times> net_val) list \<Rightarrow> writer" where
  "put_pairs ps = wseq (map (\<lambda>(k, v). wseq [key_serialize k, val_serialize_large v]) ps)"

primrec get_pairs :: "nat \<Rightarrow> (net_key \<times> net_val) list reader" where
  "get_pairs 0 = rreturn []"
| "get_pairs (Suc n) = rbind key_deserialize (\<lambda>k. rbind val_deserialize_large (\<lambda>v.
     rbind (get_pairs n) (\<lambda>ps. rreturn ((k, v) # ps))))"

definition ScanResponseSplit_serialize :: "packet \<Rightarrow> writer" where
  "ScanResponseSplit_serialize p = wseq [
     with_res (ScanResponseSplit_size (pk_methodid p)) require_space,
     serialize_ophdr p, key_serialize (pk_endkey p), zero_res (get_split_prev_bytes (pk_methodid p)),
     put16_be (pk_cur_scanidx p), put16_be (pk_max_scannum p),
     wif (\<not> is_singleswitch (pk_methodid p)) [put16_be (pk_cur_scanswitchidx p), put16_be (pk_max_scanswitchnum p)],
     put16_be (pk_nodeidx p), put_bytes (le32 (pk_snapshotid p)), put32_be (pk_pairnum p), put_pairs (pk_pairs p)]"

definition dzero :: "nat res \<Rightarrow> dwriter" where
  "dzero r s = (case s of (d, off) \<Rightarrow> bind_res r (\<lambda>n.
     bind_res (dynamic_memset d off 0 (int n)) (\<lambda>d. Inr (d, off + int n))))"

definition ScanResponseSplit_dynamic_serialize :: "packet \<Rightarrow> dyn_array \<Rightarrow> (dyn_array \<times> int) res" where
  "ScanResponseSplit_dynamic_serialize p d = dseq [
     dophdr p, dput_key (pk_endkey p), dzero (get_split_prev_bytes (pk_methodid p)),
     dput (le16 (htons (pk_cur_scanidx p))), dput (le16 (htons (pk_max_scannum p))),
     dseq (if \<not> is_singleswitch (pk_methodid p)
       then [dput (le16 (htons (pk_cur_scanswitchidx p))), dput (le16 (htons (pk_max_scanswitchnum p)))] else []),
     dput (le16 (htons (pk_nodeidx p))), dput (le32 (pk_snapshotid p)), dput (le32 (htonl (pk_pairnum p))),
     dseq (map (\<lambda>(k, v). dseq [dput_key k, dput_val_large v]) (pk_pairs p))] (d, 0)"

text \<open>\<^verbatim>\<open>_pairs.resize(_pairnum)\<close> throws for a negative number.\<close>

definition rdpairs :: step where
  "rdpairs p = (if sint (pk_pairnum p) < 0 then (\<lambda>s. Inl Abort)
     else rmember (get_pairs (unat (pk_pairnum p))) (\<lambda>x. pk_pairs_update (\<lambda>_. x)) p)"

definition ScanResponseSplit_deserialize :: "packet \<Rightarrow> byte list \<Rightarrow> packet res" where
  "ScanResponseSplit_deserialize = run_atleast ScanResponseSplit_size (rseq (scan_hdr @
     [rd16 pk_nodeidx_update, rmember get32 (\<lambda>x. pk_snapshotid_update (\<lambda>_. x)), rd32 pk_pairnum_update, rdpairs]))"

definition ScanResponseSplit_data :: "packet \<Rightarrow> method_id \<Rightarrow> byte list \<Rightarrow> packet res" where
  "ScanResponseSplit_data = receive any_method ScanResponseSplit_deserialize
     (\<lambda>p. pk_type p = SCANRES_SPLIT \<and> 0 \<le> sint (pk_snapshotid p))"

text \<open>Offsets and lengths for the receiver of a scan.\<close>

definition ScanResponseSplit_get_frag_hdrsize :: "method_id \<Rightarrow> nat res" where
  "ScanResponseSplit_get_frag_hdrsize m = bind_res (get_ophdrsize m) (\<lambda>size. bind_res (get_split_prev_bytes m) (\<lambda>prev.
     Inr (size + 16 + prev + 2 + 2 + (if \<not> is_singleswitch m then 2 + 2 else 0))))"

definition ScanResponseSplit_get_srcnum_off :: "method_id \<Rightarrow> nat res" where
  "ScanResponseSplit_get_srcnum_off m = bind_res (get_ophdrsize m) (\<lambda>size. bind_res (get_split_prev_bytes m) (\<lambda>prev.
     Inr (size + 16 + prev + 2)))"

definition ScanResponseSplit_get_srcid_off :: "method_id \<Rightarrow> nat res" where
  "ScanResponseSplit_get_srcid_off m = bind_res (get_ophdrsize m) (\<lambda>size. bind_res (get_split_prev_bytes m) (\<lambda>prev.
     Inr (size + 16 + prev)))"

definition ScanResponseSplit_get_srcswitchnum_off :: "method_id \<Rightarrow> nat res" where
  "ScanResponseSplit_get_srcswitchnum_off m = bind_res (invariant (\<not> is_singleswitch m)) (\<lambda>_.
     bind_res (get_ophdrsize m) (\<lambda>size. bind_res (get_split_prev_bytes m) (\<lambda>prev.
     Inr (size + 16 + prev + 2 + 2 + 2))))"

definition ScanResponseSplit_get_srcswitchid_off :: "method_id \<Rightarrow> nat res" where
  "ScanResponseSplit_get_srcswitchid_off m = bind_res (invariant (\<not> is_singleswitch m)) (\<lambda>_.
     bind_res (get_ophdrsize m) (\<lambda>size. Inr (size + 16 + size + 2 + 2)))"

section \<open>Fields of a received datagram\<close>

definition read16 :: "byte list \<Rightarrow> nat \<Rightarrow> u16 res" where
  "read16 data off = (if off + 2 \<le> length data then Inr (load16 (drop off data)) else Inl Undefined)"

definition read32 :: "byte list \<Rightarrow> nat \<Rightarrow> u32 res" where
  "read32 data off = (if off + 4 \<le> length data then Inr (load32 (drop off data)) else Inl Undefined)"

definition get_packet_type :: "byte list \<Rightarrow> optype res" where
  "get_packet_type data = bind_res (invariant (2 \<le> length data)) (\<lambda>_.
     bind_res (read16 data 0) (\<lambda>tmp. Inr (htons tmp)))"

definition get_packet_key :: "method_id \<Rightarrow> byte list \<Rightarrow> net_key res" where
  "get_packet_key m data = bind_res (get_ophdrsize m) (\<lambda>size.
     bind_res (key_deserialize (data, size - 16)) (\<lambda>(k, _). Inr k))"

definition large_seq_types :: "optype list" where
  "large_seq_types = [PUTREQ_LARGEVALUE_SEQ, PUTREQ_LARGEVALUE_SEQ_CACHED, PUTREQ_LARGEVALUE_SEQ_CASE3,
     PUTREQ_LARGEVALUE_SEQ_BEINGEVICTED, PUTREQ_LARGEVALUE_SEQ_CASE3_BEINGEVICTED]"

definition is_same_optype :: "optype \<Rightarrow> optype \<Rightarrow> bool" where
  "is_same_optype type1 type2 \<longleftrightarrow>
     (if List.member large_seq_types type1 \<and> List.member large_seq_types type2 then True else type1 = type2)"

definition get_frag_hdrsize :: "method_id \<Rightarrow> optype \<Rightarrow> nat res" where
  "get_frag_hdrsize m t =
     (if t = PUTREQ_LARGEVALUE then PutRequestLargevalue_get_frag_hdrsize m
      else if t = PUTREQ_LARGEVALUE_SEQ then PutRequestLargevalueSeq_get_frag_hdrsize m
      else if t = PUTREQ_LARGEVALUE_SEQ_CACHED then PutRequestLargevalueSeqCached_get_frag_hdrsize m
      else if t = PUTREQ_LARGEVALUE_SEQ_CASE3 then PutRequestLargevalueSeqCase3_get_frag_hdrsize m
      else if t = PUTREQ_LARGEVALUE_SEQ_BEINGEVICTED then PutRequestLargevalueSeqBeingevicted_get_frag_hdrsize m
      else if t = PUTREQ_LARGEVALUE_SEQ_CASE3_BEINGEVICTED then PutRequestLargevalueSeqCase3Beingevicted_get_frag_hdrsize m
      else if t = GETRES_LARGEVALUE then GetResponseLargevalue_get_frag_hdrsize m
      else if t = GETRES_LARGEVALUE_SEQ then GetResponseLargevalueSeq_get_frag_hdrsize m
      else if t = GETRES_LARGEVALUE_SERVER_SEQ then get_ophdrsize m
      else if t = LOADREQ then LoadRequest_get_frag_hdrsize m
      else Inr 0)"

text \<open>The \<^verbatim>\<open>size_t\<close> is narrowed to an \<^verbatim>\<open>int\<close> for the addition, which must not overflow.\<close>

definition get_frag_totalsize :: "method_id \<Rightarrow> optype \<Rightarrow> nat \<Rightarrow> nat res" where
  "get_frag_totalsize m t frag_maxsize =
     (if List.member large_seq_types t then
        bind_res (get_frag_hdrsize m PUTREQ_LARGEVALUE) (\<lambda>sent_frag_hdrsize.
        bind_res (get_frag_hdrsize m PUTREQ_LARGEVALUE_SEQ) (\<lambda>received_frag_hdrsize.
        let extra_frag_hdrsize = int received_frag_hdrsize - int sent_frag_hdrsize;
            result = sint (of_nat frag_maxsize :: u32) + extra_frag_hdrsize in
        bind_res (ensure_defined (result < 2 ^ 31)) (\<lambda>_.
        bind_res (invariant (0 \<le> result)) (\<lambda>_. Inr (nat result)))))
      else Inr frag_maxsize)"

text \<open>The bytes before the client index.\<close>

definition client_prevbytes :: "method_id \<Rightarrow> optype \<Rightarrow> nat res" where
  "client_prevbytes m t = bind_res (get_ophdrsize m) (\<lambda>size.
     if t = PUTREQ_LARGEVALUE then Inr size
     else if List.member large_seq_types t then Inr (size + 2 + 4 + (if m = FARREACH_ID then 4 else 0))
     else if t = LOADREQ then Inr size
     else Inl Exit)"

definition get_packet_clientlogicalidx :: "method_id \<Rightarrow> byte list \<Rightarrow> u16 res" where
  "get_packet_clientlogicalidx m data =
     bind_res (get_packet_type data) (\<lambda>t.
     bind_res (client_prevbytes m t) (\<lambda>prevbytes.
     bind_res (invariant (prevbytes + 2 \<le> length data)) (\<lambda>_.
     bind_res (read16 data prevbytes) (\<lambda>w. Inr (htons w)))))"

definition get_packet_fragseq :: "method_id \<Rightarrow> byte list \<Rightarrow> u32 res" where
  "get_packet_fragseq m data =
     bind_res (get_packet_type data) (\<lambda>t.
     bind_res (client_prevbytes m t) (\<lambda>prevbytes.
     bind_res (invariant (prevbytes + 2 + 4 \<le> length data)) (\<lambda>_.
     bind_res (read32 data (prevbytes + 2)) (\<lambda>w. Inr (htonl w)))))"

definition optype_with_clientlogicalidx_list :: "optype list" where
  "optype_with_clientlogicalidx_list = [PUTREQ_LARGEVALUE, PUTREQ_LARGEVALUE_SEQ, PUTREQ_LARGEVALUE_SEQ_CACHED,
     PUTREQ_LARGEVALUE_SEQ_CASE3, PUTREQ_LARGEVALUE_SEQ_BEINGEVICTED, PUTREQ_LARGEVALUE_SEQ_CASE3_BEINGEVICTED, LOADREQ]"

definition optype_for_udprecvlarge_ipfrag_list :: "optype list" where
  "optype_for_udprecvlarge_ipfrag_list = [PUTREQ_LARGEVALUE, PUTREQ_LARGEVALUE_SEQ, PUTREQ_LARGEVALUE_SEQ_CACHED,
     PUTREQ_LARGEVALUE_SEQ_CASE3, PUTREQ_LARGEVALUE_SEQ_BEINGEVICTED, PUTREQ_LARGEVALUE_SEQ_CASE3_BEINGEVICTED, LOADREQ,
     GETRES_LARGEVALUE, GETRES_LARGEVALUE_SEQ, GETRES_LARGEVALUE_SERVER_SEQ]"

definition is_packet_with_largevalue :: "optype \<Rightarrow> bool" where
  "is_packet_with_largevalue t = list_ex (\<lambda>u. t = u) optype_for_udprecvlarge_ipfrag_list"

definition is_packet_with_clientlogicalidx :: "optype \<Rightarrow> bool" where
  "is_packet_with_clientlogicalidx t = list_ex (\<lambda>u. t = u) optype_with_clientlogicalidx_list"

text \<open>The receiver of a scan only handles \<^verbatim>\<open>SCANRES_SPLIT\<close>; for another code the functions print a
  warning and return 0.\<close>

definition get_srcnum_off :: "method_id \<Rightarrow> optype \<Rightarrow> nat res" where
  "get_srcnum_off m t = (if t = SCANRES_SPLIT then ScanResponseSplit_get_srcnum_off m else Inr 0)"

definition get_srcid_off :: "method_id \<Rightarrow> optype \<Rightarrow> nat res" where
  "get_srcid_off m t = (if t = SCANRES_SPLIT then ScanResponseSplit_get_srcid_off m else Inr 0)"

definition get_srcswitchnum_off :: "method_id \<Rightarrow> optype \<Rightarrow> nat res" where
  "get_srcswitchnum_off m t = (if t = SCANRES_SPLIT then ScanResponseSplit_get_srcswitchnum_off m else Inr 0)"

definition get_srcswitchid_off :: "method_id \<Rightarrow> optype \<Rightarrow> nat res" where
  "get_srcswitchid_off m t = (if t = SCANRES_SPLIT then ScanResponseSplit_get_srcswitchid_off m else Inr 0)"

section \<open>Scan responses arrive as they were sent\<close>

definition pairs_bytes :: "(net_key \<times> net_val) list \<Rightarrow> byte list" where
  "pairs_bytes ps = concat (map (\<lambda>(k, v). key_bytes k @ val_pat_large v) ps)"

definition pairs_ok :: "(net_key \<times> net_val) list \<Rightarrow> bool" where
  "pairs_ok ps \<longleftrightarrow> list_all (\<lambda>(k, v). val_ok v) ps"

lemma emits_put_pairs [packet_emits]: "pairs_ok ps \<Longrightarrow> emits (put_pairs ps) (bytes_pat (pairs_bytes ps))"
proof (induction ps)
  case Nil
  then show ?case using emits_wseq_Nil by (simp add: put_pairs_def pairs_bytes_def del: wseq.simps)
next
  case (Cons kv ps)
  obtain k v where kv: "kv = (k, v)" by force
  have "emits (wseq [key_serialize k, val_serialize_large v]) (bytes_pat (key_bytes k) @ bytes_pat (val_pat_large v))"
    using emits_wseq_Cons [OF emits_key_serialize emits_wseq_single [OF lval.enc_emits]] Cons.prems
    by (simp add: kv pairs_ok_def)
  from emits_wseq_Cons [OF this] show ?case
    using Cons by (simp add: kv put_pairs_def pairs_bytes_def pairs_ok_def del: wseq.simps)
qed

lemma parses_get_pairs: "pairs_ok ps \<Longrightarrow> parses (get_pairs (length ps)) (bytes_pat (pairs_bytes ps)) ps"
proof (induction ps)
  case Nil
  then show ?case using parses_rreturn by (simp add: pairs_bytes_def)
next
  case (Cons kv ps)
  obtain k v where kv: "kv = (k, v)" by force
  have 1: "parses (rbind (get_pairs (length ps)) (\<lambda>ps. rreturn ((k, v) # ps))) (bytes_pat (pairs_bytes ps)) ((k, v) # ps)"
    using Cons by (intro parses_rbind_final [of _ _ ps]) (auto simp: pairs_ok_def)
  have 2: "parses (rbind val_deserialize_large (\<lambda>v. rbind (get_pairs (length ps)) (\<lambda>ps. rreturn ((k, v) # ps))))
      (bytes_pat (val_pat_large v) @ bytes_pat (pairs_bytes ps)) ((k, v) # ps)"
    by (rule parses_rbind [where f = "\<lambda>v. rbind (get_pairs (length ps)) (\<lambda>ps. rreturn ((k, v) # ps))", OF lval.dec_parses 1])
      (use Cons.prems in \<open>simp add: kv pairs_ok_def\<close>)
  show ?case
    using parses_rbind [where f = "\<lambda>k. rbind val_deserialize_large (\<lambda>v. rbind (get_pairs (length ps)) (\<lambda>ps. rreturn ((k, v) # ps)))",
        OF parses_key_deserialize 2]
    by (simp add: kv pairs_bytes_def)
qed

lemma parses_rdpairs [packet_parses]:
  assumes "pairs_ok ps" "pk_pairnum p = of_nat (length ps)" "length ps < 2 ^ 31"
  shows "parses (rdpairs p) (bytes_pat (pairs_bytes ps)) (p\<lparr>pk_pairs := ps\<rparr>)"
proof -
  have u: "unat (of_nat (length ps) :: u32) = length ps" using assms(3) by (simp add: unat_of_nat)
  then have "uint (of_nat (length ps) :: u32) = int (length ps)" by (simp only: uint_nat)
  then have "sint (of_nat (length ps) :: u32) = int (length ps)"
    using assms(3) by (simp only: sint_uint) (rule signed_take_bit_int_eq_self, auto)
  then have "\<not> sint (of_nat (length ps) :: u32) < 0" by simp
  with u show ?thesis
    using parses_rmember [OF parses_get_pairs [OF assms(1)]] assms(2) by (simp add: rdpairs_def)
qed

definition scan_pat :: "packet \<Rightarrow> pattern" where
  "scan_pat p = concat [
     ophdr_pat p, bytes_pat (key_bytes (pk_endkey p)), bytes_pat (replicate (split_prev (pk_methodid p)) 0),
     be16_pat (pk_cur_scanidx p), be16_pat (pk_max_scannum p),
     if \<not> is_singleswitch (pk_methodid p) then concat [be16_pat (pk_cur_scanswitchidx p), be16_pat (pk_max_scanswitchnum p)] else [],
     be16_pat (pk_nodeidx p), bytes_pat (le32 (pk_snapshotid p)), be32_pat (pk_pairnum p),
     bytes_pat (pairs_bytes (pk_pairs p))]"

definition scan_members :: "packet \<Rightarrow> packet \<Rightarrow> packet" where
  "scan_members p this = (let q = (copy_ophdr p this)\<lparr>pk_endkey := pk_endkey p, pk_cur_scanidx := pk_cur_scanidx p,
       pk_max_scannum := pk_max_scannum p, pk_nodeidx := pk_nodeidx p, pk_snapshotid := pk_snapshotid p,
       pk_pairnum := pk_pairnum p, pk_pairs := pk_pairs p\<rparr> in
     if is_singleswitch (pk_methodid p) then q
     else q\<lparr>pk_cur_scanswitchidx := pk_cur_scanswitchidx p, pk_max_scanswitchnum := pk_max_scanswitchnum p\<rparr>)"

definition sendable_scan :: "packet \<Rightarrow> bool" where
  "sendable_scan p \<longleftrightarrow> sendable p \<and> pairs_ok (pk_pairs p) \<and> pk_pairnum p = of_nat (length (pk_pairs p)) \<and>
     length (pk_pairs p) < 2 ^ 31"

lemmas [packet_parses] = parses_get32

lemma emits_scan: "sendable_scan p \<Longrightarrow> emits (ScanResponseSplit_serialize p) (scan_pat p)"
  unfolding ScanResponseSplit_serialize_def scan_pat_def
  by (intro emits_size_check packet_emits) (auto simp: sendable_scan_def ScanResponseSplit_size_def header_sizes_valid)

interpretation scanres: packet_codec ScanResponseSplit_serialize ScanResponseSplit_deserialize scan_pat sendable_scan scan_members
  unfolding ScanResponseSplit_deserialize_def scan_hdr_def append.simps
  apply (rule packet_codec_atleast [OF emits_scan, where
        n = "\<lambda>p. ophdrsize (pk_methodid p) + 30 + split_prev (pk_methodid p) + (if is_singleswitch (pk_methodid p) then 0 else 4)"])
    apply assumption
  subgoal for p by (auto simp: ScanResponseSplit_size_def header_sizes_valid sendable_scan_def scan_pat_def)
  unfolding scan_pat_def sendable_scan_def
  by (rule packet_parses | simp add: scan_members_def header_sizes_valid Let_def)+

lemma scan_members_simps [simp]:
  "pk_type (scan_members p this) = pk_type p" "pk_key (scan_members p this) = pk_key p"
  "pk_endkey (scan_members p this) = pk_endkey p" "pk_cur_scanidx (scan_members p this) = pk_cur_scanidx p"
  "pk_max_scannum (scan_members p this) = pk_max_scannum p" "pk_nodeidx (scan_members p this) = pk_nodeidx p"
  "pk_snapshotid (scan_members p this) = pk_snapshotid p" "pk_pairs (scan_members p this) = pk_pairs p"
  "\<not> is_singleswitch (pk_methodid p) \<Longrightarrow> pk_cur_scanswitchidx (scan_members p this) = pk_cur_scanswitchidx p"
  "\<not> is_singleswitch (pk_methodid p) \<Longrightarrow> pk_max_scanswitchnum (scan_members p this) = pk_max_scanswitchnum p"
  by (simp_all add: scan_members_def Let_def)

definition scan_bytes :: "packet \<Rightarrow> byte list" where
  "scan_bytes p = concat [
     ophdr_bytes p, key_bytes (pk_endkey p), replicate (split_prev (pk_methodid p)) 0,
     le16 (htons (pk_cur_scanidx p)), le16 (htons (pk_max_scannum p)),
     concat (if \<not> is_singleswitch (pk_methodid p)
       then [le16 (htons (pk_cur_scanswitchidx p)), le16 (htons (pk_max_scanswitchnum p))] else []),
     le16 (htons (pk_nodeidx p)), le32 (pk_snapshotid p), le32 (htonl (pk_pairnum p)), pairs_bytes (pk_pairs p)]"

lemma scan_pat_bytes: "scan_pat p = bytes_pat (scan_bytes p)"
  by (simp add: scan_pat_def scan_bytes_def)

lemma dstores_zero [dstores_intros]: "r = Inr n \<Longrightarrow> dstores_at off (dzero r) (replicate n 0)"
  unfolding dstores_at_def
proof (intro allI impI)
  fix d assume "r = Inr n" and d: "da_ok d \<and> off \<le> length (da_bytes d) \<and> off + length (replicate n (0 :: byte)) \<le> nat (da_maxcapability d)"
  moreover from d have "int off + int n \<le> da_maxcapability d"
    unfolding da_ok_def length_replicate by linarith
  ultimately show "\<exists>d'. dzero r (d, int off) = Inr (d', int (off + length (replicate n (0 :: byte)))) \<and> da_ok d' \<and>
      da_bytes d' = patch off (replicate n 0) (da_bytes d) \<and> nat (da_maxcapability d') = nat (da_maxcapability d)"
    using dynamic_memset_fits [of d "int off" "int n" 0] by (auto simp: dzero_def)
qed

lemma dstores_pairs [dstores_intros]:
  assumes "pairs_ok ps" "\<forall>(k, v) \<in> set ps. 4 + length (val_body v) < 2 ^ 32"
  shows "dstores_at off (dseq (map (\<lambda>(k, v). dseq [dput_key k, dput_val_large v]) ps)) (pairs_bytes ps)"
  using assms
proof (induction ps arbitrary: off)
  case Nil
  then show ?case using dstores_Nil [of off] by (simp add: pairs_bytes_def del: dseq.simps)
next
  case (Cons kv ps)
  obtain k v where kv: "kv = (k, v)" by force
  have "dstores_at off (dseq [dput_key k, dput_val_large v]) (concat [key_bytes k, val_pat_large v])"
    using Cons.prems by (intro dstores_intros) (auto simp: kv pairs_ok_def)
  from dstores_Cons [OF this, of "map (\<lambda>(k, v). dseq [dput_key k, dput_val_large v]) ps" "map (\<lambda>(k, v). key_bytes k @ val_pat_large v) ps"]
  show ?case using Cons by (simp add: kv pairs_bytes_def pairs_ok_def del: dseq.simps)
qed

lemma dstores_scan:
  assumes "sendable_scan p" "\<forall>(k, v) \<in> set (pk_pairs p). 4 + length (val_body v) < 2 ^ 32"
  shows "dstores_at 0 (\<lambda>s. ScanResponseSplit_dynamic_serialize p (fst s)) (scan_bytes p)"
proof -
  have "dstores_at off (dseq (if \<not> is_singleswitch (pk_methodid p)
       then [dput (le16 (htons (pk_cur_scanswitchidx p))), dput (le16 (htons (pk_max_scanswitchnum p)))] else []))
     (concat (if \<not> is_singleswitch (pk_methodid p)
       then [le16 (htons (pk_cur_scanswitchidx p)), le16 (htons (pk_max_scanswitchnum p))] else []))" for off
    by (cases "is_singleswitch (pk_methodid p)"; simp only: not_True_eq_False not_False_eq_True if_True if_False; intro dstores_intros)
  then have "dstores_at 0 (dseq [dophdr p, dput_key (pk_endkey p), dzero (get_split_prev_bytes (pk_methodid p)),
     dput (le16 (htons (pk_cur_scanidx p))), dput (le16 (htons (pk_max_scannum p))),
     dseq (if \<not> is_singleswitch (pk_methodid p)
       then [dput (le16 (htons (pk_cur_scanswitchidx p))), dput (le16 (htons (pk_max_scanswitchnum p)))] else []),
     dput (le16 (htons (pk_nodeidx p))), dput (le32 (pk_snapshotid p)), dput (le32 (htonl (pk_pairnum p))),
     dseq (map (\<lambda>(k, v). dseq [dput_key k, dput_val_large v]) (pk_pairs p))]) (scan_bytes p)"
    unfolding scan_bytes_def using assms
    by (intro dstores_intros) (auto simp: sendable_scan_def header_sizes_valid)
  then show ?thesis
    unfolding dstores_at_def ScanResponseSplit_dynamic_serialize_def by simp
qed

text \<open>C22: the response to a part of a scan arrives with its key range, the indices of the part, the
  snapshot it was read from and the list of records in order; \<^verbatim>\<open>dynamic_serialize\<close> fills an empty array
  with the datagram of \<^verbatim>\<open>serialize\<close>. The number of sources, the index of the source and the number of
  switches are found at the offsets the receiver uses, but the offset for the index of the switch is
  not the one it is stored at.\<close>

theorem scan_response_roundtrip:
  assumes "sendable p" "pairs_ok (pk_pairs p)" "length (pk_pairs p) < 2 ^ 31" "pk_pairnum p = of_nat (length (pk_pairs p))"
    "pk_type p = SCANRES_SPLIT" "0 \<le> sint (pk_snapshotid p)" "length (scan_bytes p) \<le> length buf"
    "da_ok d" "da_bytes d = []" "int (length (scan_bytes p)) \<le> da_maxcapability d"
    "\<forall>(k, v) \<in> set (pk_pairs p). unat (val_length v) < 2 ^ 31"
  shows "\<exists>data q d'. datagram ScanResponseSplit_serialize p buf = Inr data \<and>
    ScanResponseSplit_data this (pk_methodid p) data = Inr q \<and> pk_key q = pk_key p \<and> pk_endkey q = pk_endkey p \<and>
    pk_cur_scanidx q = pk_cur_scanidx p \<and> pk_max_scannum q = pk_max_scannum p \<and> pk_nodeidx q = pk_nodeidx p \<and>
    pk_snapshotid q = pk_snapshotid p \<and> pk_pairs q = pk_pairs p \<and>
    ScanResponseSplit_dynamic_serialize p d = Inr (d', int (length data)) \<and> da_bytes d' = data \<and>
    bind_res (get_srcnum_off (pk_methodid p) SCANRES_SPLIT) (read16 data) = Inr (htons (pk_max_scannum p)) \<and>
    bind_res (get_srcid_off (pk_methodid p) SCANRES_SPLIT) (read16 data) = Inr (htons (pk_cur_scanidx p)) \<and>
    (\<not> is_singleswitch (pk_methodid p) \<longrightarrow>
      pk_cur_scanswitchidx q = pk_cur_scanswitchidx p \<and> pk_max_scanswitchnum q = pk_max_scanswitchnum p \<and>
      bind_res (get_srcswitchnum_off (pk_methodid p) SCANRES_SPLIT) (read16 data) = Inr (htons (pk_max_scanswitchnum p)) \<and>
      (\<exists>off. take 2 (drop off data) = le16 (htons (pk_cur_scanswitchidx p)) \<and>
        get_srcswitchid_off (pk_methodid p) SCANRES_SPLIT = Inr (off + ophdrsize (pk_methodid p) - split_prev (pk_methodid p)) \<and>
        split_prev (pk_methodid p) < ophdrsize (pk_methodid p)))"
proof -
  let ?m = "pk_methodid p" and ?data = "scan_bytes p"
  have ok: "sendable_scan p" using assms(1-4) by (simp add: sendable_scan_def)
  have data: "datagram ScanResponseSplit_serialize p buf = Inr ?data"
    using scanres.sent_bytes [OF ok scan_pat_bytes assms(7)] .
  have recv: "ScanResponseSplit_data this ?m ?data = Inr (scan_members p (packet_init ?m this))"
    using scanres.send_receive [OF ok, of buf any_method "\<lambda>p. pk_type p = SCANRES_SPLIT \<and> 0 \<le> sint (pk_snapshotid p)" this]
      data assms(5-7) by (simp add: ScanResponseSplit_data_def scan_pat_bytes)
  have "\<forall>(k, v) \<in> set (pk_pairs p). 4 + length (val_body v) < 2 ^ 32"
  proof (clarify)
    fix k v assume kv: "(k, v) \<in> set (pk_pairs p)"
    then have "val_ok v" "unat (val_length v) < 2 ^ 31" using assms(2,11) by (auto simp: pairs_ok_def list_all_iff)
    then show "4 + length (val_body v) < 2 ^ 32" using padding_less [of v] by (simp add: length_val_body)
  qed
  then obtain d' where dyn: "ScanResponseSplit_dynamic_serialize p d = Inr (d', int (length ?data))" "da_bytes d' = ?data"
    using dstores_fresh [OF dstores_scan [OF ok] assms(8-10)] by auto
  note sizes = header_sizes_valid [OF assms(1)] get_srcnum_off_def get_srcid_off_def get_srcswitchnum_off_def get_srcswitchid_off_def
    ScanResponseSplit_get_srcnum_off_def ScanResponseSplit_get_srcid_off_def ScanResponseSplit_get_srcswitchnum_off_def
    ScanResponseSplit_get_srcswitchid_off_def read16_def scan_bytes_def
  have off: "split_prev ?m < ophdrsize ?m" "split_prev ?m \<le> 4"
    by (cases ?m; simp add: split_prev_def get_split_prev_bytes_def the_res_def ophdrsize_def is_singleswitch_def)+
  have "bind_res (get_srcnum_off ?m SCANRES_SPLIT) (read16 ?data) = Inr (htons (pk_max_scannum p))"
    "bind_res (get_srcid_off ?m SCANRES_SPLIT) (read16 ?data) = Inr (htons (pk_cur_scanidx p))"
    by (simp_all add: sizes)
  moreover have "bind_res (get_srcswitchnum_off ?m SCANRES_SPLIT) (read16 ?data) = Inr (htons (pk_max_scanswitchnum p))"
    "take 2 (drop (ophdrsize ?m + 20 + split_prev ?m) ?data) = le16 (htons (pk_cur_scanswitchidx p))"
    "get_srcswitchid_off ?m SCANRES_SPLIT = Inr (ophdrsize ?m + 20 + split_prev ?m + ophdrsize ?m - split_prev ?m)"
    if "\<not> is_singleswitch ?m" using that off by (simp_all add: sizes)
  ultimately show ?thesis
    using data recv dyn off by (intro exI [of _ ?data] exI [of _ "scan_members p (packet_init ?m this)"] exI [of _ d']) auto
qed

theorem scan_response_roundtrip_witness:
  "\<exists>data q. datagram ScanResponseSplit_serialize (packet_default\<lparr>pk_methodid := FARREACH_ID, pk_type := SCANRES_SPLIT,
      pk_pairnum := 1, pk_pairs := [(key_max, \<lparr>val_length = 1, val_data = Some [7]\<rparr>)]\<rparr>) (replicate 120 0) = Inr data \<and>
     ScanResponseSplit_data packet_default FARREACH_ID data = Inr q \<and>
     pk_pairs q = [(key_max, \<lparr>val_length = 1, val_data = Some [7]\<rparr>)]"
proof -
  obtain d where d: "da_new 2 256 = Inr d" "da_ok d" "da_bytes d = []" "da_maxcapability d = 256"
    using da_ok_init [of 2 256] by auto
  have v: "val_ok \<lparr>val_length = 1, val_data = Some [7]\<rparr>" by (simp add: val_ok_def)
  show ?thesis
    using scan_response_roundtrip [of "packet_default\<lparr>pk_methodid := FARREACH_ID, pk_type := SCANRES_SPLIT,
      pk_pairnum := 1, pk_pairs := [(key_max, \<lparr>val_length = 1, val_data = Some [7]\<rparr>)]\<rparr>" "replicate 120 0" d packet_default] d v
    by (auto simp: pairs_ok_def packet_default_def scan_bytes_def pairs_bytes_def ophdrsize_def is_singleswitch_def split_prev_def
      get_split_prev_bytes_def the_res_def val_pat_large_def length_val_body padding_def)
qed

section \<open>The fields a receiver reads before it knows the class\<close>

lemma get_packet_type_ophdr: "get_packet_type (ophdr_bytes p @ rest) = Inr (pk_type p)"
  by (simp add: get_packet_type_def read16_def ophdr_bytes_def)

lemma get_packet_key_ophdr:
  assumes "sendable p"
  shows "get_packet_key (pk_methodid p) (ophdr_bytes p @ rest) = Inr (pk_key p)"
proof -
  obtain pre where pre: "ophdr_bytes p = pre @ key_bytes (pk_key p)" by (auto simp: ophdr_bytes_def)
  then have len: "length pre = ophdrsize (pk_methodid p) - 16"
    using length_ophdr_bytes [of p] by simp
  have "holds_pat (length pre) (bytes_pat (key_bytes (pk_key p))) (ophdr_bytes p @ rest)"
    by (simp add: pre holds_pat_bytes)
  then show ?thesis
    using parses_key_deserialize [of "pk_key p"] assms len
    by (auto simp: get_packet_key_def header_sizes_valid parses_def)
qed

definition largeseq_hdr :: "packet \<Rightarrow> byte list" where
  "largeseq_hdr p = le16 (htons (pk_type p)) @ le32 (htonl (pk_seq p)) @
     (if pk_methodid p = FARREACH_ID then le32 (htonl (pk_snapshot_token p)) else [])"

text \<open>All large requests have the client index and the fragment sequence number behind a header of known
  size.\<close>

lemma large_fields:
  assumes "sendable p" "client_prevbytes (pk_methodid p) (pk_type p) = Inr (ophdrsize (pk_methodid p) + length mid)"
    "data = ophdr_bytes p @ mid @ le16 (htons (pk_client_logical_idx p)) @ le32 (htonl (pk_fragseq p)) @ rest"
  shows "get_packet_type data = Inr (pk_type p)" "get_packet_key (pk_methodid p) data = Inr (pk_key p)"
    "get_packet_clientlogicalidx (pk_methodid p) data = Inr (pk_client_logical_idx p)"
    "get_packet_fragseq (pk_methodid p) data = Inr (pk_fragseq p)"
    "drop (ophdrsize (pk_methodid p) + length mid + 6) data = rest"
  using assms get_packet_type_ophdr [of p] get_packet_key_ophdr [OF assms(1)]
  by (simp_all add: get_packet_clientlogicalidx_def get_packet_fragseq_def read16_def read32_def)

lemma large_seq_member: "List.member large_seq_types t \<longleftrightarrow> t \<in> set large_seq_types"
  by simp

lemma large_header_sizes:
  fixes p defines "m \<equiv> pk_methodid p" and "t \<equiv> pk_type p"
  defines "extra \<equiv> (if t \<in> set large_seq_types then 6 + (if m = FARREACH_ID then 4 else 0) else 0)"
  assumes "sendable p" "pk_type p \<in> set (LOADREQ # PUTREQ_LARGEVALUE # large_seq_types)"
  shows "client_prevbytes (pk_methodid p) (pk_type p) = Inr (ophdrsize (pk_methodid p) + extra)"
    "get_frag_hdrsize (pk_methodid p) (pk_type p) = Inr (ophdrsize (pk_methodid p) + extra + 6)"
    "is_packet_with_largevalue (pk_type p)" "is_packet_with_clientlogicalidx (pk_type p)"
    "sz + extra < 2 ^ 31 \<Longrightarrow> get_frag_totalsize (pk_methodid p) (pk_type p) sz = Inr (sz + extra)"
proof -
  note t = assms(5) and ok = assms(4)
  show "client_prevbytes (pk_methodid p) (pk_type p) = Inr (ophdrsize (pk_methodid p) + extra)"
    using t ok unfolding extra_def m_def t_def by (auto simp: client_prevbytes_def large_seq_member header_sizes_valid) (auto simp: large_seq_types_def)
  show "get_frag_hdrsize (pk_methodid p) (pk_type p) = Inr (ophdrsize (pk_methodid p) + extra + 6)"
    using t ok unfolding extra_def m_def t_def
    by (auto simp: get_frag_hdrsize_def large_seq_types_def header_sizes_valid LoadRequest_get_frag_hdrsize_def
      PutRequestLargevalue_get_frag_hdrsize_def PutRequestLargevalueSeq_get_frag_hdrsize_def
      PutRequestLargevalueSeqCached_get_frag_hdrsize_def PutRequestLargevalueSeqCase3_get_frag_hdrsize_def
      PutRequestLargevalueSeqBeingevicted_get_frag_hdrsize_def PutRequestLargevalueSeqCase3Beingevicted_get_frag_hdrsize_def)
  show "is_packet_with_largevalue (pk_type p)" "is_packet_with_clientlogicalidx (pk_type p)"
    using t by (auto simp: is_packet_with_largevalue_def is_packet_with_clientlogicalidx_def large_seq_types_def
      optype_for_udprecvlarge_ipfrag_list_def optype_with_clientlogicalidx_list_def)
  show "get_frag_totalsize (pk_methodid p) (pk_type p) sz = Inr (sz + extra)" if "sz + extra < 2 ^ 31"
  proof -
    have "unat (of_nat sz :: u32) = sz" using that by (simp add: unat_of_nat take_bit_nat_eq_self)
    then have "sint (of_nat sz :: u32) = int sz" using that sint_small_u32 [of "of_nat sz"] by simp
    then show ?thesis
      using ok that unfolding extra_def m_def t_def
      by (auto simp: get_frag_totalsize_def large_seq_member get_frag_hdrsize_def header_sizes_valid Let_def
        PutRequestLargevalue_get_frag_hdrsize_def PutRequestLargevalueSeq_get_frag_hdrsize_def nat_add_distrib)
  qed
qed

text \<open>C21: from the first fragment of every large request a receiver reads the operation code, the key, the client
  index and the full 32-bit fragment sequence number, and \<^verbatim>\<open>get_frag_hdrsize\<close> is the size of the
  header in front of the value; all these operation codes are recognised as large and as carrying a
  client index. For sizes up to those of an \<^verbatim>\<open>int\<close>, \<^verbatim>\<open>get_frag_totalsize\<close> grows a fragment by what the switch adds to
  the header.\<close>

theorem large_packet_fields:
  assumes "sendable_big p" "length (large_bytes p) + 10 \<le> length buf"
    "(ser, pk_type p) \<in> {(LoadRequest_serialize, LOADREQ), (PutRequestLargevalue_serialize, PUTREQ_LARGEVALUE)} \<union>
      Pair PutRequestLargevalueSeq_serialize ` set large_seq_types"
  shows "\<exists>data hdr. datagram ser p buf = Inr data \<and> get_packet_type data = Inr (pk_type p) \<and>
    get_packet_key (pk_methodid p) data = Inr (pk_key p) \<and>
    get_packet_clientlogicalidx (pk_methodid p) data = Inr (pk_client_logical_idx p) \<and>
    get_packet_fragseq (pk_methodid p) data = Inr (pk_fragseq p) \<and>
    get_frag_hdrsize (pk_methodid p) (pk_type p) = Inr hdr \<and> drop hdr data = val_pat_large (pk_val p) \<and>
    is_packet_with_largevalue (pk_type p) \<and> is_packet_with_clientlogicalidx (pk_type p) \<and>
    (\<forall>sz. sz + (hdr - (ophdrsize (pk_methodid p) + 6)) < 2 ^ 31 \<longrightarrow>
      get_frag_totalsize (pk_methodid p) (pk_type p) sz = Inr (sz + (hdr - (ophdrsize (pk_methodid p) + 6))))"
proof -
  let ?m = "pk_methodid p" and ?t = "pk_type p"
  define mid where "mid = (if ?t \<in> set large_seq_types then largeseq_hdr p else [])"
  define data where "data = ophdr_bytes p @ mid @ le16 (htons (pk_client_logical_idx p)) @ le32 (htonl (pk_fragseq p)) @
    val_pat_large (pk_val p)"
  have ok: "sendable p" "sendable_large p" using assms(1) by (simp_all add: sendable_big_def sendable_large_def)
  have t: "?t \<in> set (LOADREQ # PUTREQ_LARGEVALUE # large_seq_types)" using assms(3) by auto
  have mid: "length mid = (if ?t \<in> set large_seq_types then 6 + (if ?m = FARREACH_ID then 4 else 0) else 0)"
    by (simp add: mid_def largeseq_hdr_def)
  have "datagram ser p buf = Inr data"
  proof (cases "?t \<in> set large_seq_types")
    case True
    then have "ser = PutRequestLargevalueSeq_serialize" using assms(3) by (auto simp: large_seq_types_def)
    moreover have "largeseq_pat p = bytes_pat data"
      using True by (simp add: largeseq_pat_def data_def mid_def largeseq_hdr_def)
    moreover have "length data \<le> length buf" using assms(2) mid True by (simp add: data_def large_bytes_def split: if_splits)
    ultimately show ?thesis using largeseq.sent_bytes [OF assms(1)] by simp
  next
    case False
    then have "data = large_bytes p" by (simp add: data_def mid_def large_bytes_def)
    then show ?thesis
      using False assms(2,3) loadreq.sent_bytes [OF ok(2) large_pat_bytes] putlarge.sent_bytes [OF assms(1) large_pat_bytes] by auto
  qed
  moreover note sizes = large_header_sizes [OF ok(1) t, folded mid]
  note large_fields [OF ok(1) sizes(1) data_def]
  moreover note sizes(2-5)
  ultimately show ?thesis by auto
qed

theorem large_packet_fields_witness:
  "\<exists>data. datagram PutRequestLargevalueSeq_serialize (packet_default\<lparr>pk_methodid := FARREACH_ID, pk_type := PUTREQ_LARGEVALUE_SEQ, pk_fragseq := 9,
        pk_val := \<lparr>val_length = 129, val_data = Some (replicate 129 1)\<rparr>\<rparr>) (replicate 200 0) = Inr data \<and>
     get_packet_fragseq FARREACH_ID data = Inr 9 \<and> get_frag_totalsize FARREACH_ID PUTREQ_LARGEVALUE_SEQ 1412 = Inr 1422"
proof -
  let ?p = "packet_default\<lparr>pk_methodid := FARREACH_ID, pk_type := PUTREQ_LARGEVALUE_SEQ, pk_fragseq := 9,
        pk_val := \<lparr>val_length = 129, val_data = Some (replicate 129 1)\<rparr>\<rparr>"
  have "val_ok \<lparr>val_length = 129, val_data = Some (replicate 129 1)\<rparr>" by (simp add: val_ok_def)
  then have "sendable_big ?p" "length (large_bytes ?p) = 157"
    using large_length [of ?p]
    by (simp_all add: sendable_big_def SWITCH_MAX_VALLEN_def padding_def ophdrsize_def is_singleswitch_def)
  then show ?thesis
    using large_packet_fields [of ?p "replicate 200 0" PutRequestLargevalueSeq_serialize]
    by (auto simp: get_frag_hdrsize_def PutRequestLargevalueSeq_get_frag_hdrsize_def header_sizes_valid large_seq_types_def dest: spec [of _ 1412])
qed

end
