(* ===== verification/Ordered_Map.thy ===== *)
theory Ordered_Map
  imports Main
begin

text \<open>
  The part of \<^verbatim>\<open>std::map\<close> the program uses: a container of key/value pairs in strictly
  ascending key order, modelled by the list of its pairs in iteration order. \<^verbatim>\<open>insert\<close>
  leaves an existing entry alone and reports whether it inserted, \<^verbatim>\<open>erase\<close> ignores an absent
  key, \<^verbatim>\<open>lower_bound\<close> is the iterator to the first key that is not smaller.
  The locale \<^verbatim>\<open>ordered_dict\<close> is the interface the clients reason with; it is interpreted on
  these operations at the end of the theory.
\<close>

type_synonym ('k, 'v) omap = "('k \<times> 'v) list"

definition om_ok :: "('k::linorder, 'v) omap \<Rightarrow> bool" where
  "om_ok m \<longleftrightarrow> sorted_wrt (<) (map fst m)"

definition om_find :: "('k, 'v) omap \<Rightarrow> 'k \<Rightarrow> 'v option" where
  "om_find m k = map_of m k"

fun om_set :: "'k::linorder \<Rightarrow> 'v \<Rightarrow> ('k, 'v) omap \<Rightarrow> ('k, 'v) omap" where
  "om_set k v [] = [(k, v)]"
| "om_set k v ((a, b) # m) =
     (if k < a then (k, v) # (a, b) # m
      else if k = a then (k, v) # m
      else (a, b) # om_set k v m)"

definition om_insert :: "'k::linorder \<Rightarrow> 'v \<Rightarrow> ('k, 'v) omap \<Rightarrow> ('k, 'v) omap \<times> bool" where
  "om_insert k v m = (case om_find m k of None \<Rightarrow> (om_set k v m, True) | Some _ \<Rightarrow> (m, False))"

fun om_erase :: "'k \<Rightarrow> ('k, 'v) omap \<Rightarrow> ('k, 'v) omap" where
  "om_erase k [] = []"
| "om_erase k ((a, b) # m) = (if k = a then m else (a, b) # om_erase k m)"

definition om_lower_bound :: "'k::linorder \<Rightarrow> ('k, 'v) omap \<Rightarrow> ('k, 'v) omap" where
  "om_lower_bound k m = dropWhile (\<lambda>(a, b). a < k) m"

section \<open>The operations and the finite map they represent\<close>

lemma om_ok_Nil [simp]: "om_ok []"
  by (simp add: om_ok_def)

lemma om_ok_Cons: "om_ok ((a, b) # m) \<longleftrightarrow> (\<forall>k \<in> fst ` set m. a < k) \<and> om_ok m"
  by (auto simp: om_ok_def)

lemma om_ok_distinct: "om_ok m \<Longrightarrow> distinct (map fst m)"
  by (simp add: om_ok_def strict_sorted_iff)

lemma om_find_Nil [simp]: "om_find [] k = None"
  by (simp add: om_find_def)

lemma om_find_Cons [simp]: "om_find ((a, b) # m) k = (if a = k then Some b else om_find m k)"
  by (simp add: om_find_def)

lemma om_find_None_iff: "om_find m k = None \<longleftrightarrow> k \<notin> fst ` set m"
  by (simp add: om_find_def map_of_eq_None_iff)

lemma om_find_in_set: "om_find m k = Some v \<Longrightarrow> (k, v) \<in> set m"
  by (auto simp: om_find_def dest: map_of_SomeD)

lemma om_find_iff: "om_ok m \<Longrightarrow> om_find m k = Some v \<longleftrightarrow> (k, v) \<in> set m"
  by (simp add: om_find_def om_ok_distinct)

lemma keys_om_set: "fst ` set (om_set k v m) = insert k (fst ` set m)"
  by (induction m rule: om_set.induct) auto

lemma om_ok_om_set [simp]: "om_ok m \<Longrightarrow> om_ok (om_set k v m)"
  by (induction k v m rule: om_set.induct) (auto simp: om_ok_Cons keys_om_set)

lemma om_find_below: "om_ok ((a, b) # m) \<Longrightarrow> k \<le> a \<Longrightarrow> om_find m k = None"
  by (auto simp: om_find_None_iff om_ok_Cons)

lemma om_find_om_set [simp]: "om_find (om_set k v m) j = (if j = k then Some v else om_find m j)"
  by (induction k v m rule: om_set.induct) auto

lemma keys_om_erase: "om_ok m \<Longrightarrow> fst ` set (om_erase k m) = fst ` set m - {k}"
  by (induction k m rule: om_erase.induct) (auto simp: om_ok_Cons)

lemma om_ok_om_erase [simp]: "om_ok m \<Longrightarrow> om_ok (om_erase k m)"
  by (induction k m rule: om_erase.induct) (auto simp: om_ok_Cons keys_om_erase)

lemma om_find_om_erase [simp]:
  "om_ok m \<Longrightarrow> om_find (om_erase k m) j = (if j = k then None else om_find m j)"
proof (induction k m rule: om_erase.induct)
  case (2 k a b m)
  then have "om_find m a = None" by (intro om_find_below) auto
  with 2 show ?case by (auto simp: om_ok_Cons)
qed simp

lemma om_insert_simps:
  "om_find m k = None \<Longrightarrow> om_insert k v m = (om_set k v m, True)"
  "om_find m k = Some w \<Longrightarrow> om_insert k v m = (m, False)"
  by (simp_all add: om_insert_def)

lemma om_ok_om_insert [simp]: "om_ok m \<Longrightarrow> om_ok (fst (om_insert k v m))"
  by (simp add: om_insert_def split: option.split)

lemma om_find_om_insert [simp]:
  "om_find (fst (om_insert k v m)) j =
     (if j = k then Some (case om_find m k of None \<Rightarrow> v | Some w \<Rightarrow> w) else om_find m j)"
  by (simp add: om_insert_def split: option.split)

text \<open>\<^verbatim>\<open>begin()\<close> is the smallest key.\<close>

lemma om_begin_least:
  assumes "om_ok ((a, b) # m)" "om_find ((a, b) # m) k = Some v"
  shows "a \<le> k"
  using assms by (auto simp: om_ok_Cons dest!: om_find_in_set split: if_splits intro: less_imp_le)

lemma om_ok_eqI: "om_ok m \<Longrightarrow> om_ok n \<Longrightarrow> om_find m = om_find n \<Longrightarrow> m = n"
proof (induction m arbitrary: n)
  case Nil
  then show ?case
    by (metis neq_Nil_conv om_find_Cons om_find_Nil option.distinct(1) surj_pair)
next
  case (Cons p m)
  obtain a b where p: "p = (a, b)" by force
  have "n \<noteq> []" using Cons.prems(3) p by (auto dest!: fun_cong [of _ _ a])
  then obtain c d n' where n: "n = (c, d) # n'" by (cases n) auto
  have f: "om_find ((a, b) # m) j = om_find ((c, d) # n') j" for j
    using Cons.prems(3) unfolding p n by (rule fun_cong)
  have "a = c"
    using om_begin_least [of a b m c d] om_begin_least [of c d n' a b] Cons.prems(1,2) p n f
    by (metis om_find_Cons order_antisym)
  moreover have "b = d" using f [of a] \<open>a = c\<close> by simp
  moreover have "om_find m = om_find n'"
  proof
    fix j
    show "om_find m j = om_find n' j"
      using f [of j] \<open>a = c\<close> om_find_below [of a b m j] om_find_below [of c d n' j] Cons.prems(1,2) p n
      by (cases "j = a") auto
  qed
  ultimately show ?case using Cons.IH [of n'] Cons.prems(1,2) p n by (simp add: om_ok_Cons)
qed

lemma om_lower_bound_filter:
  "om_ok m \<Longrightarrow> om_lower_bound k m = filter (\<lambda>(a, b). k \<le> a) m"
proof (induction m)
  case (Cons p m)
  obtain a b where p: "p = (a, b)" by force
  show ?case
  proof (cases "a < k")
    case True
    with Cons p show ?thesis by (simp add: om_lower_bound_def om_ok_Cons)
  next
    case False
    with Cons.prems p have "filter (\<lambda>(a, b). k \<le> a) m = m"
      by (auto simp: om_ok_Cons filter_id_conv dest!: bspec)
    with False p show ?thesis by (simp add: om_lower_bound_def)
  qed
qed (simp add: om_lower_bound_def)

lemma om_ok_filter: "om_ok m \<Longrightarrow> om_ok (filter P m)"
  by (induction m) (auto simp: om_ok_Cons)

lemma om_ok_take: "om_ok m \<Longrightarrow> om_ok (take n m)"
  unfolding om_ok_def by (simp add: sorted_wrt_take flip: take_map)

lemma om_ok_lower_bound: "om_ok m \<Longrightarrow> om_ok (om_lower_bound k m)"
  by (simp add: om_lower_bound_filter om_ok_filter)

lemma om_find_filter_key:
  "om_find (filter (\<lambda>(a, b). P a) m) k = (if P k then om_find m k else None)"
  by (induction m) auto

lemma om_find_lower_bound:
  "om_ok m \<Longrightarrow> om_find (om_lower_bound k m) j = (if k \<le> j then om_find m j else None)"
  by (simp add: om_lower_bound_filter om_find_filter_key)

section \<open>The interface of an ordered dictionary\<close>

locale ordered_dict =
  fixes lookup :: "'m \<Rightarrow> 'k::linorder \<Rightarrow> 'v option"
    and upd :: "'k \<Rightarrow> 'v \<Rightarrow> 'm \<Rightarrow> 'm"
    and del :: "'k \<Rightarrow> 'm \<Rightarrow> 'm"
    and entries :: "'m \<Rightarrow> ('k \<times> 'v) list"
    and inv :: "'m \<Rightarrow> bool"
  assumes lookup_upd: "inv m \<Longrightarrow> lookup (upd k v m) = (lookup m)(k \<mapsto> v)"
    and lookup_del: "inv m \<Longrightarrow> lookup (del k m) = (lookup m)(k := None)"
    and inv_upd: "inv m \<Longrightarrow> inv (upd k v m)"
    and inv_del: "inv m \<Longrightarrow> inv (del k m)"
    and entries_sorted: "inv m \<Longrightarrow> sorted_wrt (<) (map fst (entries m))"
    and entries_lookup: "inv m \<Longrightarrow> map_of (entries m) = lookup m"
begin

lemma keys_dom: "inv m \<Longrightarrow> fst ` set (entries m) = dom (lookup m)"
  using entries_lookup [of m] by (metis dom_map_of_conv_image_fst)

lemma size_dom: "inv m \<Longrightarrow> length (entries m) = card (dom (lookup m))"
  using entries_sorted [of m] keys_dom [of m]
  by (metis distinct_card length_map list.set_map strict_sorted_iff)

lemma finite_dom: "inv m \<Longrightarrow> finite (dom (lookup m))"
  using keys_dom [of m] by (metis finite_imageI finite_set)

lemma size_upd:
  "inv m \<Longrightarrow> length (entries (upd k v m)) =
     (if lookup m k = None then Suc (length (entries m)) else length (entries m))"
  by (auto simp: size_dom inv_upd lookup_upd finite_dom card_insert_if insert_absorb domIff)

lemma size_del:
  "inv m \<Longrightarrow> length (entries (del k m)) =
     (if lookup m k = None then length (entries m) else length (entries m) - 1)"
  by (auto simp: size_dom inv_del lookup_del finite_dom domIff)

text \<open>The first entry of a non-empty dictionary holds its least key.\<close>

lemma first_least:
  assumes "inv m" "entries m = (a, b) # es"
  shows "lookup m a = Some b" and "lookup m k \<noteq> None \<Longrightarrow> a \<le> k"
proof -
  show "lookup m a = Some b"
    using assms entries_lookup [of m] by (metis map_of_Cons_code(2))
  have "sorted_wrt (<) (a # map fst es)"
    using assms entries_sorted [of m] by simp
  moreover assume "lookup m k \<noteq> None"
  then have "k \<in> fst ` set (entries m)" using keys_dom assms(1) by blast
  ultimately show "a \<le> k" using assms(2) by auto
qed

end

interpretation om: ordered_dict om_find om_set om_erase "\<lambda>m. m" om_ok
proof unfold_locales
  fix m :: "('a::linorder \<times> 'b) list" and k v
  assume m: "om_ok m"
  show "om_find (om_set k v m) = (om_find m)(k \<mapsto> v)" by (simp add: fun_eq_iff)
  show "om_find (om_erase k m) = (om_find m)(k := None)" using m by (simp add: fun_eq_iff)
  show "om_ok (om_set k v m)" "om_ok (om_erase k m)" using m by simp_all
  show "sorted_wrt (<) (map fst m)" using m by (simp add: om_ok_def)
  show "map_of m = om_find m" by (simp add: fun_eq_iff om_find_def)
qed

end
