(* ===== verification/Ring_Buffer.thy ===== *)
theory Ring_Buffer
  imports Packet_Scan Ordered_Map
begin

text \<open>
  The ring buffer of packets that arrive while a server assembles a large one
  (src/common/pkt_ring_buffer.h, src/common/pkt_ring_buffer.c). Its parallel vectors are parallel lists,
  \<^verbatim>\<open>head\<close> is where the next packet goes, \<^verbatim>\<open>tail\<close> where the oldest one is. The abstraction
  \<^verbatim>\<open>rb_contents\<close> lists the waiting packets in order; the operations refine a bounded queue, which is the locale
  \<^verbatim>\<open>bounded_fifo\<close>, interpreted on them.
\<close>

section \<open>The operations\<close>

record sockaddr_in =
  sin_family :: u16
  sin_port :: u16
  sin_addr :: u32

record pkt_ring_buffer =
  valid_list :: "bool list"
  optype_list :: "optype list"
  key_list :: "net_key list"
  dynamicbuf_list :: "dyn_array list"
  curfragnum_list :: "u16 list"
  maxfragnum_list :: "u16 list"
  clientaddr_list :: "sockaddr_in list"
  clientaddrlen_list :: "u32 list"
  clientlogicalidx_list :: "u16 list"
  fragseq_list :: "u32 list"
  clientlogicalidx_bufidx_map :: "(u16, u32) omap"
  rb_head :: u32
  rb_tail :: u32
  rb_capacity :: u32

text \<open>What \<^verbatim>\<open>pop\<close> stores through its reference parameters, apart from the packet itself.\<close>

record pkt_info =
  pi_optype :: optype
  pi_key :: net_key
  pi_curfragnum :: u16
  pi_maxfragnum :: u16
  pi_clientaddr :: sockaddr_in
  pi_clientaddrlen :: u32
  pi_clientlogicalidx :: u16
  pi_fragseq :: u32

text \<open>\<^verbatim>\<open>vector::resize(n, v)\<close> keeps the elements that are there.\<close>

definition resize :: "'a list \<Rightarrow> nat \<Rightarrow> 'a \<Rightarrow> 'a list" where
  "resize xs n v = take n xs @ replicate (n - length xs) v"

fun init_bufs :: "dyn_array list \<Rightarrow> dyn_array list res" where
  "init_bufs [] = Inr []"
| "init_bufs (d # ds) = bind_res (da_init d 40960 8388608) (\<lambda>d'. bind_res (init_bufs ds) (\<lambda>ds'. Inr (d' # ds')))"

definition sockaddr_zero :: sockaddr_in where
  "sockaddr_zero = \<lparr>sin_family = 0, sin_port = 0, sin_addr = 0\<rparr>"

definition rb_init :: "u32 \<Rightarrow> pkt_ring_buffer \<Rightarrow> pkt_ring_buffer res" where
  "rb_init tmpcapacity r =
     (let n = unat tmpcapacity in
      bind_res (init_bufs (resize (dynamicbuf_list r) n da_default)) (\<lambda>bufs.
      Inr (r\<lparr>valid_list := resize (valid_list r) n False, optype_list := resize (optype_list r) n 0,
        key_list := resize (key_list r) n key_default, dynamicbuf_list := bufs,
        curfragnum_list := resize (curfragnum_list r) n 0, maxfragnum_list := resize (maxfragnum_list r) n 0,
        clientaddr_list := resize (clientaddr_list r) n sockaddr_zero,
        clientaddrlen_list := resize (clientaddrlen_list r) n 16,
        clientlogicalidx_list := resize (clientlogicalidx_list r) n 0, fragseq_list := resize (fragseq_list r) n 0,
        rb_head := 0, rb_tail := 0, rb_capacity := tmpcapacity\<rparr>)))"

text \<open>The constructor: empty vectors and an empty map, then \<^verbatim>\<open>init\<close>. The old head, tail and capacity are
  whatever was in the memory.\<close>

definition PktRingBuffer_new :: "u32 \<Rightarrow> u32 \<Rightarrow> pkt_ring_buffer res" where
  "PktRingBuffer_new junk tmpcapacity = rb_init tmpcapacity
     \<lparr>valid_list = [], optype_list = [], key_list = [], dynamicbuf_list = [], curfragnum_list = [], maxfragnum_list = [],
      clientaddr_list = [], clientaddrlen_list = [], clientlogicalidx_list = [], fragseq_list = [],
      clientlogicalidx_bufidx_map = [], rb_head = junk, rb_tail = junk, rb_capacity = junk\<rparr>"

text \<open>Indexing a vector outside its size, and a remainder by zero, are undefined.\<close>

definition in_vectors :: "u32 \<Rightarrow> pkt_ring_buffer \<Rightarrow> bool" where
  "in_vectors i r \<longleftrightarrow> unat i < length (valid_list r) \<and> unat i < length (optype_list r) \<and> unat i < length (key_list r) \<and>
     unat i < length (dynamicbuf_list r) \<and> unat i < length (curfragnum_list r) \<and> unat i < length (maxfragnum_list r) \<and>
     unat i < length (clientaddr_list r) \<and> unat i < length (clientaddrlen_list r) \<and>
     unat i < length (clientlogicalidx_list r) \<and> unat i < length (fragseq_list r)"

definition next_idx :: "u32 \<Rightarrow> pkt_ring_buffer \<Rightarrow> u32 res" where
  "next_idx i r = (if rb_capacity r = 0 then Inl Undefined else Inr ((i + 1) mod rb_capacity r))"

text \<open>The assignments to the slot \<^verbatim>\<open>head\<close>, shared by \<^verbatim>\<open>push\<close> and \<^verbatim>\<open>push_large\<close>.\<close>

definition set_slot :: "u32 \<Rightarrow> pkt_info \<Rightarrow> dyn_array \<Rightarrow> pkt_ring_buffer \<Rightarrow> pkt_ring_buffer" where
  "set_slot i x d r = r\<lparr>valid_list := (valid_list r)[unat i := True],
     optype_list := (optype_list r)[unat i := pi_optype x], key_list := (key_list r)[unat i := pi_key x],
     dynamicbuf_list := (dynamicbuf_list r)[unat i := d],
     curfragnum_list := (curfragnum_list r)[unat i := pi_curfragnum x],
     maxfragnum_list := (maxfragnum_list r)[unat i := pi_maxfragnum x],
     clientaddr_list := (clientaddr_list r)[unat i := pi_clientaddr x],
     clientaddrlen_list := (clientaddrlen_list r)[unat i := pi_clientaddrlen x],
     clientlogicalidx_list := (clientlogicalidx_list r)[unat i := pi_clientlogicalidx x],
     fragseq_list := (fragseq_list r)[unat i := pi_fragseq x]\<rparr>"

text \<open>A null buffer is \<^verbatim>\<open>None\<close>. Where a \<^verbatim>\<open>uint32_t\<close> offset is passed as an \<^verbatim>\<open>int\<close> it is
  reinterpreted.\<close>

definition rb_push :: "optype \<Rightarrow> net_key \<Rightarrow> byte list option \<Rightarrow> sockaddr_in \<Rightarrow> u32 \<Rightarrow> pkt_ring_buffer \<Rightarrow> (bool \<times> pkt_ring_buffer) res" where
  "rb_push optype key buf clientaddr clientaddrlen r = (case buf of
      None \<Rightarrow> Inl Abort
    | Some bs \<Rightarrow>
      bind_res (next_idx (rb_head r) r) (\<lambda>next.
      if next = rb_tail r then Inr (False, r)
      else bind_res (ensure_defined (in_vectors (rb_head r) r)) (\<lambda>_.
        bind_res (da_clear (dynamicbuf_list r ! unat (rb_head r))) (\<lambda>d.
        bind_res (dynamic_memcpy d 0 bs) (\<lambda>d'.
        Inr (True, (set_slot (rb_head r) \<lparr>pi_optype = optype, pi_key = key, pi_curfragnum = 0, pi_maxfragnum = 0,
          pi_clientaddr = clientaddr, pi_clientaddrlen = clientaddrlen, pi_clientlogicalidx = 0, pi_fragseq = 0\<rparr> d' r)
            \<lparr>rb_head := next\<rparr>))))))"

definition is_clientlogicalidx_exist :: "u16 \<Rightarrow> pkt_ring_buffer \<Rightarrow> bool res" where
  "is_clientlogicalidx_exist clientlogicalidx r = (case om_find (clientlogicalidx_bufidx_map r) clientlogicalidx of
      None \<Rightarrow> Inr False
    | Some bufidx \<Rightarrow>
      bind_res (ensure_defined (in_vectors bufidx r)) (\<lambda>_.
      bind_res (invariant (valid_list r ! unat bufidx)) (\<lambda>_.
      bind_res (invariant (0 < maxfragnum_list r ! unat bufidx)) (\<lambda>_. Inr True))))"

definition push_large :: "optype \<Rightarrow> net_key \<Rightarrow> byte list option \<Rightarrow> u32 \<Rightarrow> byte list option \<Rightarrow> u16 \<Rightarrow> u16 \<Rightarrow> sockaddr_in \<Rightarrow> u32 \<Rightarrow> u16 \<Rightarrow> u32 \<Rightarrow>
    pkt_ring_buffer \<Rightarrow> (bool \<times> pkt_ring_buffer) res" where
  "push_large optype key fraghdr_buf fragbody_off fragbody_buf curfragnum maxfragnum clientaddr clientaddrlen clientlogicalidx fragseq r =
     (case (fraghdr_buf, fragbody_buf) of
        (Some hdr, Some body) \<Rightarrow>
          bind_res (invariant (0 < maxfragnum)) (\<lambda>_.
          bind_res (next_idx (rb_head r) r) (\<lambda>next.
          if next = rb_tail r then Inr (False, r)
          else bind_res (ensure_defined (in_vectors (rb_head r) r)) (\<lambda>_.
            bind_res (da_clear (dynamicbuf_list r ! unat (rb_head r))) (\<lambda>d.
            bind_res (dynamic_memcpy d 0 hdr) (\<lambda>d'.
            bind_res (dynamic_memcpy d' (sint fragbody_off) body) (\<lambda>d''.
            let r' = set_slot (rb_head r) \<lparr>pi_optype = optype, pi_key = key, pi_curfragnum = curfragnum, pi_maxfragnum = maxfragnum,
              pi_clientaddr = clientaddr, pi_clientaddrlen = clientaddrlen, pi_clientlogicalidx = clientlogicalidx,
              pi_fragseq = fragseq\<rparr> d'' r in
            bind_res (invariant (om_find (clientlogicalidx_bufidx_map r') clientlogicalidx = None)) (\<lambda>_.
            Inr (True, r'\<lparr>clientlogicalidx_bufidx_map := fst (om_insert clientlogicalidx (rb_head r') (clientlogicalidx_bufidx_map r')),
              rb_head := next\<rparr>))))))))
      | _ \<Rightarrow> Inl Abort)"

definition update_large :: "optype \<Rightarrow> net_key \<Rightarrow> byte list option \<Rightarrow> u32 \<Rightarrow> byte list option \<Rightarrow> u32 \<Rightarrow> u16 \<Rightarrow> u32 \<Rightarrow> bool \<Rightarrow>
    pkt_ring_buffer \<Rightarrow> pkt_ring_buffer res" where
  "update_large optype key fraghdr_buf fragbody_off fragbody_buf clientaddrlen clientlogicalidx fragseq is_frag0 r =
     (case (fraghdr_buf, fragbody_buf) of
        (Some hdr, Some body) \<Rightarrow>
          (case om_find (clientlogicalidx_bufidx_map r) clientlogicalidx of
             None \<Rightarrow> Inl Abort
           | Some bufidx \<Rightarrow>
               let i = unat bufidx in
               bind_res (ensure_defined (in_vectors bufidx r)) (\<lambda>_.
               bind_res (invariant (valid_list r ! i)) (\<lambda>_.
               bind_res (invariant (is_same_optype (optype_list r ! i) optype)) (\<lambda>_.
               bind_res (invariant (key_eq (key_list r ! i) key)) (\<lambda>_.
               bind_res (dynamic_memcpy (dynamicbuf_list r ! i) (sint fragbody_off) body) (\<lambda>d.
               let cur = curfragnum_list r ! i + 1 in
               bind_res (invariant (0 < maxfragnum_list r ! i)) (\<lambda>_.
               bind_res (invariant (clientaddrlen_list r ! i = clientaddrlen)) (\<lambda>_.
               bind_res (invariant (clientlogicalidx_list r ! i = clientlogicalidx)) (\<lambda>_.
               bind_res (invariant (fragseq_list r ! i \<le> fragseq)) (\<lambda>_.
               let newer = fragseq_list r ! i < fragseq;
                   cur' = (if newer then 1 else cur);
                   seq' = (if newer then fragseq else fragseq_list r ! i) in
               bind_res (if cur' = 1 \<or> is_frag0 then dynamic_memcpy d 0 hdr else Inr d) (\<lambda>d'.
               Inr (r\<lparr>dynamicbuf_list := (dynamicbuf_list r)[i := d'], curfragnum_list := (curfragnum_list r)[i := cur'],
                 fragseq_list := (fragseq_list r)[i := seq']\<rparr>))))))))))))
      | _ \<Rightarrow> Inl Abort)"

text \<open>The bytes \<^verbatim>\<open>array()[0..size())\<close> of a dynamic array.\<close>

definition da_content :: "dyn_array \<Rightarrow> byte list res" where
  "da_content d = (case da_array d of
      None \<Rightarrow> if da_size d = 0 then Inr [] else Inl Undefined
    | Some a \<Rightarrow> if 0 \<le> da_size d \<and> nat (da_size d) \<le> length a then Inr (take (nat (da_size d)) a) else Inl Undefined)"

definition slot_info :: "pkt_ring_buffer \<Rightarrow> nat \<Rightarrow> pkt_info" where
  "slot_info r i = \<lparr>pi_optype = optype_list r ! i, pi_key = key_list r ! i, pi_curfragnum = curfragnum_list r ! i,
     pi_maxfragnum = maxfragnum_list r ! i, pi_clientaddr = clientaddr_list r ! i, pi_clientaddrlen = clientaddrlen_list r ! i,
     pi_clientlogicalidx = clientlogicalidx_list r ! i, pi_fragseq = fragseq_list r ! i\<rparr>"

definition rb_pop :: "dyn_array \<Rightarrow> pkt_ring_buffer \<Rightarrow> (pkt_info option \<times> dyn_array \<times> pkt_ring_buffer) res" where
  "rb_pop dynamicbuf r =
     (if rb_tail r = rb_head r then Inr (None, dynamicbuf, r)
      else let i = unat (rb_tail r); x = slot_info r i in
        bind_res (ensure_defined (in_vectors (rb_tail r) r)) (\<lambda>_.
        bind_res (invariant (valid_list r ! i)) (\<lambda>_.
        bind_res (da_clear dynamicbuf) (\<lambda>out.
        bind_res (da_content (dynamicbuf_list r ! i)) (\<lambda>bs.
        bind_res (dynamic_memcpy out 0 bs) (\<lambda>out'.
        bind_res (da_clear (dynamicbuf_list r ! i)) (\<lambda>d.
        bind_res (next_idx (rb_tail r) r) (\<lambda>next.
        Inr (Some x, out', r\<lparr>valid_list := (valid_list r)[i := False], optype_list := (optype_list r)[i := 0],
          key_list := (key_list r)[i := key_default], dynamicbuf_list := (dynamicbuf_list r)[i := d],
          curfragnum_list := (curfragnum_list r)[i := 0], maxfragnum_list := (maxfragnum_list r)[i := 0],
          clientaddrlen_list := (clientaddrlen_list r)[i := 0], clientlogicalidx_list := (clientlogicalidx_list r)[i := 0],
          fragseq_list := (fragseq_list r)[i := 0],
          clientlogicalidx_bufidx_map :=
            (if 0 < pi_maxfragnum x then om_erase (pi_clientlogicalidx x) (clientlogicalidx_bufidx_map r)
             else clientlogicalidx_bufidx_map r),
          rb_tail := next\<rparr>)))))))))"

section \<open>The slots in use\<close>

definition ring :: "nat \<Rightarrow> nat \<Rightarrow> nat \<Rightarrow> nat list" where
  "ring t h cap = map (\<lambda>j. (t + j) mod cap) [0..<(h + cap - t) mod cap]"

lemma mod_small2: "x < 2 * c \<Longrightarrow> x mod c = (if x < c then x else x - c)" for x c :: nat
  by (auto simp: le_mod_geq)

lemma ring_count: "t < cap \<Longrightarrow> h < cap \<Longrightarrow> (h + cap - t) mod cap = (if t \<le> h then h - t else h + cap - t)" for t h cap :: nat
  using mod_small2 [of "h + cap - t" cap] by auto

lemma ring_last: "t < cap \<Longrightarrow> h < cap \<Longrightarrow> (t + (h + cap - t) mod cap) mod cap = h" for t h cap :: nat
  using mod_small2 [of "h + cap" cap] by (auto simp: ring_count)

lemma ring_lt: "0 < cap \<Longrightarrow> i \<in> set (ring t h cap) \<Longrightarrow> i < cap"
  by (auto simp: ring_def)

lemma mod_inj:
  assumes "t < c" "i < c" "j < c" "(t + i) mod c = (t + j) mod c"
  shows "i = (j :: nat)"
  using assms mod_small2 [of "t + i" c] mod_small2 [of "t + j" c] by (simp split: if_splits)

lemma ring_distinct:
  assumes "t < cap"
  shows "distinct (ring t h cap)"
proof -
  have "i = j" if "i < (h + cap - t) mod cap" "j < (h + cap - t) mod cap" "(t + i) mod cap = (t + j) mod cap" for i j
    using assms that mod_less_divisor [of cap "h + cap - t"] by (intro mod_inj [of t cap i j]) linarith+
  then show ?thesis by (auto simp: ring_def distinct_map inj_on_def)
qed

lemma ring_fresh:
  assumes "t < cap" "h < cap"
  shows "h \<notin> set (ring t h cap)"
proof
  assume h: "h \<in> set (ring t h cap)"
  define c where "c = (h + cap - t) mod cap"
  obtain j where j: "j < c" "(t + j) mod cap = h" using h by (auto simp: ring_def c_def)
  have "c < cap" using assms(1) by (simp add: c_def)
  moreover have "(t + c) mod cap = h" using ring_last [OF assms] by (simp add: c_def)
  ultimately show False using j mod_inj [of t cap j c] assms(1) by simp
qed

lemma ring_length: "length (ring t h cap) = (h + cap - t) mod cap"
  by (simp add: ring_def)

lemma ring_full: "t < cap \<Longrightarrow> h < cap \<Longrightarrow> (h + 1) mod cap = t \<longleftrightarrow> length (ring t h cap) = cap - 1"
  using mod_small2 [of "h + 1" cap] by (auto simp: ring_length ring_count)

lemma ring_empty: "t < cap \<Longrightarrow> h < cap \<Longrightarrow> ring t h cap = [] \<longleftrightarrow> t = h"
  by (simp add: ring_def ring_count) linarith

lemma ring_snoc:
  assumes "t < cap" "h < cap" "(h + 1) mod cap \<noteq> t"
  shows "ring t ((h + 1) mod cap) cap = ring t h cap @ [h]"
proof -
  have "((h + 1) mod cap + cap - t) mod cap = Suc ((h + cap - t) mod cap)"
    using assms mod_small2 [of "h + 1" cap] by (auto simp: ring_count split: if_splits)
  then show ?thesis using ring_last [OF assms(1,2)] by (simp add: ring_def)
qed

lemma ring_cons:
  assumes "t < cap" "h < cap" "t \<noteq> h"
  shows "ring t h cap = t # ring ((t + 1) mod cap) h cap"
proof -
  have c: "(h + cap - t) mod cap = Suc ((h + cap - (t + 1) mod cap) mod cap)"
    using assms mod_small2 [of "t + 1" cap] by (auto simp: ring_count split: if_splits)
  have "map (\<lambda>j. (t + j) mod cap) [1..<Suc n] = map (\<lambda>j. ((t + 1) mod cap + j) mod cap) [0..<n]" for n
    by (rule nth_equalityI) (auto simp: mod_add_left_eq simp del: upt_Suc)
  then show ?thesis using assms(1) by (simp add: ring_def c upt_conv_Cons del: upt_Suc)
qed

section \<open>The invariant and the waiting packets\<close>

definition rb_ring :: "pkt_ring_buffer \<Rightarrow> nat list" where
  "rb_ring r = ring (unat (rb_tail r)) (unat (rb_head r)) (unat (rb_capacity r))"

definition rb_contents :: "pkt_ring_buffer \<Rightarrow> (pkt_info \<times> byte list) list" where
  "rb_contents r = map (\<lambda>i. (slot_info r i, da_bytes (dynamicbuf_list r ! i))) (rb_ring r)"

definition rb_sizes :: "pkt_ring_buffer \<Rightarrow> bool" where
  "rb_sizes r \<longleftrightarrow> (let n = unat (rb_capacity r) in
     unat (rb_head r) < n \<and> unat (rb_tail r) < n \<and> length (valid_list r) = n \<and> length (optype_list r) = n \<and>
     length (key_list r) = n \<and> length (dynamicbuf_list r) = n \<and> length (curfragnum_list r) = n \<and>
     length (maxfragnum_list r) = n \<and> length (clientaddr_list r) = n \<and> length (clientaddrlen_list r) = n \<and>
     length (clientlogicalidx_list r) = n \<and> length (fragseq_list r) = n)"

text \<open>A dynamic array of a slot.\<close>

definition buf_ok :: "dyn_array \<Rightarrow> bool" where
  "buf_ok d \<longleftrightarrow> da_ok d \<and> da_maxcapability d = 8388608"

text \<open>The waiting slots are valid, and the map sends a client to the slot of its large packet.\<close>

definition rb_ok :: "pkt_ring_buffer \<Rightarrow> bool" where
  "rb_ok r \<longleftrightarrow> rb_sizes r \<and> (\<forall>d \<in> set (dynamicbuf_list r). buf_ok d) \<and> (\<forall>i \<in> set (rb_ring r). valid_list r ! i) \<and>
     om_ok (clientlogicalidx_bufidx_map r) \<and>
     (\<forall>c i. om_find (clientlogicalidx_bufidx_map r) c = Some i \<longleftrightarrow>
        unat i \<in> set (rb_ring r) \<and> 0 < maxfragnum_list r ! unat i \<and> clientlogicalidx_list r ! unat i = c)"

lemma rb_sizesD:
  assumes "rb_sizes r"
  shows "in_vectors (rb_head r) r" "in_vectors (rb_tail r) r" "unat (rb_head r) < unat (rb_capacity r)"
    "unat (rb_tail r) < unat (rb_capacity r)" "rb_capacity r \<noteq> 0"
  using assms by (auto simp: rb_sizes_def in_vectors_def Let_def)

lemma next_idx_nat:
  assumes "rb_sizes r" "unat i < unat (rb_capacity r)"
  obtains j where "next_idx i r = Inr j" "unat j = (unat i + 1) mod unat (rb_capacity r)"
proof -
  have "unat (i + 1) = unat i + 1"
    using assms(2) unat_u32 [of "rb_capacity r"] by (subst unat_plus_simple [THEN iffD1]) (auto simp: word_le_nat_alt unat_word_ariths)
  then show thesis using rb_sizesD(5) [OF assms(1)] that by (simp add: next_idx_def unat_mod_distrib)
qed

lemma set_slot_simps [simp]:
  "rb_head (set_slot i x d r) = rb_head r" "rb_tail (set_slot i x d r) = rb_tail r"
  "rb_capacity (set_slot i x d r) = rb_capacity r"
  "clientlogicalidx_bufidx_map (set_slot i x d r) = clientlogicalidx_bufidx_map r"
  by (simp_all add: set_slot_def)

lemma rb_ring_cong:
  "rb_head r' = rb_head r \<Longrightarrow> rb_tail r' = rb_tail r \<Longrightarrow> rb_capacity r' = rb_capacity r \<Longrightarrow> rb_ring r' = rb_ring r"
  by (simp add: rb_ring_def)

lemma rb_okD:
  assumes "rb_ok r"
  shows "rb_sizes r" "d \<in> set (dynamicbuf_list r) \<Longrightarrow> buf_ok d" "i \<in> set (rb_ring r) \<Longrightarrow> valid_list r ! i"
    "om_ok (clientlogicalidx_bufidx_map r)"
    "om_find (clientlogicalidx_bufidx_map r) c = Some k \<longleftrightarrow>
       unat k \<in> set (rb_ring r) \<and> 0 < maxfragnum_list r ! unat k \<and> clientlogicalidx_list r ! unat k = c"
  using assms unfolding rb_ok_def by blast+

lemma rb_ring_lt: "rb_sizes r \<Longrightarrow> i \<in> set (rb_ring r) \<Longrightarrow> i < unat (rb_capacity r)"
  using rb_sizesD(4) [of r] ring_lt [of "unat (rb_capacity r)" i] by (simp add: rb_ring_def)

lemma rb_ring_fresh: "rb_sizes r \<Longrightarrow> unat (rb_head r) \<notin> set (rb_ring r)"
  unfolding rb_ring_def using rb_sizesD(3,4) [of r] by (intro ring_fresh)

text \<open>Filling the slot at the head and moving the head appends a packet.\<close>

lemma push_slot:
  assumes ok: "rb_ok r" and nxt: "next_idx (rb_head r) r = Inr nxt" "nxt \<noteq> rb_tail r" and d: "buf_ok d"
    and m: "om_ok m" "\<And>c i. om_find m c = Some i \<longleftrightarrow> om_find (clientlogicalidx_bufidx_map r) c = Some i \<or>
      i = rb_head r \<and> 0 < pi_maxfragnum x \<and> pi_clientlogicalidx x = c"
  defines "r' \<equiv> (set_slot (rb_head r) x d r)\<lparr>clientlogicalidx_bufidx_map := m, rb_head := nxt\<rparr>"
  shows "rb_ok r'" "rb_contents r' = rb_contents r @ [(x, da_bytes d)]"
proof -
  note sz = rb_okD(1) [OF ok] and szs = rb_sizesD [OF rb_okD(1) [OF ok]]
  let ?h = "unat (rb_head r)"
  have nn: "unat nxt = (?h + 1) mod unat (rb_capacity r)" using next_idx_nat [OF sz szs(3)] nxt(1) by auto
  have ne: "(?h + 1) mod unat (rb_capacity r) \<noteq> unat (rb_tail r)" using nxt(2) nn by (metis word_unat_eq_iff)
  have ring: "rb_ring r' = rb_ring r @ [?h]"
    using ring_snoc [OF szs(4,3) ne] by (simp add: rb_ring_def r'_def nn)
  have "rb_sizes r'" using sz nn szs(4) by (simp add: rb_sizes_def r'_def set_slot_def Let_def)
  moreover have h: "valid_list r' ! ?h" "slot_info r' ?h = x" "dynamicbuf_list r' ! ?h = d"
    using szs(1) by (simp_all add: r'_def set_slot_def slot_info_def in_vectors_def)
  moreover have other: "valid_list r' ! i = valid_list r ! i" "slot_info r' i = slot_info r i" "dynamicbuf_list r' ! i = dynamicbuf_list r ! i"
    if "i \<in> set (rb_ring r)" for i
  proof -
    have "?h \<noteq> i" using that rb_ring_fresh [OF sz] by blast
    then show "valid_list r' ! i = valid_list r ! i" "slot_info r' i = slot_info r i" "dynamicbuf_list r' ! i = dynamicbuf_list r ! i"
      by (simp_all add: r'_def set_slot_def slot_info_def)
  qed
  moreover have "\<forall>d' \<in> set (dynamicbuf_list r'). buf_ok d'"
    using d rb_okD(2) [OF ok] by (auto simp: r'_def set_slot_def dest: set_update_subset_insert [THEN subsetD])
  moreover have "om_find m c = Some i \<longleftrightarrow> unat i \<in> set (rb_ring r') \<and> 0 < maxfragnum_list r' ! unat i \<and> clientlogicalidx_list r' ! unat i = c"
    for c i
  proof -
    have eq: "maxfragnum_list r' ! unat i = pi_maxfragnum (slot_info r' (unat i))" "clientlogicalidx_list r' ! unat i = pi_clientlogicalidx (slot_info r' (unat i))"
      "maxfragnum_list r ! unat i = pi_maxfragnum (slot_info r (unat i))" "clientlogicalidx_list r ! unat i = pi_clientlogicalidx (slot_info r (unat i))"
      by (simp_all add: slot_info_def)
    show ?thesis
    proof (cases "i = rb_head r")
      case True
      then show ?thesis using m(2) [of c i] rb_okD(5) [OF ok, of c i] rb_ring_fresh [OF sz] ring h(2) unfolding eq by auto
    next
      case False
      then have "unat i \<noteq> ?h" by (metis word_unat_eq_iff)
      then show ?thesis using False m(2) [of c i] rb_okD(5) [OF ok, of c i] ring other(2) unfolding eq by auto
    qed
  qed
  moreover have "\<forall>i \<in> set (rb_ring r'). valid_list r' ! i" using h(1) other(1) rb_okD(3) [OF ok] by (auto simp: ring)
  moreover have "clientlogicalidx_bufidx_map r' = m" by (simp add: r'_def)
  ultimately show "rb_ok r'" using m(1) unfolding rb_ok_def by metis
  show "rb_contents r' = rb_contents r @ [(x, da_bytes d)]"
    using other h by (simp add: rb_contents_def ring)
qed

lemma buf_clear: "buf_ok d \<Longrightarrow> \<exists>d'. da_clear d = Inr d' \<and> buf_ok d' \<and> da_bytes d' = []"
  using da_clear_ok [of d] by (auto simp: buf_ok_def)

lemma buf_memcpy:
  assumes "buf_ok d" "off + int (length bs) \<le> 8388608" "0 \<le> off"
  shows "\<exists>d'. dynamic_memcpy d off bs = Inr d' \<and> buf_ok d' \<and> da_bytes d' = patch (nat off) bs (da_bytes d)"
  using dynamic_memcpy_fits [of d off bs] assms by (auto simp: buf_ok_def)

lemma sint_small:
  assumes "unat (w :: u32) \<le> 8388608"
  shows "sint w = int (unat w)"
proof -
  have u: "uint w = int (unat w)" by (simp only: uint_nat)
  then have "uint w \<le> 8388608" using assms by linarith
  moreover have "- (2 ^ 31) \<le> uint w" using uint_ge_0 [of w] by (rule order_trans [rotated]) simp
  ultimately have "signed_take_bit 31 (uint w) = uint w" by (intro signed_take_bit_int_eq_self) simp_all
  then have "sint w = uint w" by (simp add: sint_uint)
  with u show ?thesis by (rule trans [rotated])
qed

lemma slot_buf_ok: "rb_ok r \<Longrightarrow> in_vectors i r \<Longrightarrow> buf_ok (dynamicbuf_list r ! unat i)"
  using rb_okD(2) by (auto simp: in_vectors_def)

text \<open>A full buffer refuses, otherwise the packet is appended.\<close>

lemma full_iff:
  assumes "rb_ok r"
  obtains nxt where "next_idx (rb_head r) r = Inr nxt" "nxt = rb_tail r \<longleftrightarrow> length (rb_contents r) = unat (rb_capacity r) - 1"
proof -
  note szs = rb_sizesD [OF rb_okD(1) [OF assms]]
  obtain nxt where nxt: "next_idx (rb_head r) r = Inr nxt" "unat nxt = (unat (rb_head r) + 1) mod unat (rb_capacity r)"
    using next_idx_nat [OF rb_okD(1) [OF assms] szs(3)] by metis
  have "nxt = rb_tail r \<longleftrightarrow> (unat (rb_head r) + 1) mod unat (rb_capacity r) = unat (rb_tail r)"
    unfolding nxt(2) [symmetric] by (simp add: word_unat_eq_iff)
  then show thesis using that [OF nxt(1)] ring_full [OF szs(4,3)] by (simp add: rb_contents_def rb_ring_def)
qed

lemma rb_push_spec:
  assumes "rb_ok r" "length bs \<le> 8388608"
  shows "\<exists>r'. rb_push optype key (Some bs) addr len r = Inr (length (rb_contents r) \<noteq> unat (rb_capacity r) - 1, r') \<and> rb_ok r' \<and>
    rb_capacity r' = rb_capacity r \<and>
    rb_contents r' = (if length (rb_contents r) = unat (rb_capacity r) - 1 then rb_contents r else rb_contents r @
      [(\<lparr>pi_optype = optype, pi_key = key, pi_curfragnum = 0, pi_maxfragnum = 0, pi_clientaddr = addr, pi_clientaddrlen = len,
         pi_clientlogicalidx = 0, pi_fragseq = 0\<rparr>, bs)])"
proof -
  note szs = rb_sizesD [OF rb_okD(1) [OF assms(1)]]
  obtain nxt where nxt: "next_idx (rb_head r) r = Inr nxt" "nxt = rb_tail r \<longleftrightarrow> length (rb_contents r) = unat (rb_capacity r) - 1"
    using full_iff [OF assms(1)] .
  show ?thesis
  proof (cases "nxt = rb_tail r")
    case True
    then show ?thesis using assms(1) nxt by (simp add: rb_push_def)
  next
    case False
    obtain d d' where d: "da_clear (dynamicbuf_list r ! unat (rb_head r)) = Inr d" "buf_ok d" "da_bytes d = []"
        "dynamic_memcpy d 0 bs = Inr d'" "buf_ok d'" "da_bytes d' = bs"
      using buf_clear [OF slot_buf_ok [OF assms(1) szs(1)]] buf_memcpy [of _ 0 bs] assms(2) by (fastforce simp: patch_append)
    let ?x = "\<lparr>pi_optype = optype, pi_key = key, pi_curfragnum = 0, pi_maxfragnum = 0, pi_clientaddr = addr, pi_clientaddrlen = len,
         pi_clientlogicalidx = 0, pi_fragseq = 0\<rparr>"
    have "rb_push optype key (Some bs) addr len r = Inr (True, (set_slot (rb_head r) ?x d' r)
        \<lparr>clientlogicalidx_bufidx_map := clientlogicalidx_bufidx_map r, rb_head := nxt\<rparr>)"
      using nxt(1) False szs(1) d by (simp add: rb_push_def set_slot_def)
    then show ?thesis
      using push_slot [OF assms(1) nxt(1) False d(5) rb_okD(4) [OF assms(1)], of ?x] d(6) False nxt(2) by auto
  qed
qed

text \<open>The clients with a large packet in the buffer.\<close>

definition rb_clients :: "pkt_ring_buffer \<Rightarrow> u16 set" where
  "rb_clients r = pi_clientlogicalidx ` {x \<in> fst ` set (rb_contents r). 0 < pi_maxfragnum x}"

lemma rb_clients_map:
  assumes "rb_ok r"
  shows "c \<in> rb_clients r \<longleftrightarrow> om_find (clientlogicalidx_bufidx_map r) c \<noteq> None"
proof
  assume "c \<in> rb_clients r"
  then obtain i where i: "i \<in> set (rb_ring r)" "0 < maxfragnum_list r ! i" "clientlogicalidx_list r ! i = c"
    by (auto simp: rb_clients_def rb_contents_def slot_info_def)
  have "i < 2 ^ 32" using rb_ring_lt [OF rb_okD(1) [OF assms] i(1)] unat_u32 [of "rb_capacity r"] by linarith
  then have "unat (of_nat i :: u32) = i" by (simp add: unat_of_nat)
  then show "om_find (clientlogicalidx_bufidx_map r) c \<noteq> None"
    using i rb_okD(5) [OF assms, of c "of_nat i"] by simp
next
  assume "om_find (clientlogicalidx_bufidx_map r) c \<noteq> None"
  then obtain i where "om_find (clientlogicalidx_bufidx_map r) c = Some i" by blast
  then have "unat i \<in> set (rb_ring r)" "0 < maxfragnum_list r ! unat i" "clientlogicalidx_list r ! unat i = c"
    using rb_okD(5) [OF assms, of c i] by auto
  then show "c \<in> rb_clients r" by (force simp: rb_clients_def rb_contents_def slot_info_def)
qed

lemma exist_spec: "rb_ok r \<Longrightarrow> is_clientlogicalidx_exist c r = Inr (c \<in> rb_clients r)"
proof -
  assume ok: "rb_ok r"
  show ?thesis
  proof (cases "om_find (clientlogicalidx_bufidx_map r) c")
    case None
    then show ?thesis using rb_clients_map [OF ok, of c] by (simp add: is_clientlogicalidx_exist_def)
  next
    case (Some i)
    then have i: "unat i \<in> set (rb_ring r)" "0 < maxfragnum_list r ! unat i" using rb_okD(5) [OF ok, of c i] by auto
    have "in_vectors i r" using rb_ring_lt [OF rb_okD(1) [OF ok] i(1)] rb_okD(1) [OF ok] by (simp add: in_vectors_def rb_sizes_def Let_def)
    then show ?thesis using Some i rb_okD(3) [OF ok i(1)] rb_clients_map [OF ok, of c] by (simp add: is_clientlogicalidx_exist_def)
  qed
qed

lemma push_large_spec:
  assumes "rb_ok r" "0 < pi_maxfragnum x" "pi_clientlogicalidx x \<notin> rb_clients r" "length hdr \<le> 8388608" "unat off + length body \<le> 8388608"
  shows "\<exists>r'. push_large (pi_optype x) (pi_key x) (Some hdr) off (Some body) (pi_curfragnum x) (pi_maxfragnum x) (pi_clientaddr x)
      (pi_clientaddrlen x) (pi_clientlogicalidx x) (pi_fragseq x) r = Inr (length (rb_contents r) \<noteq> unat (rb_capacity r) - 1, r') \<and>
    rb_ok r' \<and> rb_capacity r' = rb_capacity r \<and>
    rb_contents r' = (if length (rb_contents r) = unat (rb_capacity r) - 1 then rb_contents r
      else rb_contents r @ [(x, patch (unat off) body hdr)])"
proof -
  note szs = rb_sizesD [OF rb_okD(1) [OF assms(1)]]
  obtain nxt where nxt: "next_idx (rb_head r) r = Inr nxt" "nxt = rb_tail r \<longleftrightarrow> length (rb_contents r) = unat (rb_capacity r) - 1"
    using full_iff [OF assms(1)] .
  have none: "om_find (clientlogicalidx_bufidx_map r) (pi_clientlogicalidx x) = None" using assms(3) rb_clients_map [OF assms(1)] by simp
  show ?thesis
  proof (cases "nxt = rb_tail r")
    case True
    then show ?thesis using assms(1,2) nxt by (simp add: push_large_def)
  next
    case False
    obtain d where d: "da_clear (dynamicbuf_list r ! unat (rb_head r)) = Inr d" "buf_ok d" "da_bytes d = []"
      using buf_clear [OF slot_buf_ok [OF assms(1) szs(1)]] by blast
    obtain d' where d': "dynamic_memcpy d 0 hdr = Inr d'" "buf_ok d'" "da_bytes d' = hdr"
      using buf_memcpy [OF d(2), of 0 hdr] d(3) assms(4) by (auto simp: patch_append)
    obtain d'' where d'': "dynamic_memcpy d' (sint off) body = Inr d''" "buf_ok d''" "da_bytes d'' = patch (unat off) body hdr"
    proof -
      have "sint off = int (unat off)" using assms(5) by (intro sint_small) simp
      then have "0 \<le> sint off" "sint off + int (length body) \<le> 8388608" "nat (sint off) = unat off" using assms(5) by linarith+
      then show thesis using buf_memcpy [OF d'(2), of "sint off" body] d'(3) that by auto
    qed
    let ?m = "om_set (pi_clientlogicalidx x) (rb_head r) (clientlogicalidx_bufidx_map r)"
    have m: "om_ok ?m" "\<And>c i. om_find ?m c = Some i \<longleftrightarrow> om_find (clientlogicalidx_bufidx_map r) c = Some i \<or>
        i = rb_head r \<and> 0 < pi_maxfragnum x \<and> pi_clientlogicalidx x = c"
      using none rb_okD(4) [OF assms(1)] assms(2) by auto
    have "push_large (pi_optype x) (pi_key x) (Some hdr) off (Some body) (pi_curfragnum x) (pi_maxfragnum x) (pi_clientaddr x)
      (pi_clientaddrlen x) (pi_clientlogicalidx x) (pi_fragseq x) r =
        Inr (True, (set_slot (rb_head r) x d'' r)\<lparr>clientlogicalidx_bufidx_map := ?m, rb_head := nxt\<rparr>)"
      using nxt(1) False szs(1) d(1) d'(1) d''(1) assms(2) none by (simp add: push_large_def om_insert_simps set_slot_def)
    then show ?thesis
      using push_slot [OF assms(1) nxt(1) False d''(2) m] d''(3) False nxt(2) by auto
  qed
qed

lemma da_content_ok: "da_ok d \<Longrightarrow> da_content d = Inr (da_bytes d)"
  by (auto simp: da_ok_def da_content_def da_bytes_def da_size_def)

text \<open>Popping returns the oldest packet and removes it.\<close>

lemma rb_pop_spec:
  assumes ok: "rb_ok r" and out: "buf_ok out" and c: "rb_contents r = (x, bs) # rest"
  shows "\<exists>out' r'. rb_pop out r = Inr (Some x, out', r') \<and> rb_ok r' \<and> buf_ok out' \<and> da_bytes out' = bs \<and>
    rb_contents r' = rest \<and> rb_capacity r' = rb_capacity r"
proof -
  note sz = rb_okD(1) [OF ok] and szs = rb_sizesD [OF rb_okD(1) [OF ok]]
  let ?t = "unat (rb_tail r)"
  obtain nxt where nxt: "next_idx (rb_tail r) r = Inr nxt" "unat nxt = (?t + 1) mod unat (rb_capacity r)"
    using next_idx_nat [OF sz szs(4)] by metis
  have ne: "rb_tail r \<noteq> rb_head r" using c ring_empty [OF szs(4,3)] by (auto simp: rb_contents_def rb_ring_def)
  have ring: "rb_ring r = ?t # ring (unat nxt) (unat (rb_head r)) (unat (rb_capacity r))"
    using ring_cons [OF szs(4,3)] ne unfolding nxt(2) rb_ring_def by (metis word_unat_eq_iff)
  have x: "slot_info r ?t = x" "da_bytes (dynamicbuf_list r ! ?t) = bs" using c by (auto simp: rb_contents_def ring)
  have buf: "buf_ok (dynamicbuf_list r ! ?t)" using slot_buf_ok [OF ok szs(2)] .
  obtain o1 where o1: "da_clear out = Inr o1" "buf_ok o1" "da_bytes o1 = []" using buf_clear [OF out] by blast
  have "int (length bs) \<le> 8388608" using buf x(2) by (auto simp: buf_ok_def da_ok_def da_bytes_def)
  then obtain o2 where o2: "dynamic_memcpy o1 0 bs = Inr o2" "buf_ok o2" "da_bytes o2 = bs"
    using buf_memcpy [OF o1(2), of 0 bs] o1(3) by (auto simp: patch_append)
  obtain d where d: "da_clear (dynamicbuf_list r ! ?t) = Inr d" "buf_ok d" using buf_clear [OF buf] by blast
  let ?m = "if 0 < pi_maxfragnum x then om_erase (pi_clientlogicalidx x) (clientlogicalidx_bufidx_map r) else clientlogicalidx_bufidx_map r"
  define r' where "r' = r\<lparr>valid_list := (valid_list r)[?t := False], optype_list := (optype_list r)[?t := 0],
    key_list := (key_list r)[?t := key_default], dynamicbuf_list := (dynamicbuf_list r)[?t := d],
    curfragnum_list := (curfragnum_list r)[?t := 0], maxfragnum_list := (maxfragnum_list r)[?t := 0],
    clientaddrlen_list := (clientaddrlen_list r)[?t := 0], clientlogicalidx_list := (clientlogicalidx_list r)[?t := 0],
    fragseq_list := (fragseq_list r)[?t := 0], clientlogicalidx_bufidx_map := ?m, rb_tail := nxt\<rparr>"
  have pop: "rb_pop out r = Inr (Some x, o2, r')"
    using ne szs(2) rb_okD(3) [OF ok, of ?t] ring x da_content_ok [of "dynamicbuf_list r ! ?t"] buf o1(1) o2(1) d(1) nxt(1)
    by (simp add: rb_pop_def r'_def buf_ok_def Let_def)
  have ring': "rb_ring r = ?t # rb_ring r'" unfolding ring by (simp add: r'_def rb_ring_def)
  have notin: "?t \<notin> set (rb_ring r')"
    using ring_distinct [OF szs(4), of "unat (rb_head r)"] ring' unfolding rb_ring_def by (metis distinct.simps(2))
  have same: "valid_list r' ! i = valid_list r ! i" "slot_info r' i = slot_info r i" "dynamicbuf_list r' ! i = dynamicbuf_list r ! i"
    if "i \<noteq> ?t" for i
    using that by (simp_all add: r'_def slot_info_def)
  have "rb_sizes r'" using sz nxt(2) szs(4) by (simp add: rb_sizes_def r'_def Let_def)
  moreover have "\<forall>d' \<in> set (dynamicbuf_list r'). buf_ok d'"
    using d(2) rb_okD(2) [OF ok] by (auto simp: r'_def dest: set_update_subset_insert [THEN subsetD])
  moreover have "\<forall>i \<in> set (rb_ring r'). valid_list r' ! i"
    using same(1) notin rb_okD(3) [OF ok] ring' by (metis list.set_intros(2))
  moreover have "om_ok (clientlogicalidx_bufidx_map r')" using rb_okD(4) [OF ok] by (simp add: r'_def)
  moreover have "om_find (clientlogicalidx_bufidx_map r') c = Some i \<longleftrightarrow>
      unat i \<in> set (rb_ring r') \<and> 0 < maxfragnum_list r' ! unat i \<and> clientlogicalidx_list r' ! unat i = c" for c i
  proof (cases "i = rb_tail r")
    case True
    have "om_find (clientlogicalidx_bufidx_map r') c \<noteq> Some i"
      using True rb_okD(4) [OF ok] rb_okD(5) [OF ok, of c i] x(1) by (auto simp: r'_def slot_info_def split: if_splits)
    then show ?thesis using True notin by auto
  next
    case False
    then have i: "unat i \<noteq> ?t" by (metis word_unat_eq_iff)
    have "om_find (clientlogicalidx_bufidx_map r') c = Some i \<longleftrightarrow> om_find (clientlogicalidx_bufidx_map r) c = Some i"
      using False rb_okD(4) [OF ok] rb_okD(5) [OF ok, of c "rb_tail r"] ring' x(1) by (auto simp: r'_def slot_info_def)
    moreover have "maxfragnum_list r' ! unat i = maxfragnum_list r ! unat i" "clientlogicalidx_list r' ! unat i = clientlogicalidx_list r ! unat i"
      using i by (simp_all add: r'_def)
    ultimately show ?thesis using rb_okD(5) [OF ok, of c i] ring' i by simp
  qed
  ultimately have "rb_ok r'" unfolding rb_ok_def by blast
  moreover have "rb_contents r' = rest"
  proof -
    have "i \<noteq> ?t" if "i \<in> set (rb_ring r')" for i using that notin by blast
    then have "rb_contents r' = map (\<lambda>i. (slot_info r i, da_bytes (dynamicbuf_list r ! i))) (rb_ring r')"
      unfolding rb_contents_def by (intro map_cong refl) (simp add: same)
    moreover have "rest = map (\<lambda>i. (slot_info r i, da_bytes (dynamicbuf_list r ! i))) (rb_ring r')"
      using c by (simp add: rb_contents_def ring')
    ultimately show ?thesis by simp
  qed
  ultimately show ?thesis using pop o2 by (auto simp: r'_def)
qed

lemma rb_pop_empty: "rb_ok r \<Longrightarrow> rb_contents r = [] \<Longrightarrow> rb_pop out r = Inr (None, out, r)"
  using ring_empty [OF rb_sizesD(4,3), of r] rb_okD(1) [of r]
  by (auto simp: rb_pop_def rb_contents_def rb_ring_def word_unat_eq_iff)

text \<open>A further fragment changes only the packet of its client. A larger fragment sequence number
  starts the packet over.\<close>

definition add_fragment :: "byte list \<Rightarrow> nat \<Rightarrow> byte list \<Rightarrow> u32 \<Rightarrow> bool \<Rightarrow> pkt_info \<times> byte list \<Rightarrow> pkt_info \<times> byte list" where
  "add_fragment hdr off body fragseq is_frag0 e = (case e of (x, bs) \<Rightarrow>
     let cur = (if pi_fragseq x < fragseq then 1 else pi_curfragnum x + 1); bs' = patch off body bs in
     (x\<lparr>pi_curfragnum := cur, pi_fragseq := max (pi_fragseq x) fragseq\<rparr>, if cur = 1 \<or> is_frag0 then patch 0 hdr bs' else bs'))"

lemma is_same_optype_refl: "is_same_optype t t"
  by (simp add: is_same_optype_def)

lemma update_large_spec:
  assumes ok: "rb_ok r" and e: "(x, bs) \<in> set (rb_contents r)" "0 < pi_maxfragnum x"
    and same: "is_same_optype (pi_optype x) optype" "pi_key x = key" "pi_clientaddrlen x = len" "pi_fragseq x \<le> fragseq"
    and fits: "length hdr \<le> 8388608" "unat off + length body \<le> 8388608"
  shows "\<exists>r'. update_large optype key (Some hdr) off (Some body) len (pi_clientlogicalidx x) fragseq is_frag0 r = Inr r' \<and> rb_ok r' \<and>
    rb_capacity r' = rb_capacity r \<and>
    rb_contents r' = map (\<lambda>e. if 0 < pi_maxfragnum (fst e) \<and> pi_clientlogicalidx (fst e) = pi_clientlogicalidx x
      then add_fragment hdr (unat off) body fragseq is_frag0 e else e) (rb_contents r)"
proof -
  note sz = rb_okD(1) [OF ok]
  let ?c = "pi_clientlogicalidx x"
  obtain i where i: "i \<in> set (rb_ring r)" "slot_info r i = x" "da_bytes (dynamicbuf_list r ! i) = bs"
    using e(1) by (auto simp: rb_contents_def)
  have ilt: "i < unat (rb_capacity r)" using rb_ring_lt [OF sz i(1)] .
  define k :: u32 where "k = of_nat i"
  have k: "unat k = i" using ilt unat_u32 [of "rb_capacity r"] by (simp add: k_def unat_of_nat)
  have find: "om_find (clientlogicalidx_bufidx_map r) ?c = Some k"
    using rb_okD(5) [OF ok, of ?c k] i(1,2) e(2) k by (auto simp: slot_info_def)
  have uniq: "j = i" if "j \<in> set (rb_ring r)" "0 < maxfragnum_list r ! j" "clientlogicalidx_list r ! j = ?c" for j
  proof -
    have "unat (of_nat j :: u32) = j" using rb_ring_lt [OF sz that(1)] unat_u32 [of "rb_capacity r"] by (simp add: unat_of_nat)
    then have "om_find (clientlogicalidx_bufidx_map r) ?c = Some (of_nat j)" using rb_okD(5) [OF ok, of ?c "of_nat j"] that by simp
    then show ?thesis using find k \<open>unat (of_nat j) = j\<close> by simp
  qed
  have vec: "in_vectors k r" using sz ilt by (simp add: in_vectors_def rb_sizes_def Let_def k)
  have buf: "buf_ok (dynamicbuf_list r ! i)" using slot_buf_ok [OF ok vec] by (simp add: k)
  have "sint off = int (unat off)" using fits(2) by (intro sint_small) simp
  then have "0 \<le> sint off" "sint off + int (length body) \<le> 8388608" "nat (sint off) = unat off" using fits(2) by linarith+
  then obtain d where d: "dynamic_memcpy (dynamicbuf_list r ! i) (sint off) body = Inr d" "buf_ok d" "da_bytes d = patch (unat off) body bs"
    using buf_memcpy [OF buf, of "sint off" body] i(3) by auto
  define cur where "cur = (if pi_fragseq x < fragseq then 1 else pi_curfragnum x + 1)"
  obtain d' where d': "(if cur = 1 \<or> is_frag0 then dynamic_memcpy d 0 hdr else Inr d) = Inr d'" "buf_ok d'"
      "da_bytes d' = (if cur = 1 \<or> is_frag0 then patch 0 hdr (patch (unat off) body bs) else patch (unat off) body bs)"
    using buf_memcpy [OF d(2), of 0 hdr] d that [of d] fits(1) by (cases "cur = 1 \<or> is_frag0") auto
  define r' where "r' = r\<lparr>dynamicbuf_list := (dynamicbuf_list r)[i := d'], curfragnum_list := (curfragnum_list r)[i := cur],
    fragseq_list := (fragseq_list r)[i := max (pi_fragseq x) fragseq]\<rparr>"
  have xs: "optype_list r ! i = pi_optype x" "key_list r ! i = pi_key x" "curfragnum_list r ! i = pi_curfragnum x"
    "maxfragnum_list r ! i = pi_maxfragnum x" "clientaddrlen_list r ! i = pi_clientaddrlen x"
    "clientlogicalidx_list r ! i = ?c" "fragseq_list r ! i = pi_fragseq x"
    using i(2) by (auto simp: slot_info_def)
  have upd: "update_large optype key (Some hdr) off (Some body) len ?c fragseq is_frag0 r = Inr r'"
  proof -
    have c: "(if pi_fragseq x < fragseq then 1 else curfragnum_list r ! i + 1) = cur"
      and m: "(if pi_fragseq x < fragseq then fragseq else fragseq_list r ! i) = max (pi_fragseq x) fragseq"
      using same(4) by (auto simp: cur_def max_def xs)
    show ?thesis
      using find vec k rb_okD(3) [OF ok i(1)] same d(1) e(2)
      by (simp add: update_large_def xs key_eq_def Let_def c m d'(1) r'_def split del: if_split)
  qed
  have ring: "rb_ring r' = rb_ring r" by (simp add: r'_def rb_ring_def)
  have "rb_sizes r'" using sz by (simp add: r'_def rb_sizes_def Let_def)
  moreover have "\<forall>d \<in> set (dynamicbuf_list r'). buf_ok d"
    using d'(2) rb_okD(2) [OF ok] by (auto simp: r'_def dest: set_update_subset_insert [THEN subsetD])
  moreover have "valid_list r' = valid_list r" "clientlogicalidx_bufidx_map r' = clientlogicalidx_bufidx_map r"
    "maxfragnum_list r' = maxfragnum_list r" "clientlogicalidx_list r' = clientlogicalidx_list r" by (simp_all add: r'_def)
  ultimately have "rb_ok r'" using ok unfolding rb_ok_def by (simp add: ring)
  moreover have "(slot_info r' j, da_bytes (dynamicbuf_list r' ! j)) =
      (if 0 < maxfragnum_list r ! j \<and> clientlogicalidx_list r ! j = ?c
       then add_fragment hdr (unat off) body fragseq is_frag0 (slot_info r j, da_bytes (dynamicbuf_list r ! j))
       else (slot_info r j, da_bytes (dynamicbuf_list r ! j)))" if "j \<in> set (rb_ring r)" for j
  proof (cases "j = i")
    case True
    have "slot_info r' i = x\<lparr>pi_curfragnum := cur, pi_fragseq := max (pi_fragseq x) fragseq\<rparr>" "dynamicbuf_list r' ! i = d'"
      using vec i(2) by (auto simp: r'_def slot_info_def in_vectors_def k)
    then show ?thesis using True xs e(2) i(2,3) d'(3) by (simp add: add_fragment_def cur_def Let_def)
  next
    case False
    then have "slot_info r' j = slot_info r j" "dynamicbuf_list r' ! j = dynamicbuf_list r ! j" by (simp_all add: r'_def slot_info_def)
    then show ?thesis using False uniq [OF that] by auto
  qed
  then have "rb_contents r' = map (\<lambda>e. if 0 < pi_maxfragnum (fst e) \<and> pi_clientlogicalidx (fst e) = ?c
      then add_fragment hdr (unat off) body fragseq is_frag0 e else e) (rb_contents r)"
    unfolding rb_contents_def ring map_map by (intro map_cong refl) (simp add: slot_info_def)
  ultimately show ?thesis using upd by (auto simp: r'_def)
qed

lemma init_bufs_ok: "(\<forall>d \<in> set ds. d = da_default) \<Longrightarrow> \<exists>ds'. init_bufs ds = Inr ds' \<and> length ds' = length ds \<and> (\<forall>d \<in> set ds'. buf_ok d)"
proof (induction ds)
  case (Cons d ds)
  obtain d' where "da_init d 40960 8388608 = Inr d'" "buf_ok d'"
    using da_ok_init [of 40960 8388608] Cons.prems by (auto simp: da_new_def buf_ok_def)
  then show ?case using Cons by auto
qed simp

lemma rb_new_spec:
  assumes "0 < cap"
  shows "\<exists>r. PktRingBuffer_new junk cap = Inr r \<and> rb_ok r \<and> rb_contents r = [] \<and> rb_capacity r = cap"
proof -
  obtain ds where ds: "init_bufs (replicate (unat cap) da_default) = Inr ds" "length ds = unat cap" "\<forall>d \<in> set ds. buf_ok d"
    using init_bufs_ok [of "replicate (unat cap) da_default"] by auto
  have "0 < unat cap" using assms by (simp add: word_less_nat_alt)
  then show ?thesis
    using ds by (auto simp: PktRingBuffer_new_def rb_init_def resize_def Let_def rb_ok_def rb_sizes_def rb_contents_def rb_ring_def ring_def)
qed

section \<open>The interface of a bounded queue\<close>

datatype 'e q_op = Put 'e | Get

datatype 'e q_answer = Accepted bool | Got "'e option"

text \<open>The answers of a queue to a sequence of calls, and the answers of a list that holds at most \<^verbatim>\<open>room\<close>
  elements.\<close>

fun run_queue :: "('e \<Rightarrow> 'q \<Rightarrow> (bool \<times> 'q) res) \<Rightarrow> ('q \<Rightarrow> ('e option \<times> 'q) res) \<Rightarrow> 'e q_op list \<Rightarrow> 'q \<Rightarrow> ('e q_answer list \<times> 'q) res" where
  "run_queue put get [] q = Inr ([], q)"
| "run_queue put get (Put e # ops) q = bind_res (put e q) (\<lambda>(b, q').
     bind_res (run_queue put get ops q') (\<lambda>(as, q''). Inr (Accepted b # as, q'')))"
| "run_queue put get (Get # ops) q = bind_res (get q) (\<lambda>(x, q').
     bind_res (run_queue put get ops q') (\<lambda>(as, q''). Inr (Got x # as, q'')))"

fun spec_queue :: "nat \<Rightarrow> 'e q_op list \<Rightarrow> 'e list \<Rightarrow> 'e q_answer list \<times> 'e list" where
  "spec_queue room [] xs = ([], xs)"
| "spec_queue room (Put e # ops) xs =
     (if length xs < room then map_prod (Cons (Accepted True)) id (spec_queue room ops (xs @ [e]))
      else map_prod (Cons (Accepted False)) id (spec_queue room ops xs))"
| "spec_queue room (Get # ops) xs = (case xs of
      [] \<Rightarrow> map_prod (Cons (Got None)) id (spec_queue room ops [])
    | e # ys \<Rightarrow> map_prod (Cons (Got (Some e))) id (spec_queue room ops ys))"

locale bounded_fifo =
  fixes contents :: "'q \<Rightarrow> 'e list"
    and room :: "'q \<Rightarrow> nat"
    and put :: "'e \<Rightarrow> 'q \<Rightarrow> (bool \<times> 'q) res"
    and get :: "'q \<Rightarrow> ('e option \<times> 'q) res"
    and ok :: "'q \<Rightarrow> bool"
    and fits :: "'e \<Rightarrow> bool"
  assumes put_spec: "ok q \<Longrightarrow> fits e \<Longrightarrow> \<exists>q'. put e q = Inr (length (contents q) < room q, q') \<and> ok q' \<and> room q' = room q \<and>
      contents q' = (if length (contents q) < room q then contents q @ [e] else contents q)"
    and get_spec: "ok q \<Longrightarrow> \<exists>q'. get q = Inr (case contents q of [] \<Rightarrow> None | e # _ \<Rightarrow> Some e, q') \<and> ok q' \<and> room q' = room q \<and>
      contents q' = tl (contents q)"
begin

text \<open>Every call is answered as the list answers it.\<close>

lemma fifo:
  assumes "ok q" "\<And>e. Put e \<in> set ops \<Longrightarrow> fits e"
  shows "\<exists>as q'. run_queue put get ops q = Inr (as, q') \<and> ok q' \<and> room q' = room q \<and> spec_queue (room q) ops (contents q) = (as, contents q')"
  using assms
proof (induction ops arbitrary: q)
  case (Cons a ops)
  have fits: "\<And>e. Put e \<in> set ops \<Longrightarrow> fits e" using Cons.prems(2) by simp
  show ?case
  proof (cases a)
    case (Put e)
    then have "fits e" using Cons.prems(2) by simp
    then obtain q1 where q1: "put e q = Inr (length (contents q) < room q, q1)" "ok q1" "room q1 = room q"
        "contents q1 = (if length (contents q) < room q then contents q @ [e] else contents q)"
      using put_spec [OF Cons.prems(1)] by blast
    from Cons.IH [OF q1(2) fits] obtain as q' where "run_queue put get ops q1 = Inr (as, q')" "ok q'"
        "room q' = room q1" "spec_queue (room q1) ops (contents q1) = (as, contents q')" by blast
    then show ?thesis using q1 by (auto simp: Put split: if_splits)
  next
    case Get
    obtain q1 where q1: "get q = Inr (case contents q of [] \<Rightarrow> None | e # _ \<Rightarrow> Some e, q1)" "ok q1" "room q1 = room q"
        "contents q1 = tl (contents q)"
      using get_spec [OF Cons.prems(1)] by blast
    from Cons.IH [OF q1(2) fits] obtain as q' where "run_queue put get ops q1 = Inr (as, q')" "ok q'"
        "room q' = room q1" "spec_queue (room q1) ops (contents q1) = (as, contents q')" by blast
    then show ?thesis using q1 by (cases "contents q") (auto simp: Get)
  qed
qed simp

end

text \<open>The ring buffer as a queue of small packets: \<^verbatim>\<open>push\<close>, and \<^verbatim>\<open>pop\<close> into a fresh
  array.\<close>

type_synonym small_pkt = "optype \<times> net_key \<times> byte list \<times> sockaddr_in \<times> u32"

definition small_info :: "small_pkt \<Rightarrow> pkt_info \<times> byte list" where
  "small_info p = (case p of (optype, key, bs, addr, len) \<Rightarrow>
     (\<lparr>pi_optype = optype, pi_key = key, pi_curfragnum = 0, pi_maxfragnum = 0, pi_clientaddr = addr, pi_clientaddrlen = len,
       pi_clientlogicalidx = 0, pi_fragseq = 0\<rparr>, bs))"

definition rb_put :: "pkt_info \<times> byte list \<Rightarrow> pkt_ring_buffer \<Rightarrow> (bool \<times> pkt_ring_buffer) res" where
  "rb_put e r = (case e of (x, bs) \<Rightarrow> rb_push (pi_optype x) (pi_key x) (Some bs) (pi_clientaddr x) (pi_clientaddrlen x) r)"

definition rb_get :: "pkt_ring_buffer \<Rightarrow> ((pkt_info \<times> byte list) option \<times> pkt_ring_buffer) res" where
  "rb_get r = bind_res (da_new 40960 8388608) (\<lambda>out. bind_res (rb_pop out r) (\<lambda>(x, out', r').
     case x of None \<Rightarrow> Inr (None, r') | Some i \<Rightarrow> bind_res (da_content out') (\<lambda>bs. Inr (Some (i, bs), r'))))"

interpretation rb: bounded_fifo rb_contents "\<lambda>r. unat (rb_capacity r) - 1" rb_put rb_get
  "\<lambda>r. rb_ok r \<and> length (rb_contents r) \<le> unat (rb_capacity r) - 1"
  "\<lambda>e. e \<in> range small_info \<and> length (snd e) \<le> 8388608"
proof unfold_locales
  fix r :: pkt_ring_buffer and e :: "pkt_info \<times> byte list"
  assume r: "rb_ok r \<and> length (rb_contents r) \<le> unat (rb_capacity r) - 1" and e: "e \<in> range small_info \<and> length (snd e) \<le> 8388608"
  obtain t k bs a l where p: "e = small_info (t, k, bs, a, l)" using e by auto
  obtain r' where "rb_push t k (Some bs) a l r = Inr (length (rb_contents r) \<noteq> unat (rb_capacity r) - 1, r')" "rb_ok r'"
      "rb_capacity r' = rb_capacity r"
      "rb_contents r' = (if length (rb_contents r) = unat (rb_capacity r) - 1 then rb_contents r else rb_contents r @ [e])"
    using rb_push_spec [of r bs t k a l] r e unfolding p by (auto simp: small_info_def)
  then show "\<exists>q'. rb_put e r = Inr (length (rb_contents r) < unat (rb_capacity r) - 1, q') \<and>
      (rb_ok q' \<and> length (rb_contents q') \<le> unat (rb_capacity q') - 1) \<and> unat (rb_capacity q') - 1 = unat (rb_capacity r) - 1 \<and>
      rb_contents q' = (if length (rb_contents r) < unat (rb_capacity r) - 1 then rb_contents r @ [e] else rb_contents r)"
    using r by (auto simp: rb_put_def p small_info_def)
next
  fix r :: pkt_ring_buffer
  assume r: "rb_ok r \<and> length (rb_contents r) \<le> unat (rb_capacity r) - 1"
  obtain out where out: "da_new 40960 8388608 = Inr out" "buf_ok out"
    using da_ok_init [of 40960 8388608] by (auto simp: buf_ok_def)
  show "\<exists>q'. rb_get r = Inr (case rb_contents r of [] \<Rightarrow> None | e # _ \<Rightarrow> Some e, q') \<and>
      (rb_ok q' \<and> length (rb_contents q') \<le> unat (rb_capacity q') - 1) \<and> unat (rb_capacity q') - 1 = unat (rb_capacity r) - 1 \<and>
      rb_contents q' = tl (rb_contents r)"
  proof (cases "rb_contents r")
    case Nil
    then show ?thesis using r out rb_pop_empty [of r out] by (simp add: rb_get_def)
  next
    case (Cons e rest)
    obtain x bs where e: "e = (x, bs)" by force
    obtain out' r' where r': "rb_pop out r = Inr (Some x, out', r')" "rb_ok r'" "buf_ok out'" "da_bytes out' = bs" "rb_contents r' = rest"
        "rb_capacity r' = rb_capacity r"
      using rb_pop_spec [of r out x bs rest] r out(2) Cons e by blast
    then have "da_content out' = Inr bs" using da_content_ok [of out'] by (simp add: buf_ok_def)
    then show ?thesis using r' r out Cons e by (auto simp: rb_get_def)
  qed
qed

section \<open>Properties\<close>

text \<open>C12: the ring buffer is a bounded first-in first-out queue. Any sequence of pushes and pops of small packets on
  a new buffer of capacity c > 0 runs without a failed assertion or an access outside the vectors, keeps the
  invariant, and each call answers as a list of at most c - 1 packets does: a push is accepted, and appends the packet,
  exactly if fewer than c - 1 packets are waiting; a pop returns the oldest waiting packet with all its fields and removes it,
  and reports an empty buffer exactly if none is waiting. The packets that are left are those of the list.\<close>

theorem ring_buffer_fifo:
  assumes "0 < cap" "\<And>e. Put e \<in> set ops \<Longrightarrow> e \<in> range small_info \<and> length (snd e) \<le> 8388608"
  shows "\<exists>r as r'. PktRingBuffer_new junk cap = Inr r \<and> run_queue rb_put rb_get ops r = Inr (as, r') \<and> rb_ok r' \<and>
    (as, rb_contents r') = spec_queue (unat cap - 1) ops []"
proof -
  obtain r where r: "PktRingBuffer_new junk cap = Inr r" "rb_ok r" "rb_contents r = []" "rb_capacity r = cap"
    using rb_new_spec [OF assms(1)] by blast
  then show ?thesis using rb.fifo [of r ops] assms(2) by auto
qed

theorem ring_buffer_fifo_witness:
  "\<exists>r r'. PktRingBuffer_new 7 2 = Inr r \<and>
     run_queue rb_put rb_get [Get, Put (small_info (GETREQ, key_max, [1, 2], sockaddr_zero, 16)),
       Put (small_info (GETREQ, key_min, [3], sockaddr_zero, 16)), Get] r =
     Inr ([Got None, Accepted True, Accepted False, Got (Some (small_info (GETREQ, key_max, [1, 2], sockaddr_zero, 16)))], r') \<and>
     rb_contents r' = []"
proof -
  let ?ops = "[Get, Put (small_info (GETREQ, key_max, [1, 2], sockaddr_zero, 16)), Put (small_info (GETREQ, key_min, [3], sockaddr_zero, 16)), Get]"
  have "e \<in> range small_info \<and> length (snd e) \<le> 8388608" if "Put e \<in> set ?ops" for e
  proof -
    have "e = small_info (GETREQ, key_max, [1, 2], sockaddr_zero, 16) \<or> e = small_info (GETREQ, key_min, [3], sockaddr_zero, 16)" using that by simp
    then show ?thesis by (auto, auto simp: small_info_def)
  qed
  from ring_buffer_fifo [of 2 ?ops 7, OF _ this] show ?thesis by (auto simp del: run_queue.simps)
qed

text \<open>C13: the first fragment of a large packet is appended with its client registered (a second registration of the
  client aborts), and a further fragment of the same packet is merged into exactly this entry: body at its offset, counter
  increased, or counter and header restarted when its fragment sequence number is larger.\<close>

theorem ring_buffer_large:
  assumes "rb_ok r" "length (rb_contents r) < unat (rb_capacity r) - 1" "pi_clientlogicalidx x \<notin> rb_clients r" "0 < pi_maxfragnum x"
    "length hdr \<le> 8388608" "unat off + length body \<le> 8388608" "length hdr' \<le> 8388608" "unat off' + length body' \<le> 8388608"
    "is_same_optype (pi_optype x) optype" "pi_fragseq x \<le> fragseq"
  shows "\<exists>r1 r2. push_large (pi_optype x) (pi_key x) (Some hdr) off (Some body) (pi_curfragnum x) (pi_maxfragnum x) (pi_clientaddr x)
      (pi_clientaddrlen x) (pi_clientlogicalidx x) (pi_fragseq x) r = Inr (True, r1) \<and> rb_ok r1 \<and>
    is_clientlogicalidx_exist (pi_clientlogicalidx x) r1 = Inr True \<and>
    update_large optype (pi_key x) (Some hdr') off' (Some body') (pi_clientaddrlen x) (pi_clientlogicalidx x) fragseq frag0 r1 = Inr r2 \<and>
    rb_ok r2 \<and>
    rb_contents r2 = rb_contents r @ [add_fragment hdr' (unat off') body' fragseq frag0 (x, patch (unat off) body hdr)]"
proof -
  obtain r1 where r1: "push_large (pi_optype x) (pi_key x) (Some hdr) off (Some body) (pi_curfragnum x) (pi_maxfragnum x) (pi_clientaddr x)
      (pi_clientaddrlen x) (pi_clientlogicalidx x) (pi_fragseq x) r = Inr (True, r1)" "rb_ok r1" "rb_capacity r1 = rb_capacity r"
      "rb_contents r1 = rb_contents r @ [(x, patch (unat off) body hdr)]"
    using push_large_spec [OF assms(1,4,3,5,6)] assms(2) by auto
  then have mem: "(x, patch (unat off) body hdr) \<in> set (rb_contents r1)" by simp
  obtain r2 where r2: "update_large optype (pi_key x) (Some hdr') off' (Some body') (pi_clientaddrlen x) (pi_clientlogicalidx x) fragseq frag0 r1 = Inr r2"
      "rb_ok r2" "rb_contents r2 = map (\<lambda>e. if 0 < pi_maxfragnum (fst e) \<and> pi_clientlogicalidx (fst e) = pi_clientlogicalidx x
        then add_fragment hdr' (unat off') body' fragseq frag0 e else e) (rb_contents r1)"
    using update_large_spec [OF r1(2) mem assms(4,9) refl refl assms(10,7,8)] by blast
  have "map (\<lambda>e. if 0 < pi_maxfragnum (fst e) \<and> pi_clientlogicalidx (fst e) = pi_clientlogicalidx x
        then add_fragment hdr' (unat off') body' fragseq frag0 e else e) (rb_contents r) = rb_contents r"
  proof (rule map_idI)
    fix e
    assume e: "e \<in> set (rb_contents r)"
    have "pi_clientlogicalidx (fst e) \<in> rb_clients r" if "0 < pi_maxfragnum (fst e)"
      unfolding rb_clients_def using e that by (intro imageI) simp
    then have "\<not> (0 < pi_maxfragnum (fst e) \<and> pi_clientlogicalidx (fst e) = pi_clientlogicalidx x)"
      using assms(3) by metis
    then show "(if 0 < pi_maxfragnum (fst e) \<and> pi_clientlogicalidx (fst e) = pi_clientlogicalidx x
        then add_fragment hdr' (unat off') body' fragseq frag0 e else e) = e" by (rule if_not_P)
  qed
  moreover have "pi_clientlogicalidx x \<in> rb_clients r1" using mem assms(4) by (force simp: rb_clients_def)
  ultimately show ?thesis using r1 r2 assms(4) exist_spec [OF r1(2)] by auto
qed

theorem ring_buffer_large_witness:
  "\<exists>r r1 r2. PktRingBuffer_new 0 4 = Inr r \<and>
     push_large LOADREQ key_max (Some [1, 2]) 2 (Some [3]) 1 2 sockaddr_zero 16 5 9 r = Inr (True, r1) \<and>
     update_large LOADREQ key_max (Some [1, 2]) 3 (Some [4]) 16 5 9 False r1 = Inr r2 \<and>
     map snd (rb_contents r2) = [[1, 2, 3, 4]]"
proof -
  let ?x = "\<lparr>pi_optype = LOADREQ, pi_key = key_max, pi_curfragnum = 1, pi_maxfragnum = 2, pi_clientaddr = sockaddr_zero,
    pi_clientaddrlen = 16, pi_clientlogicalidx = 5, pi_fragseq = 9\<rparr>"
  obtain r where r: "PktRingBuffer_new 0 4 = Inr r" "rb_ok r" "rb_contents r = []" "rb_capacity r = 4"
    using rb_new_spec [of 4 0] by auto
  then have "rb_clients r = {}" by (simp add: rb_clients_def)
  then obtain r1 r2 where "push_large LOADREQ key_max (Some [1, 2]) 2 (Some [3]) 1 2 sockaddr_zero 16 5 9 r = Inr (True, r1)"
      "update_large LOADREQ key_max (Some [1, 2]) 3 (Some [4]) 16 5 9 False r1 = Inr r2"
      "rb_contents r2 = [add_fragment [1, 2] 3 [4] 9 False (?x, patch 2 [3] [1, 2])]"
    using r ring_buffer_large [of r ?x "[1, 2]" 2 "[3]" "[1, 2]" 3 "[4]" LOADREQ 9 False] is_same_optype_refl by auto
  moreover have "snd (add_fragment [1, 2] 3 [4] 9 False (?x, patch 2 [3] [1, 2])) = [1, 2, 3, 4]"
    by (simp add: add_fragment_def patch_def numeral_3_eq_3 numeral_2_eq_2)
  ultimately show ?thesis using r(1) by force
qed

end
