(* ===== verification/Fragments.thy ===== *)
theory Fragments
  imports Ring_Buffer
begin

text \<open>
  Messages larger than a datagram (\<^verbatim>\<open>udpsendlarge\<close> and \<^verbatim>\<open>udprecvlarge\<close> of src/common/socket_helper.c): the sender cuts a
  message into fragments that repeat its header and carry their index and number, the receiver assembles them. A server
  keeps what arrives from other clients meanwhile in its packet ring buffer.

  What \<^verbatim>\<open>recvfrom\<close> delivers is an argument: the list of datagrams that arrive, with their sender, until the socket
  times out. A datagram longer than the buffer is cut as \<^verbatim>\<open>recvfrom\<close> does. \<^verbatim>\<open>sendto\<close> and \<^verbatim>\<open>recvfrom\<close> fail only by timing out.
\<close>

section \<open>Sending\<close>

definition UDP_FRAGMENT_MAXSIZE :: nat where
  "UDP_FRAGMENT_MAXSIZE = 65507"

definition IP_FRAGMENT_MAXSIZE :: nat where
  "IP_FRAGMENT_MAXSIZE = 1412"

definition IP_FRAGMENT_RESERVESIZE :: nat where
  "IP_FRAGMENT_RESERVESIZE = 64"

text \<open>The loop over the fragments: \<^verbatim>\<open>n\<close> are left, \<^verbatim>\<open>idx\<close> is the next one, \<^verbatim>\<open>sent\<close> bytes have been sent. Only the last fragment
  may be shorter; a body larger than the fragment buffer overruns it.\<close>

primrec send_fragments :: "byte list \<Rightarrow> nat \<Rightarrow> nat \<Rightarrow> u16 \<Rightarrow> nat \<Rightarrow> u16 \<Rightarrow> nat \<Rightarrow> byte list list res" where
  "send_fragments buf frag_hdrsize frag_bodysize max_fragnum 0 idx sent = Inr []"
| "send_fragments buf frag_hdrsize frag_bodysize max_fragnum (Suc n) idx sent =
     (let total_bodysize = length buf - frag_hdrsize;
          cur_frag_bodysize = (if n = 0 then total_bodysize - frag_bodysize * unat idx else frag_bodysize) in
      bind_res (ensure_defined (cur_frag_bodysize \<le> frag_bodysize \<and> sent + cur_frag_bodysize \<le> length buf)) (\<lambda>_.
      bind_res (send_fragments buf frag_hdrsize frag_bodysize max_fragnum n (idx + 1) (sent + cur_frag_bodysize)) (\<lambda>fs.
      Inr ((take frag_hdrsize buf @ le16 (htons idx) @ le16 (htons max_fragnum) @ take cur_frag_bodysize (drop sent buf)) # fs))))"

definition udpsendlarge :: "byte list \<Rightarrow> nat \<Rightarrow> nat \<Rightarrow> byte list list res" where
  "udpsendlarge buf frag_hdrsize frag_maxsize =
     bind_res (invariant (frag_hdrsize \<le> length buf)) (\<lambda>_.
     let final_frag_hdrsize = frag_hdrsize + 2 + 2;
         frag_bodysize = frag_maxsize - final_frag_hdrsize;
         total_bodysize = length buf - frag_hdrsize in
     bind_res (ensure_defined (final_frag_hdrsize < frag_maxsize)) (\<lambda>_.
     let fragnum = (if 0 < total_bodysize then (total_bodysize + frag_bodysize - 1) div frag_bodysize else 1);
         max_fragnum = (of_nat fragnum :: u16) in
     bind_res (invariant (0 < fragnum)) (\<lambda>_.
     send_fragments buf frag_hdrsize frag_bodysize max_fragnum (unat max_fragnum) 0 frag_hdrsize)))"

definition udpsendlarge_udpfrag :: "byte list \<Rightarrow> byte list list res" where
  "udpsendlarge_udpfrag buf = udpsendlarge buf 0 UDP_FRAGMENT_MAXSIZE"

definition udpsendlarge_ipfrag :: "byte list \<Rightarrow> nat \<Rightarrow> byte list list res" where
  "udpsendlarge_ipfrag buf frag_hdrsize = udpsendlarge buf frag_hdrsize IP_FRAGMENT_MAXSIZE"

section \<open>Receiving\<close>

datatype fragtype = IP_FRAGTYPE | UDP_FRAGTYPE

type_synonym arrival = "byte list \<times> sockaddr_in \<times> u32"

text \<open>The variables of \<^verbatim>\<open>udprecvlarge\<close> while it collects the fragments of a message; the ring buffer is \<^verbatim>\<open>None\<close> for a client.\<close>

record largepkt =
  lp_buf :: dyn_array
  lp_ring :: "pkt_ring_buffer option"
  lp_hdrsize :: nat
  lp_bodysize :: nat
  lp_maxfragnum :: u16
  lp_curfragnum :: u16
  lp_key :: net_key
  lp_optype :: optype
  lp_clientlogicalidx :: u16
  lp_fragseq :: u32
  lp_clientaddr :: sockaddr_in
  lp_clientaddrlen :: u32

definition read16_be :: "byte list \<Rightarrow> nat \<Rightarrow> u16 res" where
  "read16_be data off = bind_res (read16 data off) (\<lambda>w. Inr (htons w))"

text \<open>An offset computed in \<^verbatim>\<open>size_t\<close> and passed as \<^verbatim>\<open>int\<close>.\<close>

definition int_offset :: "nat \<Rightarrow> int" where
  "int_offset n = sint (of_nat n :: u32)"

text \<open>The end of the loop body: the body of the fragment goes to its place, the header of fragment 0 is copied again.\<close>

definition store_fragment :: "fragtype \<Rightarrow> byte list \<Rightarrow> largepkt \<Rightarrow> largepkt res" where
  "store_fragment ft data st =
     (let hdrsize = lp_hdrsize st; final_frag_hdrsize = hdrsize + 2 + 2 in
      bind_res (read16_be data hdrsize) (\<lambda>cur_fragidx.
      bind_res (invariant (cur_fragidx < lp_maxfragnum st)) (\<lambda>_.
      bind_res (dynamic_memcpy (lp_buf st) (int_offset (hdrsize + unat cur_fragidx * lp_bodysize st)) (drop final_frag_hdrsize data)) (\<lambda>d.
      bind_res (if ft = IP_FRAGTYPE \<and> cur_fragidx = 0 then dynamic_memcpy d 0 (take hdrsize data) else Inr d) (\<lambda>d.
      Inr (st\<lparr>lp_buf := d, lp_curfragnum := lp_curfragnum st + 1\<rparr>))))))"

text \<open>A fragment of another client goes into the ring buffer of the server.\<close>

definition buffer_other :: "method_id \<Rightarrow> nat \<Rightarrow> optype \<Rightarrow> net_key \<Rightarrow> u16 \<Rightarrow> u32 \<Rightarrow> arrival \<Rightarrow> pkt_ring_buffer \<Rightarrow> pkt_ring_buffer res" where
  "buffer_other m frag_maxsize t k clientlogicalidx fragseq a r = (case a of (data, addr, addrlen) \<Rightarrow>
     bind_res (get_frag_totalsize m t frag_maxsize) (\<lambda>frag_totalsize.
     bind_res (get_frag_hdrsize m t) (\<lambda>frag_hdrsize.
     let final_frag_hdrsize = frag_hdrsize + 2 + 2; frag_bodysize = frag_totalsize - final_frag_hdrsize in
     bind_res (invariant (frag_bodysize \<noteq> 0)) (\<lambda>_.
     bind_res (invariant (final_frag_hdrsize \<le> length data \<and> length data \<le> frag_totalsize)) (\<lambda>_.
     bind_res (read16_be data (frag_hdrsize + 2)) (\<lambda>max_fragnum.
     bind_res (read16_be data frag_hdrsize) (\<lambda>cur_fragidx.
     let hdr = take frag_hdrsize data; body = drop final_frag_hdrsize data;
         off = of_nat (frag_hdrsize + unat cur_fragidx * frag_bodysize) in
     bind_res (is_clientlogicalidx_exist clientlogicalidx r) (\<lambda>known.
     if known then update_large t k (Some hdr) off (Some body) addrlen clientlogicalidx fragseq (cur_fragidx = 0) r
     else bind_res (push_large t k (Some hdr) off (Some body) 1 max_fragnum addr addrlen clientlogicalidx fragseq r)
       (\<lambda>(ok, r). if ok then Inr r else Inl Exit)))))))))"

text \<open>Whether a further datagram belongs to the message; if not, a client drops it and a server keeps it.\<close>

definition match_packet :: "method_id \<Rightarrow> nat \<Rightarrow> fragtype \<Rightarrow> arrival \<Rightarrow> largepkt \<Rightarrow> (bool \<times> largepkt) res" where
  "match_packet m frag_maxsize ft a st = (case a of (data, addr, addrlen) \<Rightarrow>
     if ft = UDP_FRAGTYPE then Inr (True, st)
     else bind_res (get_packet_key m data) (\<lambda>k. bind_res (get_packet_type data) (\<lambda>t.
       case lp_ring st of
         None \<Rightarrow> Inr (key_eq k (lp_key st) \<and> t = lp_optype st, st)
       | Some r \<Rightarrow>
           if \<not> is_packet_with_largevalue t
           then bind_res (rb_push t k (Some data) addr addrlen r) (\<lambda>(ok, r).
             if ok then Inr (False, st\<lparr>lp_ring := Some r\<rparr>) else Inl Exit)
           else if is_packet_with_clientlogicalidx t
           then bind_res (get_packet_clientlogicalidx m data) (\<lambda>clientlogicalidx.
             bind_res (get_packet_fragseq m data) (\<lambda>fragseq.
             if clientlogicalidx \<noteq> lp_clientlogicalidx st
             then bind_res (buffer_other m frag_maxsize t k clientlogicalidx fragseq a r) (\<lambda>r. Inr (False, st\<lparr>lp_ring := Some r\<rparr>))
             else if \<not> key_eq k (lp_key st) \<or> \<not> is_same_optype t (lp_optype st) \<or> fragseq < lp_fragseq st then Inr (False, st)
             else Inr (True, if lp_fragseq st < fragseq then st\<lparr>lp_fragseq := fragseq, lp_curfragnum := 0\<rparr> else st)))
           else Inl Exit)))"

text \<open>The result: whether the call timed out, the buffer, the ring buffer, the sender if one was stored, and the datagrams not yet read.\<close>

record recv_result =
  rr_timeout :: bool
  rr_buf :: dyn_array
  rr_ring :: "pkt_ring_buffer option"
  rr_src :: "(sockaddr_in \<times> u32) option"
  rr_rest :: "arrival list"

text \<open>After a timeout the fragments a server has are kept in the ring buffer.\<close>

definition recv_timeout :: "fragtype \<Rightarrow> (sockaddr_in \<times> u32) option \<Rightarrow> largepkt \<Rightarrow> recv_result res" where
  "recv_timeout ft src st =
     bind_res (case lp_ring st of
         Some r \<Rightarrow> if ft = IP_FRAGTYPE then
           bind_res (is_clientlogicalidx_exist (lp_clientlogicalidx st) r) (\<lambda>known.
           bind_res (invariant (\<not> known)) (\<lambda>_.
           bind_res (invariant (1 \<le> lp_curfragnum st)) (\<lambda>_.
           bind_res (da_content (lp_buf st)) (\<lambda>bs.
           bind_res (push_large (lp_optype st) (lp_key st) (Some (take (lp_hdrsize st) bs)) (of_nat (lp_hdrsize st)) (Some (drop (lp_hdrsize st) bs))
             (lp_curfragnum st) (lp_maxfragnum st) (lp_clientaddr st) (lp_clientaddrlen st) (lp_clientlogicalidx st) (lp_fragseq st) r)
             (\<lambda>(ok, r). if ok then Inr (Some r) else Inl Exit)))))
           else Inr (Some r)
       | None \<Rightarrow> Inr None) (\<lambda>rbuf.
     bind_res (da_clear (lp_buf st)) (\<lambda>d.
     Inr \<lparr>rr_timeout = True, rr_buf = d, rr_ring = rbuf, rr_src = src, rr_rest = []\<rparr>))"

fun recv_more :: "method_id \<Rightarrow> nat \<Rightarrow> nat \<Rightarrow> fragtype \<Rightarrow> (sockaddr_in \<times> u32) option \<Rightarrow> arrival list \<Rightarrow> largepkt \<Rightarrow> recv_result res" where
  "recv_more m frag_maxsize fragbuf_maxsize ft src [] st = recv_timeout ft src st"
| "recv_more m frag_maxsize fragbuf_maxsize ft src ((msg, addr, addrlen) # as) st =
     (let data = take fragbuf_maxsize msg in
      bind_res (match_packet m frag_maxsize ft (data, addr, addrlen) st) (\<lambda>(matched, st).
      if \<not> matched then recv_more m frag_maxsize fragbuf_maxsize ft src as st
      else bind_res (invariant (lp_hdrsize st + 2 + 2 \<le> length data)) (\<lambda>_.
        bind_res (store_fragment ft data st) (\<lambda>st.
        if lp_maxfragnum st \<le> lp_curfragnum st
        then Inr \<lparr>rr_timeout = False, rr_buf = lp_buf st, rr_ring = lp_ring st, rr_src = src, rr_rest = as\<rparr>
        else recv_more m frag_maxsize fragbuf_maxsize ft src as st))))"

text \<open>The first datagram of a message, or a small packet, which is returned as it is. Without a ring buffer or for
  \<^verbatim>\<open>UDP_FRAGTYPE\<close> the client index and the fragment sequence number stay unset.\<close>

definition recv_first :: "method_id \<Rightarrow> nat \<Rightarrow> nat \<Rightarrow> fragtype \<Rightarrow> dyn_array \<Rightarrow> pkt_ring_buffer option \<Rightarrow> arrival list \<Rightarrow> recv_result res" where
  "recv_first m frag_maxsize fragbuf_maxsize ft buf rbuf arrivals = (case arrivals of
      [] \<Rightarrow> bind_res (da_clear buf) (\<lambda>d. Inr \<lparr>rr_timeout = True, rr_buf = d, rr_ring = rbuf, rr_src = None, rr_rest = []\<rparr>)
    | (msg, addr, addrlen) # as \<Rightarrow>
      let data = take fragbuf_maxsize msg; src = Some (addr, addrlen) in
      bind_res (if ft = IP_FRAGTYPE
        then bind_res (get_packet_type data) (\<lambda>t.
          if is_packet_with_largevalue t then bind_res (get_frag_hdrsize m t) (\<lambda>h. Inr (Some (h, t))) else Inr None)
        else Inr (Some (0, 0))) (\<lambda>large.
      case large of
        None \<Rightarrow> bind_res (dynamic_memcpy buf 0 data) (\<lambda>d.
          Inr \<lparr>rr_timeout = False, rr_buf = d, rr_ring = rbuf, rr_src = src, rr_rest = as\<rparr>)
      | Some (frag_hdrsize, t) \<Rightarrow>
          bind_res (if ft = IP_FRAGTYPE then get_packet_key m data else Inr key_default) (\<lambda>k.
          bind_res (if ft = IP_FRAGTYPE \<and> rbuf \<noteq> None
            then bind_res (get_frag_totalsize m t frag_maxsize) (\<lambda>total.
              bind_res (get_packet_clientlogicalidx m data) (\<lambda>c.
              bind_res (get_packet_fragseq m data) (\<lambda>q. Inr (total, c, q))))
            else Inr (frag_maxsize, 0, 0)) (\<lambda>(frag_totalsize, clientlogicalidx, fragseq).
          let final_frag_hdrsize = frag_hdrsize + 2 + 2; frag_bodysize = frag_totalsize - final_frag_hdrsize in
          bind_res (invariant (frag_bodysize \<noteq> 0)) (\<lambda>_.
          bind_res (invariant (final_frag_hdrsize \<le> length data \<and> length data \<le> frag_totalsize)) (\<lambda>_.
          bind_res (dynamic_memcpy buf 0 (take frag_hdrsize data)) (\<lambda>d.
          bind_res (read16_be data (frag_hdrsize + 2)) (\<lambda>max_fragnum.
          bind_res (store_fragment ft data \<lparr>lp_buf = d, lp_ring = rbuf, lp_hdrsize = frag_hdrsize, lp_bodysize = frag_bodysize,
            lp_maxfragnum = max_fragnum, lp_curfragnum = 0, lp_key = k, lp_optype = t, lp_clientlogicalidx = clientlogicalidx,
            lp_fragseq = fragseq, lp_clientaddr = addr, lp_clientaddrlen = addrlen\<rparr>) (\<lambda>st.
          if lp_maxfragnum st \<le> lp_curfragnum st
          then Inr \<lparr>rr_timeout = False, rr_buf = lp_buf st, rr_ring = lp_ring st, rr_src = src, rr_rest = as\<rparr>
          else recv_more m frag_maxsize fragbuf_maxsize ft src as st)))))))))"

text \<open>A server first takes what waits in its ring buffer; an incomplete message is continued.\<close>

definition udprecvlarge :: "method_id \<Rightarrow> nat \<Rightarrow> fragtype \<Rightarrow> dyn_array \<Rightarrow> pkt_ring_buffer option \<Rightarrow> arrival list \<Rightarrow> recv_result res" where
  "udprecvlarge m frag_maxsize ft buf rbuf arrivals =
     (let fragbuf_maxsize = (if ft = IP_FRAGTYPE then frag_maxsize + IP_FRAGMENT_RESERVESIZE else frag_maxsize) in
      case (ft, rbuf) of
        (IP_FRAGTYPE, Some r) \<Rightarrow>
          bind_res (rb_pop buf r) (\<lambda>(popped, buf, r). case popped of
              None \<Rightarrow> recv_first m frag_maxsize fragbuf_maxsize ft buf (Some r) arrivals
            | Some x \<Rightarrow>
                let src = Some (pi_clientaddr x, pi_clientaddrlen x) in
                if pi_maxfragnum x = 0 \<or> pi_maxfragnum x \<le> pi_curfragnum x
                then Inr \<lparr>rr_timeout = False, rr_buf = buf, rr_ring = Some r, rr_src = src, rr_rest = arrivals\<rparr>
                else bind_res (invariant (is_packet_with_largevalue (pi_optype x))) (\<lambda>_.
                  bind_res (get_frag_totalsize m (pi_optype x) frag_maxsize) (\<lambda>frag_totalsize.
                  bind_res (get_frag_hdrsize m (pi_optype x)) (\<lambda>frag_hdrsize.
                  recv_more m frag_maxsize fragbuf_maxsize ft src arrivals
                    \<lparr>lp_buf = buf, lp_ring = Some r, lp_hdrsize = frag_hdrsize, lp_bodysize = frag_totalsize - (frag_hdrsize + 2 + 2),
                     lp_maxfragnum = pi_maxfragnum x, lp_curfragnum = pi_curfragnum x, lp_key = pi_key x, lp_optype = pi_optype x,
                     lp_clientlogicalidx = pi_clientlogicalidx x, lp_fragseq = pi_fragseq x, lp_clientaddr = pi_clientaddr x,
                     lp_clientaddrlen = pi_clientaddrlen x\<rparr>))))
      | _ \<Rightarrow> recv_first m frag_maxsize fragbuf_maxsize ft buf rbuf arrivals)"

definition udprecvlarge_udpfrag :: "method_id \<Rightarrow> dyn_array \<Rightarrow> arrival list \<Rightarrow> recv_result res" where
  "udprecvlarge_udpfrag m buf arrivals = udprecvlarge m UDP_FRAGMENT_MAXSIZE UDP_FRAGTYPE buf None arrivals"

definition udprecvlarge_ipfrag :: "method_id \<Rightarrow> dyn_array \<Rightarrow> pkt_ring_buffer option \<Rightarrow> arrival list \<Rightarrow> recv_result res" where
  "udprecvlarge_ipfrag m buf rbuf arrivals = udprecvlarge m IP_FRAGMENT_MAXSIZE IP_FRAGTYPE buf rbuf arrivals"

section \<open>The fragments of a message\<close>

definition fragnum :: "nat \<Rightarrow> nat \<Rightarrow> byte list \<Rightarrow> nat" where
  "fragnum hdr body msg = (if hdr < length msg then (length msg - hdr + body - 1) div body else 1)"

definition chunk :: "nat \<Rightarrow> nat \<Rightarrow> byte list \<Rightarrow> nat \<Rightarrow> byte list" where
  "chunk hdr body msg i = take body (drop (hdr + body * i) msg)"

definition fragment :: "nat \<Rightarrow> nat \<Rightarrow> byte list \<Rightarrow> nat \<Rightarrow> byte list" where
  "fragment hdr body msg i = take hdr msg @ le16 (htons (of_nat i)) @ le16 (htons (of_nat (fragnum hdr body msg))) @ chunk hdr body msg i"

lemma fragnum_pos: "0 < body \<Longrightarrow> 0 < fragnum hdr body msg"
  by (auto simp: fragnum_def div_greater_zero_iff)

lemma less_fragnum:
  assumes "0 < body" "hdr < length msg"
  shows "i < fragnum hdr body msg \<longleftrightarrow> hdr + body * i < length msg"
proof -
  have "i < fragnum hdr body msg \<longleftrightarrow> Suc i \<le> (length msg - hdr + body - 1) div body" using assms(2) by (simp add: fragnum_def Suc_le_eq)
  also have "\<dots> \<longleftrightarrow> Suc i * body \<le> length msg - hdr + body - 1" using assms(1) by (rule less_eq_div_iff_mult_less_eq)
  also have "\<dots> \<longleftrightarrow> hdr + body * i < length msg" using assms by (auto simp: mult.commute)
  finally show ?thesis .
qed

lemma fragnum_bounds:
  assumes "0 < body" "hdr \<le> length msg"
  shows "length msg \<le> hdr + body * fragnum hdr body msg"
    "i < fragnum hdr body msg \<Longrightarrow> hdr + body * i \<le> length msg"
    "j < length msg \<Longrightarrow> hdr \<le> j \<Longrightarrow> (j - hdr) div body < fragnum hdr body msg"
proof -
  let ?N = "fragnum hdr body msg"
  show "length msg \<le> hdr + body * ?N"
    using less_fragnum [OF assms(1), of hdr msg ?N] assms(2) by (cases "hdr < length msg") auto
  show "i < ?N \<Longrightarrow> hdr + body * i \<le> length msg"
    using less_fragnum [OF assms(1), of hdr msg i] assms(2) by (cases "hdr < length msg") (auto simp: fragnum_def)
  assume j: "j < length msg" "hdr \<le> j"
  have "body * ((j - hdr) div body) \<le> j - hdr" by simp
  then show "(j - hdr) div body < ?N" using j less_fragnum [OF assms(1), of hdr msg "(j - hdr) div body"] by linarith
qed

lemma length_chunk: "length (chunk hdr body msg i) = min body (length msg - (hdr + body * i))"
  by (simp add: chunk_def)

lemma last_chunk:
  assumes "0 < body" "hdr \<le> length msg" "Suc i = fragnum hdr body msg"
  shows "hdr + body * i + length (chunk hdr body msg i) = length msg"
proof -
  have "length msg \<le> hdr + body * i + body" using fragnum_bounds(1) [OF assms(1,2)] unfolding assms(3) [symmetric] by simp
  moreover have "hdr + body * i \<le> length msg" using fragnum_bounds(2) [OF assms(1,2), of i] unfolding assms(3) [symmetric] by simp
  ultimately show ?thesis by (simp add: length_chunk)
qed

lemma inner_chunk:
  assumes "0 < body" "hdr \<le> length msg" "Suc i < fragnum hdr body msg"
  shows "hdr + body * Suc i \<le> length msg" "length (chunk hdr body msg i) = body"
  using fragnum_bounds(2) [OF assms(1,2) assms(3)] by (auto simp: length_chunk)

lemma send_fragments_eq:
  assumes "0 < body" "hdr \<le> length msg" "fragnum hdr body msg < 65536" "i + n = fragnum hdr body msg" "0 < n"
  shows "send_fragments msg hdr body (of_nat (fragnum hdr body msg)) n (of_nat i) (hdr + body * i) =
    Inr (map (fragment hdr body msg) [i..<fragnum hdr body msg])"
  using assms(4,5)
proof (induction n arbitrary: i)
  case (Suc n)
  have i: "unat (of_nat i :: u16) = i" using Suc.prems assms(3) by (simp add: unat_of_nat)
  show ?case
  proof (cases n)
    case 0
    have l: "hdr + body * i + length (chunk hdr body msg i) = length msg" using last_chunk [OF assms(1,2)] Suc.prems 0 by simp
    then have c: "length msg - hdr - body * i = length (chunk hdr body msg i)" "length msg - (hdr + body * i) = length (chunk hdr body msg i)" by simp_all
    have "take (length (chunk hdr body msg i)) (drop (hdr + body * i) msg) = chunk hdr body msg i"
      by (simp add: chunk_def min_def)
    moreover have "length (chunk hdr body msg i) \<le> body" by (simp add: length_chunk)
    ultimately show ?thesis using 0 Suc.prems l by (simp add: i c Let_def fragment_def upt_conv_Cons)
  next
    case (Suc n')
    then have n: "n \<noteq> 0" by simp
    have b: "hdr + body * Suc i \<le> length msg" "length (chunk hdr body msg i) = body" using inner_chunk [OF assms(1,2), of i] Suc.prems n by simp_all
    have "send_fragments msg hdr body (of_nat (fragnum hdr body msg)) n (of_nat (Suc i)) (hdr + body * Suc i) =
        Inr (map (fragment hdr body msg) [Suc i..<fragnum hdr body msg])"
      using Suc.IH [of "Suc i"] Suc.prems n by simp
    moreover have "(of_nat (Suc i) :: u16) = of_nat i + 1" "hdr + body * Suc i = hdr + body * i + body" by simp_all
    ultimately have IH: "send_fragments msg hdr body (of_nat (fragnum hdr body msg)) n (of_nat i + 1) (hdr + body * i + body) =
        Inr (map (fragment hdr body msg) [Suc i..<fragnum hdr body msg])" by (simp only:)
    have "hdr + body * i + body \<le> length msg" using b(1) by simp
    then show ?thesis using n Suc.prems IH by (simp add: Let_def fragment_def chunk_def upt_conv_Cons)
  qed
qed simp

lemma udpsendlarge_eq:
  assumes "hdr \<le> length msg" "hdr + 4 < maxsize" "fragnum hdr (maxsize - (hdr + 4)) msg < 65536"
  shows "udpsendlarge msg hdr maxsize = Inr (map (fragment hdr (maxsize - (hdr + 4)) msg) [0..<fragnum hdr (maxsize - (hdr + 4)) msg])"
proof -
  let ?b = "maxsize - (hdr + 4)"
  have b: "0 < ?b" using assms(2) by simp
  have f: "(if 0 < length msg - hdr then (length msg - hdr + ?b - 1) div ?b else 1) = fragnum hdr ?b msg" by (simp add: fragnum_def)
  have u: "unat (of_nat (fragnum hdr ?b msg) :: u16) = fragnum hdr ?b msg" using assms(3) by (simp add: unat_of_nat)
  have e: "hdr + 2 + 2 = hdr + 4" by simp
  have "send_fragments msg hdr ?b (of_nat (fragnum hdr ?b msg)) (fragnum hdr ?b msg) 0 hdr = Inr (map (fragment hdr ?b msg) [0..<fragnum hdr ?b msg])"
    using send_fragments_eq [OF b assms(1,3), of 0 "fragnum hdr ?b msg"] fragnum_pos [OF b] by simp
  then show ?thesis using assms(1,2) fragnum_pos [OF b, of hdr msg] unfolding udpsendlarge_def Let_def e f u by simp
qed

section \<open>Assembling\<close>

text \<open>The buffer after the fragments with the given indices, in the order of their arrival.\<close>

definition assembled :: "nat \<Rightarrow> nat \<Rightarrow> byte list \<Rightarrow> nat list \<Rightarrow> byte list" where
  "assembled hdr body msg idxs = fold (\<lambda>i. patch (hdr + body * i) (chunk hdr body msg i)) idxs (take hdr msg)"

lemma assembled_snoc: "assembled hdr body msg (is @ [i]) = patch (hdr + body * i) (chunk hdr body msg i) (assembled hdr body msg is)"
  by (simp add: assembled_def)

definition covered :: "nat \<Rightarrow> nat \<Rightarrow> nat list \<Rightarrow> nat \<Rightarrow> bool" where
  "covered hdr body is j \<longleftrightarrow> j < hdr \<or> (j - hdr) div body \<in> set is"

lemma in_chunk:
  assumes "0 < body" "j < length msg"
  shows "hdr + body * i \<le> j \<and> j < hdr + body * i + length (chunk hdr body msg i) \<longleftrightarrow> hdr \<le> j \<and> (j - hdr) div body = i"
proof
  assume h: "hdr + body * i \<le> j \<and> j < hdr + body * i + length (chunk hdr body msg i)"
  then have "j - hdr = body * i + (j - (hdr + body * i))" "j - (hdr + body * i) < body" by (auto simp: length_chunk)
  then show "hdr \<le> j \<and> (j - hdr) div body = i" using h by (metis add_leD1 div_mult_self4 div_less add_0_right assms(1) less_not_refl2)
next
  assume h: "hdr \<le> j \<and> (j - hdr) div body = i"
  define r where "r = (j - hdr) mod body"
  have "body * i + r = j - hdr" using h mult_div_mod_eq [of body "j - hdr"] by (simp add: r_def)
  moreover have "r < body" using assms(1) by (simp add: r_def)
  ultimately show "hdr + body * i \<le> j \<and> j < hdr + body * i + length (chunk hdr body msg i)"
    using h assms(2) by (auto simp: length_chunk)
qed

lemma assembled_spec:
  assumes "0 < body" "hdr \<le> length msg" "\<forall>i \<in> set is. i < fragnum hdr body msg"
  shows "hdr \<le> length (assembled hdr body msg is) \<and> length (assembled hdr body msg is) \<le> length msg \<and>
    (\<forall>i \<in> set is. hdr + body * i + length (chunk hdr body msg i) \<le> length (assembled hdr body msg is)) \<and>
    (\<forall>j < length (assembled hdr body msg is). assembled hdr body msg is ! j = (if covered hdr body is j then msg ! j else 0))"
  using assms(3)
proof (induction "is" rule: rev_induct)
  case Nil
  show ?case using assms(2) by (auto simp: assembled_def covered_def)
next
  case (snoc k "is")
  let ?c = "assembled hdr body msg is" and ?c' = "assembled hdr body msg (is @ [k])"
  have k: "k < fragnum hdr body msg" using snoc.prems by simp
  have IH: "hdr \<le> length ?c" "length ?c \<le> length msg" "\<forall>i \<in> set is. hdr + body * i + length (chunk hdr body msg i) \<le> length ?c"
      "\<forall>j < length ?c. ?c ! j = (if covered hdr body is j then msg ! j else 0)"
    using snoc.IH snoc.prems by simp_all
  have fits: "hdr + body * k + length (chunk hdr body msg k) \<le> length msg"
    using fragnum_bounds(2) [OF assms(1,2) k] by (simp add: length_chunk)
  have "?c' ! j = (if covered hdr body (is @ [k]) j then msg ! j else 0)" if j: "j < length ?c'" for j
  proof -
    have "j < length msg" using j IH(2) fits by (auto simp: assembled_snoc length_patch)
    note inside = in_chunk [OF assms(1) this]
    have val: "?c' ! j = (if hdr + body * k \<le> j \<and> j < hdr + body * k + length (chunk hdr body msg k)
        then chunk hdr body msg k ! (j - (hdr + body * k)) else if j < length ?c then ?c ! j else 0)"
      using j unfolding assembled_snoc by (rule nth_patch)
    show ?thesis
    proof (cases "hdr \<le> j \<and> (j - hdr) div body = k")
      case True
      then have "j - (hdr + body * k) < length (chunk hdr body msg k)" "hdr + body * k \<le> j" using inside [of hdr k] by auto
      then have "chunk hdr body msg k ! (j - (hdr + body * k)) = msg ! j" using fits by (simp add: chunk_def nth_drop)
      then show ?thesis using True by (simp only: val inside) (simp add: covered_def)
    next
      case False
      then have cov: "covered hdr body (is @ [k]) j \<longleftrightarrow> covered hdr body is j" by (auto simp: covered_def)
      have "\<not> covered hdr body is j" if "length ?c \<le> j" using IH(1,3) that inside [of hdr "(j - hdr) div body"] by (fastforce simp: covered_def)
      then show ?thesis using False IH(4) by (simp only: val inside cov) auto
    qed
  qed
  then show ?case using IH fits by (auto simp: assembled_snoc length_patch)
qed

lemma assembled_all:
  assumes "0 < body" "hdr \<le> length msg" "set is = {..<fragnum hdr body msg}"
  shows "assembled hdr body msg is = msg"
proof -
  let ?N = "fragnum hdr body msg" and ?c = "assembled hdr body msg is"
  have spec: "length ?c \<le> length msg" "\<forall>i \<in> set is. hdr + body * i + length (chunk hdr body msg i) \<le> length ?c"
      "\<forall>j < length ?c. ?c ! j = (if covered hdr body is j then msg ! j else 0)"
    using assembled_spec [OF assms(1,2), of "is"] assms(3) by auto
  obtain n where n: "Suc n = ?N" using fragnum_pos [OF assms(1), of hdr msg] by (metis Suc_pred)
  then have "n \<in> set is" unfolding assms(3) by simp
  with spec(2) have "hdr + body * n + length (chunk hdr body msg n) \<le> length ?c" by blast
  then have len: "length ?c = length msg" using spec(1) last_chunk [OF assms(1,2) n] by simp
  have cov: "covered hdr body is j" if "j < length msg" for j
    using fragnum_bounds(3) [OF assms(1,2) that] assms(3) by (cases "j < hdr") (simp_all add: covered_def)
  show ?thesis
  proof (rule nth_equalityI [OF len])
    fix j assume "j < length ?c"
    then show "?c ! j = msg ! j" using spec(3) cov [of j] len by simp
  qed
qed

lemma assembled_header:
  assumes "0 < body" "hdr \<le> length msg" "\<forall>i \<in> set is. i < fragnum hdr body msg"
  shows "patch 0 (take hdr msg) (assembled hdr body msg is) = assembled hdr body msg is"
  using assembled_spec [OF assms] assms(2) by (intro nth_equalityI) (auto simp: length_patch nth_patch covered_def)

section \<open>Storing a fragment\<close>

lemma int_offset_small: "n \<le> 8388608 \<Longrightarrow> int_offset n = int n"
  by (simp add: int_offset_def sint_small unat_of_nat)

lemma read16_be_at: "length xs = off \<Longrightarrow> read16_be (xs @ le16 (htons w) @ ys) off = Inr w"
  by (simp add: read16_be_def read16_def)

lemma fragment_fields:
  assumes "hdr \<le> length msg"
  shows "read16_be (fragment hdr body msg i) hdr = Inr (of_nat i)"
    "read16_be (fragment hdr body msg i) (hdr + 2) = Inr (of_nat (fragnum hdr body msg))"
    "take hdr (fragment hdr body msg i) = take hdr msg" "drop (hdr + 4) (fragment hdr body msg i) = chunk hdr body msg i"
    "hdr + 4 \<le> length (fragment hdr body msg i)" "length (fragment hdr body msg i) \<le> hdr + 4 + body"
  using assms read16_be_at [of "take hdr msg @ le16 (htons (of_nat i))" "hdr + 2"]
  by (simp_all add: fragment_def read16_be_at length_chunk)

text \<open>The receiver has collected the fragments with the given indices.\<close>

definition collecting :: "nat \<Rightarrow> nat \<Rightarrow> byte list \<Rightarrow> nat list \<Rightarrow> largepkt \<Rightarrow> bool" where
  "collecting hdr body msg is st \<longleftrightarrow> lp_hdrsize st = hdr \<and> lp_bodysize st = body \<and> lp_maxfragnum st = of_nat (fragnum hdr body msg) \<and>
     lp_curfragnum st = of_nat (length is) \<and> buf_ok (lp_buf st) \<and> da_bytes (lp_buf st) = assembled hdr body msg is \<and>
     (\<forall>i \<in> set is. i < fragnum hdr body msg)"

lemma store_fragment_eq:
  assumes "0 < body" "hdr \<le> length msg" "length msg \<le> 8388608" "fragnum hdr body msg < 65536"
    "collecting hdr body msg is st" "i < fragnum hdr body msg"
  shows "\<exists>d. store_fragment ft (fragment hdr body msg i) st = Inr (st\<lparr>lp_buf := d, lp_curfragnum := lp_curfragnum st + 1\<rparr>) \<and>
    collecting hdr body msg (is @ [i]) (st\<lparr>lp_buf := d, lp_curfragnum := lp_curfragnum st + 1\<rparr>)"
proof -
  let ?N = "fragnum hdr body msg"
  have st: "lp_hdrsize st = hdr" "lp_bodysize st = body" "lp_maxfragnum st = of_nat ?N" "lp_curfragnum st = of_nat (length is)"
      "buf_ok (lp_buf st)" "da_bytes (lp_buf st) = assembled hdr body msg is" "\<forall>i \<in> set is. i < ?N"
    using assms(5) by (auto simp: collecting_def)
  have u: "unat (of_nat i :: u16) = i" "unat (of_nat ?N :: u16) = ?N" using assms(4,6) by (simp_all add: unat_of_nat)
  then have lt: "(of_nat i :: u16) < of_nat ?N" using assms(6) by (simp add: word_less_nat_alt)
  have fits: "hdr + body * i + length (chunk hdr body msg i) \<le> length msg"
    using fragnum_bounds(2) [OF assms(1,2,6)] by (simp add: length_chunk)
  then have off: "int_offset (hdr + i * body) = int (hdr + body * i)" using assms(3) by (simp add: int_offset_small mult.commute)
  have "int (hdr + body * i) + int (length (chunk hdr body msg i)) \<le> 8388608" using fits assms(3) by linarith
  from buf_memcpy [OF st(5) this of_nat_0_le_iff]
  obtain d where d: "dynamic_memcpy (lp_buf st) (int (hdr + body * i)) (chunk hdr body msg i) = Inr d" "buf_ok d"
      "da_bytes d = assembled hdr body msg (is @ [i])"
    unfolding st(6) nat_int assembled_snoc [symmetric] by blast
  have is': "\<forall>i \<in> set (is @ [i]). i < ?N" using st(7) assms(6) by simp
  obtain d' where d': "(if ft = IP_FRAGTYPE \<and> (of_nat i :: u16) = 0 then dynamic_memcpy d 0 (take hdr msg) else Inr d) = Inr d'" "buf_ok d'"
      "da_bytes d' = assembled hdr body msg (is @ [i])"
    using buf_memcpy [OF d(2), of 0 "take hdr msg"] assms(2,3) d(2,3) assembled_header [OF assms(1,2) is'] by (cases "ft = IP_FRAGTYPE \<and> (of_nat i :: u16) = 0") auto
  have e: "hdr + 2 + 2 = hdr + 4" by simp
  have "store_fragment ft (fragment hdr body msg i) st = Inr (st\<lparr>lp_buf := d', lp_curfragnum := lp_curfragnum st + 1\<rparr>)"
    unfolding store_fragment_def Let_def st(1-3) e fragment_fields [OF assms(2)] bind_res_simps u(1) off using lt d(1) d'(1)
    by (simp del: of_nat_add of_nat_mult split del: if_split)
  moreover have "collecting hdr body msg (is @ [i]) (st\<lparr>lp_buf := d', lp_curfragnum := lp_curfragnum st + 1\<rparr>)"
    using st d' is' by (simp add: collecting_def)
  ultimately show ?thesis by blast
qed

section \<open>Arrivals in any order\<close>

text \<open>A datagram that arrives while a message is collected: one of its fragments, or another packet.\<close>

datatype event = Own nat sockaddr_in u32 | Other "byte list" sockaddr_in u32

fun wire :: "nat \<Rightarrow> nat \<Rightarrow> byte list \<Rightarrow> event \<Rightarrow> arrival" where
  "wire hdr body msg (Own i addr len) = (fragment hdr body msg i, addr, len)"
| "wire hdr body msg (Other data addr len) = (data, addr, len)"

fun own_idxs :: "event list \<Rightarrow> nat list" where
  "own_idxs [] = []"
| "own_idxs (Own i addr len # es) = i # own_idxs es"
| "own_idxs (Other data addr len # es) = own_idxs es"

text \<open>The entry of a small packet in the ring buffer.\<close>

definition small_entry :: "optype \<Rightarrow> net_key \<Rightarrow> sockaddr_in \<Rightarrow> u32 \<Rightarrow> byte list \<Rightarrow> pkt_info \<times> byte list" where
  "small_entry t k addr len data = (\<lparr>pi_optype = t, pi_key = k, pi_curfragnum = 0, pi_maxfragnum = 0, pi_clientaddr = addr, pi_clientaddrlen = len,
     pi_clientlogicalidx = 0, pi_fragseq = 0\<rparr>, data)"

fun kept :: "method_id \<Rightarrow> event list \<Rightarrow> (pkt_info \<times> byte list) list" where
  "kept m [] = []"
| "kept m (Own i addr len # es) = kept m es"
| "kept m (Other data addr len # es) = (case (get_packet_type data, get_packet_key m data) of
     (Inr t, Inr k) \<Rightarrow> small_entry t k addr len data # kept m es | _ \<Rightarrow> kept m es)"

fun event_ok :: "method_id \<Rightarrow> nat \<Rightarrow> nat \<Rightarrow> event \<Rightarrow> bool" where
  "event_ok m fragbuf_maxsize n (Own i addr len) \<longleftrightarrow> i < n"
| "event_ok m fragbuf_maxsize n (Other data addr len) \<longleftrightarrow> length data \<le> fragbuf_maxsize \<and>
     (case (get_packet_type data, get_packet_key m data) of (Inr t, Inr k) \<Rightarrow> \<not> is_packet_with_largevalue t | _ \<Rightarrow> False)"

fun is_own :: "event \<Rightarrow> bool" where
  "is_own (Own i addr len) \<longleftrightarrow> True"
| "is_own (Other data addr len) \<longleftrightarrow> False"

text \<open>The fragment carries the key, the client and the sequence number the receiver waits for.\<close>

definition matches :: "method_id \<Rightarrow> fragtype \<Rightarrow> byte list \<Rightarrow> largepkt \<Rightarrow> bool" where
  "matches m ft data st \<longleftrightarrow> ft = UDP_FRAGTYPE \<or> get_packet_key m data = Inr (lp_key st) \<and> get_packet_type data = Inr (lp_optype st) \<and>
     (lp_ring st \<noteq> None \<longrightarrow> is_packet_with_largevalue (lp_optype st) \<and> is_packet_with_clientlogicalidx (lp_optype st) \<and>
       get_packet_clientlogicalidx m data = Inr (lp_clientlogicalidx st) \<and> get_packet_fragseq m data = Inr (lp_fragseq st))"

lemma match_packet_own: "matches m ft data st \<Longrightarrow> match_packet m frag_maxsize ft (data, addr, len) st = Inr (True, st)"
  by (cases ft) (auto simp: matches_def match_packet_def key_eq_def is_same_optype_refl split: option.splits)

definition ring_room :: "nat \<Rightarrow> pkt_ring_buffer option \<Rightarrow> bool" where
  "ring_room n x \<longleftrightarrow> (case x of None \<Rightarrow> n = 0 | Some r \<Rightarrow> rb_ok r \<and> length (rb_contents r) + n < unat (rb_capacity r))"

definition ring_grows :: "(pkt_info \<times> byte list) list \<Rightarrow> pkt_ring_buffer option \<Rightarrow> pkt_ring_buffer option \<Rightarrow> bool" where
  "ring_grows es x y \<longleftrightarrow> (case (x, y) of (None, None) \<Rightarrow> es = []
     | (Some r, Some r') \<Rightarrow> rb_ok r' \<and> rb_capacity r' = rb_capacity r \<and> rb_contents r' = rb_contents r @ es | _ \<Rightarrow> False)"

lemma match_packet_small:
  assumes "get_packet_type data = Inr t" "get_packet_key m data = Inr k" "\<not> is_packet_with_largevalue t" "length data \<le> 8388608"
    "lp_ring st = Some r" "rb_ok r" "length (rb_contents r) + 1 < unat (rb_capacity r)"
  shows "\<exists>r'. match_packet m frag_maxsize IP_FRAGTYPE (data, addr, len) st = Inr (False, st\<lparr>lp_ring := Some r'\<rparr>) \<and> rb_ok r' \<and>
    rb_capacity r' = rb_capacity r \<and> rb_contents r' = rb_contents r @ [small_entry t k addr len data]"
proof -
  have room: "(length (rb_contents r) = unat (rb_capacity r) - 1) = False" using assms(7) by simp
  obtain r' where r': "rb_push t k (Some data) addr len r = Inr (True, r')" "rb_ok r'" "rb_capacity r' = rb_capacity r"
      "rb_contents r' = rb_contents r @ [small_entry t k addr len data]"
    using rb_push_spec [OF assms(6,4), of t k addr len] unfolding room if_False small_entry_def by auto
  then have "match_packet m frag_maxsize IP_FRAGTYPE (data, addr, len) st = Inr (False, st\<lparr>lp_ring := Some r'\<rparr>)"
    using assms(1-3,5) by (simp add: match_packet_def)
  with r'(2-4) show ?thesis by blast
qed

lemma kept_length: "list_all (event_ok m n N) es \<Longrightarrow> length (kept m es) + length (own_idxs es) = length es"
  by (induction m es rule: kept.induct) (auto split: sum.splits)

lemma own_idxs_last: "es \<noteq> [] \<Longrightarrow> is_own (last es) \<Longrightarrow> own_idxs es \<noteq> []"
  by (induction es rule: own_idxs.induct) (auto split: if_splits)

lemma recv_more_eq:
  assumes base: "0 < body" "hdr \<le> length msg" "length msg \<le> 8388608" "fragnum hdr body msg < 65536" "hdr + 4 + body \<le> fragbuf_maxsize"
      "fragbuf_maxsize \<le> 8388608"
    and es: "list_all (event_ok m fragbuf_maxsize (fragnum hdr body msg)) es" "es \<noteq> []" "is_own (last es)"
    and count: "length is + length (own_idxs es) = fragnum hdr body msg"
    and st: "collecting hdr body msg is st" "\<forall>i < fragnum hdr body msg. matches m ft (fragment hdr body msg i) st"
    and rbuf: "ring_room (length (kept m es)) (lp_ring st)" "lp_ring st \<noteq> None \<longrightarrow> ft = IP_FRAGTYPE"
  shows "\<exists>res. recv_more m frag_maxsize fragbuf_maxsize ft src (map (wire hdr body msg) es @ rest) st = Inr res \<and> \<not> rr_timeout res \<and>
    da_bytes (rr_buf res) = assembled hdr body msg (is @ own_idxs es) \<and> rr_src res = src \<and> rr_rest res = rest \<and>
    ring_grows (kept m es) (lp_ring st) (rr_ring res)"
  using es count st rbuf
proof (induction es arbitrary: "is" st)
  case (Cons e es)
  let ?N = "fragnum hdr body msg"
  show ?case
  proof (cases e)
    case (Own i addr len)
    have i: "i < ?N" using Cons.prems(1) by (simp add: Own)
    have data: "take fragbuf_maxsize (fragment hdr body msg i) = fragment hdr body msg i"
      using fragment_fields(6) [OF base(2), of body i] base(5) by simp
    obtain d where d: "store_fragment ft (fragment hdr body msg i) st = Inr (st\<lparr>lp_buf := d, lp_curfragnum := lp_curfragnum st + 1\<rparr>)"
        "collecting hdr body msg (is @ [i]) (st\<lparr>lp_buf := d, lp_curfragnum := lp_curfragnum st + 1\<rparr>)"
      using store_fragment_eq [OF base(1-4) Cons.prems(5) i] by blast
    let ?st = "st\<lparr>lp_buf := d, lp_curfragnum := lp_curfragnum st + 1\<rparr>"
    have hdr: "lp_hdrsize st + 2 + 2 \<le> length (fragment hdr body msg i)"
      using fragment_fields(5) [OF base(2), of body i] Cons.prems(5) by (simp add: collecting_def)
    have match: "match_packet m frag_maxsize ft (fragment hdr body msg i, addr, len) st = Inr (True, st)"
      using Cons.prems(6) i by (intro match_packet_own) simp
    have cnt: "lp_maxfragnum ?st = of_nat ?N" "lp_curfragnum ?st = of_nat (Suc (length is))" using d(2) by (simp_all add: collecting_def)
    have step: "recv_more m frag_maxsize fragbuf_maxsize ft src (map (wire hdr body msg) (e # es) @ rest) st =
        (if lp_maxfragnum ?st \<le> lp_curfragnum ?st
         then Inr \<lparr>rr_timeout = False, rr_buf = lp_buf ?st, rr_ring = lp_ring ?st, rr_src = src, rr_rest = map (wire hdr body msg) es @ rest\<rparr>
         else recv_more m frag_maxsize fragbuf_maxsize ft src (map (wire hdr body msg) es @ rest) ?st)"
      using match hdr d(1) by (simp add: Own data Let_def del: recv_more.simps add: recv_more.simps(2))
    show ?thesis
    proof (cases es)
      case Nil
      then have "Suc (length is) = ?N" using Cons.prems(4) by (simp add: Own)
      then show ?thesis using step cnt d(2) Nil Cons.prems(7)
        by (auto simp: Own collecting_def ring_grows_def ring_room_def split: option.splits)
    next
      case (Cons e' es')
      have last: "is_own (last es)" "es \<noteq> []" using Cons.prems(3) Cons by auto
      have more: "Suc (length is) < ?N" using own_idxs_last [OF last(2,1)] Cons.prems(4) by (cases "own_idxs es") (simp_all add: Own)
      then have "\<not> lp_maxfragnum ?st \<le> lp_curfragnum ?st"
        unfolding cnt using base(4) by (simp add: word_le_nat_alt unat_of_nat del: of_nat_Suc)
      moreover have "\<exists>res. recv_more m frag_maxsize fragbuf_maxsize ft src (map (wire hdr body msg) es @ rest) ?st = Inr res \<and> \<not> rr_timeout res \<and>
          da_bytes (rr_buf res) = assembled hdr body msg ((is @ [i]) @ own_idxs es) \<and> rr_src res = src \<and> rr_rest res = rest \<and>
          ring_grows (kept m es) (lp_ring ?st) (rr_ring res)"
        by (rule Cons.IH [OF _ last(2,1) _ d(2)]) (use Cons.prems in \<open>simp_all add: Own matches_def\<close>)
      ultimately show ?thesis using step by (simp add: Own)
    qed
  next
    case (Other data addr len)
    obtain t k where p: "get_packet_type data = Inr t" "get_packet_key m data = Inr k" "\<not> is_packet_with_largevalue t" "length data \<le> fragbuf_maxsize"
      using Cons.prems(1) by (auto simp: Other split: sum.splits)
    have k: "kept m (e # es) = small_entry t k addr len data # kept m es" by (simp add: Other p)
    obtain r where r: "lp_ring st = Some r" "rb_ok r" "length (rb_contents r) + Suc (length (kept m es)) < unat (rb_capacity r)" "ft = IP_FRAGTYPE"
      using Cons.prems(7,8) unfolding k by (auto simp: ring_room_def split: option.splits)
    obtain r' where r': "match_packet m frag_maxsize ft (data, addr, len) st = Inr (False, st\<lparr>lp_ring := Some r'\<rparr>)" "rb_ok r'"
        "rb_capacity r' = rb_capacity r" "rb_contents r' = rb_contents r @ [small_entry t k addr len data]"
      using match_packet_small [OF p(1-3) _ r(1,2), of frag_maxsize addr len] p(4) base(6) r(3,4) by auto
    have ne: "es \<noteq> []" using Cons.prems(3) by (auto simp: Other)
    have "\<exists>res. recv_more m frag_maxsize fragbuf_maxsize ft src (map (wire hdr body msg) es @ rest) (st\<lparr>lp_ring := Some r'\<rparr>) = Inr res \<and> \<not> rr_timeout res \<and>
        da_bytes (rr_buf res) = assembled hdr body msg (is @ own_idxs es) \<and> rr_src res = src \<and> rr_rest res = rest \<and>
        ring_grows (kept m es) (lp_ring (st\<lparr>lp_ring := Some r'\<rparr>)) (rr_ring res)"
      by (rule Cons.IH [OF _ ne]) (use Cons.prems ne r r' in \<open>auto simp: Other collecting_def matches_def ring_room_def\<close>)
    then show ?thesis using r'(1,3,4) r(1) p(4) unfolding k
      by (auto simp: Other Let_def ring_grows_def split: option.splits)
  qed
qed simp

text \<open>What the receiver reads from the header of a fragment.\<close>

definition header_read :: "method_id \<Rightarrow> nat \<Rightarrow> fragtype \<Rightarrow> pkt_ring_buffer option \<Rightarrow> nat \<Rightarrow> nat \<Rightarrow> net_key \<Rightarrow> optype \<Rightarrow> u16 \<Rightarrow> u32 \<Rightarrow> byte list \<Rightarrow> bool" where
  "header_read m frag_maxsize ft rbuf hdr frag_totalsize k t c q data \<longleftrightarrow>
     (if ft = UDP_FRAGTYPE then hdr = 0 \<and> frag_totalsize = frag_maxsize \<and> k = key_default \<and> t = 0 \<and> c = 0 \<and> q = 0 \<and> rbuf = None
      else get_packet_type data = Inr t \<and> is_packet_with_largevalue t \<and> get_frag_hdrsize m t = Inr hdr \<and> get_packet_key m data = Inr k \<and>
        (if rbuf = None then frag_totalsize = frag_maxsize \<and> c = 0 \<and> q = 0
         else get_frag_totalsize m t frag_maxsize = Inr frag_totalsize \<and> get_packet_clientlogicalidx m data = Inr c \<and>
           get_packet_fragseq m data = Inr q \<and> is_packet_with_clientlogicalidx t))"

lemma recv_first_step:
  fixes hdr frag_totalsize msg
  defines "body \<equiv> frag_totalsize - (hdr + 4)" and "n \<equiv> fragnum hdr (frag_totalsize - (hdr + 4)) msg"
  assumes base: "hdr + 4 < frag_totalsize" "hdr \<le> length msg" "length msg \<le> 8388608" "n < 65536" "frag_totalsize \<le> fragbuf_maxsize"
    and i: "i < n" and hdrs: "\<forall>i < n. header_read m frag_maxsize ft rbuf hdr frag_totalsize k t c q (fragment hdr body msg i)"
    and buf: "buf_ok buf" "da_bytes buf = []"
  shows "\<exists>st. collecting hdr body msg [i] st \<and> lp_ring st = rbuf \<and> (\<forall>j < n. matches m ft (fragment hdr body msg j) st) \<and>
    recv_first m frag_maxsize fragbuf_maxsize ft buf rbuf ((fragment hdr body msg i, addr, len) # as) =
      (if n \<le> 1
       then Inr \<lparr>rr_timeout = False, rr_buf = lp_buf st, rr_ring = rbuf, rr_src = Some (addr, len), rr_rest = as\<rparr>
       else recv_more m frag_maxsize fragbuf_maxsize ft (Some (addr, len)) as st)"
proof -
  let ?data = "fragment hdr body msg i"
  have body: "0 < body" and sz: "hdr + 4 + body = frag_totalsize" using base(1) by (simp_all add: body_def)
  have n: "n = fragnum hdr body msg" by (simp add: n_def body_def)
  note ff = fragment_fields [OF base(2), of body i]
  have data: "take fragbuf_maxsize ?data = ?data" using ff(6) base(5) sz by simp
  obtain d where d: "dynamic_memcpy buf 0 (take hdr msg) = Inr d" "buf_ok d" "da_bytes d = take hdr msg"
    using buf_memcpy [OF buf(1), of 0 "take hdr msg"] base(2,3) buf(2) by (auto simp: patch_append)
  let ?st0 = "\<lparr>lp_buf = d, lp_ring = rbuf, lp_hdrsize = hdr, lp_bodysize = body, lp_maxfragnum = of_nat n, lp_curfragnum = 0, lp_key = k,
    lp_optype = t, lp_clientlogicalidx = c, lp_fragseq = q, lp_clientaddr = addr, lp_clientaddrlen = len\<rparr>"
  have st0: "collecting hdr body msg [] ?st0" using d(2,3) by (simp add: collecting_def assembled_def n)
  obtain d' where d': "store_fragment ft ?data ?st0 = Inr (?st0\<lparr>lp_buf := d', lp_curfragnum := lp_curfragnum ?st0 + 1\<rparr>)"
      "collecting hdr body msg ([] @ [i]) (?st0\<lparr>lp_buf := d', lp_curfragnum := lp_curfragnum ?st0 + 1\<rparr>)"
    using store_fragment_eq [OF body base(2,3) _ st0] base(4) i unfolding n by blast
  let ?st = "?st0\<lparr>lp_buf := d', lp_curfragnum := lp_curfragnum ?st0 + 1\<rparr>"
  have fin: "(of_nat n :: u16) \<le> 1 \<longleftrightarrow> n \<le> 1" using base(4) by (simp add: word_le_nat_alt unat_of_nat)
  have e4: "hdr + 2 + 2 = hdr + 4" by simp
  have "recv_first m frag_maxsize fragbuf_maxsize ft buf rbuf ((?data, addr, len) # as) =
      (if n \<le> 1
       then Inr \<lparr>rr_timeout = False, rr_buf = lp_buf ?st, rr_ring = rbuf, rr_src = Some (addr, len), rr_rest = as\<rparr>
       else recv_more m frag_maxsize fragbuf_maxsize ft (Some (addr, len)) as ?st)"
    using hdrs [rule_format, OF i] d(1) d'(1) body base(1) ff sz
    unfolding n [symmetric] recv_first_def list.case prod.case Let_def data e4 header_read_def
    by (cases ft; cases rbuf) (auto simp: body_def [symmetric] fin)
  moreover have "matches m ft (fragment hdr body msg j) ?st" if "j < n" for j
    using hdrs [rule_format, OF that] by (auto simp: header_read_def matches_def split: if_splits)
  ultimately show ?thesis using d'(2) by (intro exI [of _ ?st]) simp
qed

lemma recv_first_eq:
  fixes hdr frag_totalsize msg
  defines "body \<equiv> frag_totalsize - (hdr + 4)" and "n \<equiv> fragnum hdr (frag_totalsize - (hdr + 4)) msg"
  assumes base: "hdr + 4 < frag_totalsize" "hdr \<le> length msg" "length msg \<le> 8388608" "n < 65536" "frag_totalsize \<le> fragbuf_maxsize"
      "fragbuf_maxsize \<le> 8388608"
    and es: "list_all (event_ok m fragbuf_maxsize n) (Own i addr len # es)" "is_own (last (Own i addr len # es))"
    and count: "length (own_idxs (Own i addr len # es)) = n"
    and hdrs: "\<forall>i < n. header_read m frag_maxsize ft rbuf hdr frag_totalsize k t c q (fragment hdr body msg i)"
    and buf: "buf_ok buf" "da_bytes buf = []" and room: "ring_room (length (kept m es)) rbuf"
  shows "\<exists>res. recv_first m frag_maxsize fragbuf_maxsize ft buf rbuf (map (wire hdr body msg) (Own i addr len # es) @ rest) = Inr res \<and> \<not> rr_timeout res \<and>
    da_bytes (rr_buf res) = assembled hdr body msg (own_idxs (Own i addr len # es)) \<and> rr_src res = Some (addr, len) \<and> rr_rest res = rest \<and>
    ring_grows (kept m es) rbuf (rr_ring res)"
proof -
  have body: "0 < body" and sz: "hdr + 4 + body = frag_totalsize" using base(1) by (simp_all add: body_def)
  have n: "n = fragnum hdr body msg" by (simp add: n_def body_def)
  have i: "i < n" using es(1) by simp
  obtain st where st: "collecting hdr body msg [i] st" "lp_ring st = rbuf" "\<forall>j < n. matches m ft (fragment hdr body msg j) st"
      "recv_first m frag_maxsize fragbuf_maxsize ft buf rbuf ((fragment hdr body msg i, addr, len) # map (wire hdr body msg) es @ rest) =
      (if n \<le> 1
       then Inr \<lparr>rr_timeout = False, rr_buf = lp_buf st, rr_ring = rbuf, rr_src = Some (addr, len), rr_rest = map (wire hdr body msg) es @ rest\<rparr>
       else recv_more m frag_maxsize fragbuf_maxsize ft (Some (addr, len)) (map (wire hdr body msg) es @ rest) st)"
    using recv_first_step [OF base(1-3) base(4) [unfolded n_def] base(5) i [unfolded n_def] hdrs [unfolded n_def body_def] buf]
    unfolding n_def body_def by blast
  have ip: "rbuf \<noteq> None \<longrightarrow> ft = IP_FRAGTYPE" using hdrs [rule_format, OF i] by (cases ft) (auto simp: header_read_def)
  show ?thesis
  proof (cases "es = []")
    case True
    then have "n = 1" using count by simp
    then show ?thesis using st True room by (auto simp: collecting_def ring_grows_def ring_room_def split: option.splits)
  next
    case False
    have "1 < n" using count own_idxs_last [OF False] es(2) False by (cases "own_idxs es") simp_all
    moreover have "\<exists>res. recv_more m frag_maxsize fragbuf_maxsize ft (Some (addr, len)) (map (wire hdr body msg) es @ rest) st = Inr res \<and>
      \<not> rr_timeout res \<and> da_bytes (rr_buf res) = assembled hdr body msg ([i] @ own_idxs es) \<and> rr_src res = Some (addr, len) \<and>
      rr_rest res = rest \<and> ring_grows (kept m es) (lp_ring st) (rr_ring res)"
      using False es count base sz st(2,3) room ip
      by (intro recv_more_eq [OF body base(2,3) _ _ base(6) _ False _ _ st(1)]) (auto simp: n [symmetric])
    ultimately show ?thesis using st(2,4) by simp
  qed
qed

text \<open>Too few fragments: the call times out and drops them.\<close>

lemma recv_more_timeout:
  assumes base: "0 < body" "hdr \<le> length msg" "length msg \<le> 8388608" "fragnum hdr body msg < 65536" "hdr + 4 + body \<le> fragbuf_maxsize"
    and es: "list_all (\<lambda>e. is_own e \<and> event_ok m fragbuf_maxsize (fragnum hdr body msg) e) es"
      "length is + length es < fragnum hdr body msg"
    and st: "collecting hdr body msg is st" "lp_ring st = None"
  shows "\<exists>res. recv_more m frag_maxsize fragbuf_maxsize UDP_FRAGTYPE src (map (wire hdr body msg) es) st = Inr res \<and> rr_timeout res \<and>
    da_bytes (rr_buf res) = []"
  using es st
proof (induction es arbitrary: "is" st)
  case Nil
  then show ?case using buf_clear [of "lp_buf st"] by (auto simp: collecting_def recv_timeout_def)
next
  case (Cons e es)
  obtain i addr len where e: "e = Own i addr len" "i < fragnum hdr body msg" using Cons.prems(1) by (cases e) auto
  have data: "take fragbuf_maxsize (fragment hdr body msg i) = fragment hdr body msg i"
    using fragment_fields(6) [OF base(2), of body i] base(5) by simp
  obtain d where d: "store_fragment UDP_FRAGTYPE (fragment hdr body msg i) st = Inr (st\<lparr>lp_buf := d, lp_curfragnum := lp_curfragnum st + 1\<rparr>)"
      "collecting hdr body msg (is @ [i]) (st\<lparr>lp_buf := d, lp_curfragnum := lp_curfragnum st + 1\<rparr>)"
    using store_fragment_eq [OF base(1-4) Cons.prems(3) e(2)] by blast
  let ?st = "st\<lparr>lp_buf := d, lp_curfragnum := lp_curfragnum st + 1\<rparr>"
  have cnt: "lp_maxfragnum ?st = of_nat (fragnum hdr body msg)" "lp_curfragnum ?st = of_nat (Suc (length is))"
    using d(2) by (simp_all add: collecting_def)
  have "\<not> lp_maxfragnum ?st \<le> lp_curfragnum ?st"
    unfolding cnt using base(4) Cons.prems(2) by (simp add: word_le_nat_alt unat_of_nat del: of_nat_Suc)
  moreover have "lp_hdrsize st + 2 + 2 \<le> length (fragment hdr body msg i)"
    using fragment_fields(5) [OF base(2), of body i] Cons.prems(3) by (simp add: collecting_def)
  moreover have "\<exists>res. recv_more m frag_maxsize fragbuf_maxsize UDP_FRAGTYPE src (map (wire hdr body msg) es) ?st = Inr res \<and> rr_timeout res \<and>
      da_bytes (rr_buf res) = []"
    by (rule Cons.IH [OF _ _ d(2)]) (use Cons.prems in auto)
  ultimately show ?case using d(1) by (simp add: e(1) data Let_def match_packet_def)
qed

lemma fragment_inject:
  assumes "i < 65536" "j < 65536" "hdr \<le> length msg" "fragment hdr body msg i = fragment hdr body msg j"
  shows "i = j"
proof -
  have "(of_nat i :: u16) = of_nat j"
    using fragment_fields(1) [OF assms(3), of body i] fragment_fields(1) [OF assms(3), of body j] assms(4) by simp
  then have "unat (of_nat i :: u16) = unat (of_nat j :: u16)" by simp
  then show ?thesis using assms(1,2) by (simp add: unat_of_nat)
qed

text \<open>Datagrams that are fragments of the message, as events.\<close>

lemma arrivals_events:
  assumes "fst ` set as \<subseteq> set (map (fragment hdr body msg) [0..<n])"
  shows "\<exists>es. as = map (wire hdr body msg) es \<and> list_all (\<lambda>e. is_own e \<and> event_ok m sz n e) es \<and> length (own_idxs es) = length es \<and>
    fst ` set as = fragment hdr body msg ` set (own_idxs es)"
  using assms
proof (induction as)
  case (Cons a as)
  obtain data addr len where a: "a = (data, addr, len)" by (cases a)
  obtain i where i: "data = fragment hdr body msg i" "i < n" using Cons.prems by (auto simp: a)
  obtain es where "as = map (wire hdr body msg) es" "list_all (\<lambda>e. is_own e \<and> event_ok m sz n e) es" "length (own_idxs es) = length es"
      "fst ` set as = fragment hdr body msg ` set (own_idxs es)"
    using Cons.IH Cons.prems by auto
  then show ?case using a i by (intro exI [of _ "Own i addr len # es"]) auto
qed auto

lemma fragnum_small:
  assumes "length msg \<le> 8388608" "129 \<le> body"
  shows "fragnum hdr body msg < 65536"
proof (cases "hdr < length msg")
  case True
  have "\<not> hdr + body * 65535 < length msg" using assms mult_le_mono1 [OF assms(2), of 65535] by linarith
  then show ?thesis using less_fragnum [of body hdr msg 65535] assms(2) True by linarith
qed (simp add: fragnum_def)

lemma all_own: "list_all (\<lambda>e. is_own e \<and> P e) es \<Longrightarrow> list_all P es \<and> kept m es = [] \<and> (es \<noteq> [] \<longrightarrow> is_own (last es))"
  by (induction m es rule: kept.induct) auto

text \<open>C7: large messages between controller, switch operating system and servers. Every message up to the capacity of the
  receiver is cut into fragments, and \<^verbatim>\<open>udprecvlarge\<close> returns it as soon as every fragment has arrived, in whatever order, and
  leaves later datagrams on the socket; while fragments are missing it times out with an empty buffer. It counts
  fragments and not indices: as many datagrams as there are fragments always end the call, also if one arrived twice and
  another is missing.\<close>

theorem udp_message_delivered:
  assumes "length msg \<le> 8388608" "buf_ok buf" "da_bytes buf = []"
  shows "\<exists>fs. udpsendlarge_udpfrag msg = Inr fs \<and>
    (\<forall>arrivals rest. length arrivals = length fs \<and> fst ` set arrivals \<subseteq> set fs \<longrightarrow>
      (\<exists>res. udprecvlarge_udpfrag m buf (arrivals @ rest) = Inr res \<and> \<not> rr_timeout res \<and> rr_rest res = rest \<and>
        rr_src res = Some (snd (hd arrivals)) \<and> (fst ` set arrivals = set fs \<longrightarrow> da_bytes (rr_buf res) = msg))) \<and>
    (\<forall>arrivals. length arrivals < length fs \<and> fst ` set arrivals \<subseteq> set fs \<longrightarrow>
      (\<exists>res. udprecvlarge_udpfrag m buf arrivals = Inr res \<and> rr_timeout res \<and> da_bytes (rr_buf res) = []))"
proof -
  define body where "body = UDP_FRAGMENT_MAXSIZE - (0 + 4)"
  define n where "n = fragnum 0 body msg"
  have body: "body = 65503" by (simp add: body_def UDP_FRAGMENT_MAXSIZE_def)
  have n: "n < 65536" "0 < n" using fragnum_small [OF assms(1), of body 0] fragnum_pos [of body 0 msg] by (simp_all add: body n_def)
  let ?fs = "map (fragment 0 body msg) [0..<n]"
  have send: "udpsendlarge_udpfrag msg = Inr ?fs"
    using udpsendlarge_eq [of 0 msg UDP_FRAGMENT_MAXSIZE] n(1) unfolding body_def [symmetric] n_def [symmetric]
    by (simp add: udpsendlarge_udpfrag_def UDP_FRAGMENT_MAXSIZE_def)
  have hdrs: "header_read m UDP_FRAGMENT_MAXSIZE UDP_FRAGTYPE None 0 UDP_FRAGMENT_MAXSIZE key_default 0 0 0 data" for data
    by (simp add: header_read_def)
  have recv: "udprecvlarge_udpfrag m buf as = recv_first m UDP_FRAGMENT_MAXSIZE UDP_FRAGMENT_MAXSIZE UDP_FRAGTYPE buf None as" for as
    by (simp add: udprecvlarge_udpfrag_def udprecvlarge_def)
  have "\<exists>res. udprecvlarge_udpfrag m buf (as @ rest) = Inr res \<and> \<not> rr_timeout res \<and> rr_rest res = rest \<and>
      rr_src res = Some (snd (hd as)) \<and> (fst ` set as = set ?fs \<longrightarrow> da_bytes (rr_buf res) = msg)"
    if as: "length as = n" "fst ` set as \<subseteq> set ?fs" for as rest
  proof -
    obtain es where es: "as = map (wire 0 body msg) es" "list_all (\<lambda>e. is_own e \<and> event_ok m UDP_FRAGMENT_MAXSIZE n e) es"
        "length (own_idxs es) = length es" "fst ` set as = fragment 0 body msg ` set (own_idxs es)"
      using arrivals_events [OF as(2)] by blast
    obtain i addr len es' where e: "es = Own i addr len # es'"
      using es(2) as(1) n(2) by (cases es; cases "hd es") (auto simp: es(1))
    note own = all_own [OF es(2), of m]
    obtain res where res: "udprecvlarge_udpfrag m buf (as @ rest) = Inr res" "\<not> rr_timeout res"
        "da_bytes (rr_buf res) = assembled 0 body msg (own_idxs es)" "rr_src res = Some (addr, len)" "rr_rest res = rest"
      using recv_first_eq [of 0 UDP_FRAGMENT_MAXSIZE msg UDP_FRAGMENT_MAXSIZE m i addr len es' UDP_FRAGMENT_MAXSIZE UDP_FRAGTYPE None key_default 0 0 0 buf rest,
          folded body_def, folded n_def] own es as(1) assms n hdrs
      unfolding recv e by (auto simp: UDP_FRAGMENT_MAXSIZE_def ring_room_def)
    have "set (own_idxs es) = {..<n}" if "fst ` set as = set ?fs"
    proof -
      have lt: "set (own_idxs es) \<subseteq> {..<n}" using es(2) by (induction es rule: own_idxs.induct) auto
      have "inj_on (fragment 0 body msg) {..<n}" using n(1) by (auto intro!: inj_onI fragment_inject [of _ _ 0 msg body])
      moreover have "fragment 0 body msg ` set (own_idxs es) = fragment 0 body msg ` {..<n}" using that es(4) by (auto simp: atLeast0LessThan)
      ultimately show ?thesis using lt by (meson inj_on_image_eq_iff order_refl)
    qed
    then show ?thesis using res assembled_all [of body 0 msg "own_idxs es"] by (auto simp: body n_def es(1) e)
  qed
  moreover have "\<exists>res. udprecvlarge_udpfrag m buf as = Inr res \<and> rr_timeout res \<and> da_bytes (rr_buf res) = []"
    if as: "length as < n" "fst ` set as \<subseteq> set ?fs" for as
  proof (cases as)
    case Nil
    then show ?thesis using buf_clear [OF assms(2)] by (auto simp: recv recv_first_def)
  next
    case (Cons a as')
    obtain es where es: "as = map (wire 0 body msg) es" "list_all (\<lambda>e. is_own e \<and> event_ok m UDP_FRAGMENT_MAXSIZE n e) es"
      using arrivals_events [OF as(2)] by blast
    obtain i addr len es' where e: "es = Own i addr len # es'" using es(2) Cons by (cases es; cases "hd es") (auto simp: es(1))
    have "129 \<le> body" "0 < body" by (simp_all add: body)
    obtain st where st: "collecting 0 body msg [i] st" "lp_ring st = None"
        "recv_first m UDP_FRAGMENT_MAXSIZE UDP_FRAGMENT_MAXSIZE UDP_FRAGTYPE buf None ((fragment 0 body msg i, addr, len) # map (wire 0 body msg) es') =
        (if n \<le> 1 then Inr \<lparr>rr_timeout = False, rr_buf = lp_buf st, rr_ring = None, rr_src = Some (addr, len), rr_rest = map (wire 0 body msg) es'\<rparr>
         else recv_more m UDP_FRAGMENT_MAXSIZE UDP_FRAGMENT_MAXSIZE UDP_FRAGTYPE (Some (addr, len)) (map (wire 0 body msg) es') st)"
      using recv_first_step [of 0 UDP_FRAGMENT_MAXSIZE msg UDP_FRAGMENT_MAXSIZE i m UDP_FRAGMENT_MAXSIZE UDP_FRAGTYPE None key_default 0 0 0 buf addr len
          "map (wire 0 body msg) es'", folded body_def, folded n_def] assms n(1) hdrs es(2)
      unfolding e by (auto simp: UDP_FRAGMENT_MAXSIZE_def)
    have "\<exists>res. recv_more m UDP_FRAGMENT_MAXSIZE UDP_FRAGMENT_MAXSIZE UDP_FRAGTYPE (Some (addr, len)) (map (wire 0 body msg) es') st = Inr res \<and>
        rr_timeout res \<and> da_bytes (rr_buf res) = []"
      using es as(1) n(1) by (intro recv_more_timeout [OF \<open>0 < body\<close> _ assms(1) _ _ _ _ st(1,2)]) (auto simp: e n_def body UDP_FRAGMENT_MAXSIZE_def)
    moreover have "1 < n" using as(1) Cons by simp
    ultimately show ?thesis using st(3) by (simp add: recv es(1) e)
  qed
  ultimately show ?thesis using send by auto
qed

theorem udp_message_delivered_witness:
  "\<exists>d fs res. da_new 40960 8388608 = Inr d \<and> udpsendlarge_udpfrag (replicate 70000 7) = Inr fs \<and> length fs = 2 \<and>
     udprecvlarge_udpfrag FARREACH_ID d [(fs ! 1, sockaddr_zero, 16), (fs ! 0, sockaddr_zero, 16)] = Inr res \<and> da_bytes (rr_buf res) = replicate 70000 7"
proof -
  obtain d where d: "da_new 40960 8388608 = Inr d" "buf_ok d" "da_bytes d = []"
    using da_ok_init [of 40960 8388608] by (auto simp: buf_ok_def)
  have "length (replicate 70000 (7 :: byte)) \<le> 8388608" by simp
  from udp_message_delivered [OF this d(2,3), of FARREACH_ID]
  obtain fs where fs: "udpsendlarge_udpfrag (replicate 70000 7) = Inr fs"
      "\<forall>arrivals rest. length arrivals = length fs \<and> fst ` set arrivals \<subseteq> set fs \<longrightarrow>
      (\<exists>res. udprecvlarge_udpfrag FARREACH_ID d (arrivals @ rest) = Inr res \<and> \<not> rr_timeout res \<and> rr_rest res = rest \<and>
        rr_src res = Some (snd (hd arrivals)) \<and> (fst ` set arrivals = set fs \<longrightarrow> da_bytes (rr_buf res) = replicate 70000 7))"
    by auto
  have "fragnum 0 65503 (replicate 70000 (7 :: byte)) = 2" by (simp add: fragnum_def)
  then have "udpsendlarge_udpfrag (replicate 70000 7) = Inr (map (fragment 0 65503 (replicate 70000 7)) [0..<2])"
    using udpsendlarge_eq [of 0 "replicate 70000 (7 :: byte)" UDP_FRAGMENT_MAXSIZE]
    by (simp add: udpsendlarge_udpfrag_def UDP_FRAGMENT_MAXSIZE_def del: upt.simps)
  then have len: "length fs = 2" using fs(1) by simp
  then obtain f0 f1 where f: "fs = [f0, f1]" by (auto simp: length_Suc_conv numeral_2_eq_2)
  show ?thesis
    using fs(2) [rule_format, of "[(f1, sockaddr_zero, 16), (f0, sockaddr_zero, 16)]" "[]"] fs(1) len d(1) by (auto simp: f insert_commute)
qed

section \<open>Large requests at a server\<close>

definition large_header :: "packet \<Rightarrow> byte list" where
  "large_header p = ophdr_bytes p @ (if pk_type p \<in> set large_seq_types then largeseq_hdr p else []) @
     le16 (htons (pk_client_logical_idx p)) @ le32 (htonl (pk_fragseq p))"

definition header_extra :: "packet \<Rightarrow> nat" where
  "header_extra p = (if pk_type p \<in> set large_seq_types then 6 + (if pk_methodid p = FARREACH_ID then 4 else 0) else 0)"

lemma length_large_header: "length (large_header p) = ophdrsize (pk_methodid p) + header_extra p + 6"
  by (simp add: large_header_def header_extra_def largeseq_hdr_def length_ophdr_bytes)

lemma ophdrsize_le: "ophdrsize m \<le> 22"
  by (simp add: ophdrsize_def)

lemma ip_totalsize:
  assumes "sendable p" "pk_type p \<in> set (LOADREQ # PUTREQ_LARGEVALUE # large_seq_types)"
  shows "get_frag_totalsize (pk_methodid p) (pk_type p) IP_FRAGMENT_MAXSIZE = Inr (IP_FRAGMENT_MAXSIZE + header_extra p)"
  using large_header_sizes(5) [OF assms, folded header_extra_def, of IP_FRAGMENT_MAXSIZE] by (simp add: header_extra_def IP_FRAGMENT_MAXSIZE_def)

lemma large_header_read:
  assumes "sendable p" "pk_type p \<in> set (LOADREQ # PUTREQ_LARGEVALUE # large_seq_types)"
  shows "header_read (pk_methodid p) IP_FRAGMENT_MAXSIZE IP_FRAGTYPE (Some r) (length (large_header p)) (IP_FRAGMENT_MAXSIZE + header_extra p)
    (pk_key p) (pk_type p) (pk_client_logical_idx p) (pk_fragseq p) (large_header p @ rest)"
proof -
  define mid where "mid = (if pk_type p \<in> set large_seq_types then largeseq_hdr p else [])"
  have mid: "length mid = header_extra p" by (simp add: mid_def header_extra_def largeseq_hdr_def)
  note sizes = large_header_sizes [OF assms, folded header_extra_def]
  have data: "large_header p @ rest = ophdr_bytes p @ mid @ le16 (htons (pk_client_logical_idx p)) @ le32 (htonl (pk_fragseq p)) @ rest"
    by (simp add: large_header_def mid_def)
  note large_fields [OF assms(1) sizes(1) [folded mid] data]
  then show ?thesis using sizes(1-4) ip_totalsize [OF assms] by (simp add: header_read_def length_large_header)
qed

text \<open>C6: large requests at a server. Every large request, put or load, up to the capacity of the server is cut into fragments, and
  \<^verbatim>\<open>udprecvlarge_ipfrag\<close> of the server returns it, with the address of the sender of the first fragment, once all fragments
  have arrived in any order. Small requests of other clients that arrive in between are neither lost nor reordered: they
  wait in the ring buffer in the order of their arrival.\<close>

theorem server_receives_large:
  assumes "sendable p" "pk_type p \<in> set (LOADREQ # PUTREQ_LARGEVALUE # large_seq_types)" "msg = large_header p @ payload" "length msg \<le> 8388608"
    "buf_ok buf" "da_bytes buf = []" "rb_ok r" "rb_contents r = []"
  shows "\<exists>hdr maxsize n. get_frag_hdrsize (pk_methodid p) (pk_type p) = Inr hdr \<and>
    get_frag_totalsize (pk_methodid p) (pk_type p) IP_FRAGMENT_MAXSIZE = Inr maxsize \<and>
    udpsendlarge msg hdr maxsize = Inr (map (fragment hdr (maxsize - (hdr + 4)) msg) [0..<n]) \<and>
    (\<forall>es rest. es \<noteq> [] \<and> is_own (hd es) \<and> is_own (last es) \<and> distinct (own_idxs es) \<and> set (own_idxs es) = {..<n} \<and>
       list_all (event_ok (pk_methodid p) (IP_FRAGMENT_MAXSIZE + IP_FRAGMENT_RESERVESIZE) n) es \<and> length (kept (pk_methodid p) es) < unat (rb_capacity r) \<longrightarrow>
       (\<exists>res r'. udprecvlarge_ipfrag (pk_methodid p) buf (Some r) (map (wire hdr (maxsize - (hdr + 4)) msg) es @ rest) = Inr res \<and>
         \<not> rr_timeout res \<and> da_bytes (rr_buf res) = msg \<and> rr_src res = Some (snd (wire hdr (maxsize - (hdr + 4)) msg (hd es))) \<and> rr_rest res = rest \<and>
         rr_ring res = Some r' \<and> rb_ok r' \<and> rb_contents r' = kept (pk_methodid p) es))"
proof -
  let ?m = "pk_methodid p"
  define hdr where "hdr = length (large_header p)"
  define maxsize where "maxsize = IP_FRAGMENT_MAXSIZE + header_extra p"
  define body where "body = maxsize - (hdr + 4)"
  define n where "n = fragnum hdr body msg"
  note sizes = large_header_sizes [OF assms(1,2), folded header_extra_def]
  have sz: "hdr + 4 < maxsize" "129 \<le> body" "maxsize \<le> IP_FRAGMENT_MAXSIZE + IP_FRAGMENT_RESERVESIZE"
    using ophdrsize_le [of ?m] by (auto simp: hdr_def maxsize_def body_def length_large_header header_extra_def IP_FRAGMENT_MAXSIZE_def IP_FRAGMENT_RESERVESIZE_def)
  have hdr: "hdr \<le> length msg" "take hdr msg = large_header p" by (simp_all add: hdr_def assms(3))
  have n: "n < 65536" unfolding n_def by (rule fragnum_small [OF assms(4) sz(2)])
  have send: "udpsendlarge msg hdr maxsize = Inr (map (fragment hdr body msg) [0..<n])"
    using udpsendlarge_eq [OF hdr(1) sz(1), folded body_def, folded n_def] n by simp
  have read: "\<forall>i < n. header_read ?m IP_FRAGMENT_MAXSIZE IP_FRAGTYPE (Some r) hdr maxsize (pk_key p) (pk_type p) (pk_client_logical_idx p) (pk_fragseq p)
      (fragment hdr body msg i)"
    using large_header_read [OF assms(1,2), of r, folded hdr_def maxsize_def] by (simp add: fragment_def hdr(2))
  have "\<exists>res r'. udprecvlarge_ipfrag ?m buf (Some r) (map (wire hdr body msg) es @ rest) = Inr res \<and>
         \<not> rr_timeout res \<and> da_bytes (rr_buf res) = msg \<and> rr_src res = Some (snd (wire hdr body msg (hd es))) \<and> rr_rest res = rest \<and>
         rr_ring res = Some r' \<and> rb_ok r' \<and> rb_contents r' = kept ?m es"
    if es: "es \<noteq> []" "is_own (hd es)" "is_own (last es)" "distinct (own_idxs es)" "set (own_idxs es) = {..<n}"
      "list_all (event_ok ?m (IP_FRAGMENT_MAXSIZE + IP_FRAGMENT_RESERVESIZE) n) es" "length (kept ?m es) < unat (rb_capacity r)" for es rest
  proof -
    obtain i addr len es' where e: "es = Own i addr len # es'" using es(1,2) by (cases es; cases "hd es") auto
    have cnt: "length (own_idxs es) = n" using distinct_card [OF es(4)] es(5) by simp
    have room: "ring_room (length (kept ?m es')) (Some r)" using es(7) assms(7,8) by (simp add: ring_room_def e)
    have lim: "IP_FRAGMENT_MAXSIZE + IP_FRAGMENT_RESERVESIZE \<le> 8388608" by (simp add: IP_FRAGMENT_MAXSIZE_def IP_FRAGMENT_RESERVESIZE_def)
    have "udprecvlarge_ipfrag ?m buf (Some r) as = recv_first ?m IP_FRAGMENT_MAXSIZE (IP_FRAGMENT_MAXSIZE + IP_FRAGMENT_RESERVESIZE) IP_FRAGTYPE buf (Some r) as" for as
      using rb_pop_empty [OF assms(7,8), of buf] by (simp add: udprecvlarge_ipfrag_def udprecvlarge_def)
    moreover obtain res where "recv_first ?m IP_FRAGMENT_MAXSIZE (IP_FRAGMENT_MAXSIZE + IP_FRAGMENT_RESERVESIZE) IP_FRAGTYPE buf (Some r) (map (wire hdr body msg) es @ rest) = Inr res"
        "\<not> rr_timeout res" "da_bytes (rr_buf res) = assembled hdr body msg (own_idxs es)" "rr_src res = Some (addr, len)" "rr_rest res = rest"
        "ring_grows (kept ?m es') (Some r) (rr_ring res)"
      using recv_first_eq [OF sz(1) hdr(1) assms(4) n [unfolded n_def body_def] sz(3) lim es(6) [unfolded e n_def body_def] es(3) [unfolded e]
          cnt [unfolded e n_def body_def] read [unfolded n_def body_def] assms(5,6) room] unfolding e body_def by blast
    moreover have "assembled hdr body msg (own_idxs es) = msg"
      using assembled_all [of body hdr msg "own_idxs es"] sz(2) hdr(1) es(5) by (simp add: n_def)
    ultimately show ?thesis using assms(8) by (auto simp: e ring_grows_def split: option.splits)
  qed
  then show ?thesis using send sizes(2) ip_totalsize [OF assms(1,2)] unfolding body_def by (intro exI [of _ hdr] exI [of _ maxsize] exI [of _ n]) (auto simp: hdr_def maxsize_def length_large_header)
qed

definition demo_request :: packet where
  "demo_request = packet_default\<lparr>pk_methodid := FARREACH_ID, pk_type := LOADREQ, pk_key := Key 1 2 3 4, pk_client_logical_idx := 5\<rparr>"

definition demo_get :: "byte list" where
  "demo_get = ophdr_bytes (packet_default\<lparr>pk_methodid := FARREACH_ID, pk_type := GETREQ, pk_key := Key 5 6 7 8\<rparr>)"

theorem server_receives_large_witness:
  "\<exists>d r res r'. da_new 40960 8388608 = Inr d \<and> PktRingBuffer_new 0 8 = Inr r \<and>
     udprecvlarge_ipfrag FARREACH_ID d (Some r) (map (wire 24 1384 (large_header demo_request @ replicate 2000 9))
       [Own 1 sockaddr_zero 16, Other demo_get sockaddr_zero 16, Own 0 sockaddr_zero 16]) = Inr res \<and>
     da_bytes (rr_buf res) = large_header demo_request @ replicate 2000 9 \<and> rr_ring res = Some r' \<and> map snd (rb_contents r') = [demo_get]"
proof -
  let ?m = "pk_methodid demo_request" and ?t = "pk_type demo_request"
  define msg where "msg = large_header demo_request @ replicate 2000 (9 :: byte)"
  have p: "?m = FARREACH_ID" "?t = LOADREQ" "sendable demo_request" by (simp_all add: demo_request_def)
  have len: "length msg = 2024" by (simp add: msg_def length_large_header header_extra_def p large_seq_types_def ophdrsize_def is_singleswitch_def)
  have sizes: "get_frag_hdrsize ?m ?t = Inr 24" "get_frag_totalsize ?m ?t IP_FRAGMENT_MAXSIZE = Inr 1412"
    using large_header_sizes [OF p(3)] by (simp_all add: p large_seq_types_def ophdrsize_def is_singleswitch_def IP_FRAGMENT_MAXSIZE_def)
  obtain d where d: "da_new 40960 8388608 = Inr d" "buf_ok d" "da_bytes d = []"
    using da_ok_init [of 40960 8388608] by (auto simp: buf_ok_def)
  obtain r where r: "PktRingBuffer_new 0 8 = Inr r" "rb_ok r" "rb_contents r = []" "rb_capacity r = 8"
    using rb_new_spec [of 8 0] by auto
  have "fragnum 24 1384 msg = 2" by (simp add: fragnum_def len)
  then have two: "udpsendlarge msg 24 1412 = Inr (map (fragment 24 1384 msg) [0..<2])"
    using udpsendlarge_eq [of 24 msg 1412] len by (simp del: upt.simps)
  let ?es = "[Own 1 sockaddr_zero 16, Other demo_get sockaddr_zero 16, Own 0 sockaddr_zero 16]"
  obtain n where n: "udpsendlarge msg 24 1412 = Inr (map (fragment 24 1384 msg) [0..<n])"
      "\<forall>es rest. es \<noteq> [] \<and> is_own (hd es) \<and> is_own (last es) \<and> distinct (own_idxs es) \<and> set (own_idxs es) = {..<n} \<and>
       list_all (event_ok ?m (IP_FRAGMENT_MAXSIZE + IP_FRAGMENT_RESERVESIZE) n) es \<and> length (kept ?m es) < unat (rb_capacity r) \<longrightarrow>
       (\<exists>res r'. udprecvlarge_ipfrag ?m d (Some r) (map (wire 24 1384 msg) es @ rest) = Inr res \<and>
         \<not> rr_timeout res \<and> da_bytes (rr_buf res) = msg \<and> rr_src res = Some (snd (wire 24 1384 msg (hd es))) \<and> rr_rest res = rest \<and>
         rr_ring res = Some r' \<and> rb_ok r' \<and> rb_contents r' = kept ?m es)"
    using server_receives_large [OF p(3) _ msg_def _ d(2,3) r(2,3)] p(2) len sizes by auto
  have n2: "n = 2" using n(1) two by (metis Inr_inject length_map length_upt minus_nat.diff_0)
  have g: "get_packet_type demo_get = Inr GETREQ" "get_packet_key FARREACH_ID demo_get = Inr (Key 5 6 7 8)"
    using get_packet_type_ophdr [of "packet_default\<lparr>pk_methodid := FARREACH_ID, pk_type := GETREQ, pk_key := Key 5 6 7 8\<rparr>" "[]"]
      get_packet_key_ophdr [of "packet_default\<lparr>pk_methodid := FARREACH_ID, pk_type := GETREQ, pk_key := Key 5 6 7 8\<rparr>" "[]"]
    by (simp_all add: demo_get_def)
  have small: "\<not> is_packet_with_largevalue GETREQ" by (simp add: is_packet_with_largevalue_def optype_for_udprecvlarge_ipfrag_list_def)
  have short: "length demo_get \<le> 1476" by (simp add: demo_get_def length_ophdr_bytes ophdrsize_def is_singleswitch_def)
  have kept: "kept ?m ?es = [small_entry GETREQ (Key 5 6 7 8) sockaddr_zero 16 demo_get]" by (simp add: p(1) g)
  have ok: "?es \<noteq> [] \<and> is_own (hd ?es) \<and> is_own (last ?es) \<and> distinct (own_idxs ?es) \<and> set (own_idxs ?es) = {..<n} \<and>
      list_all (event_ok ?m (IP_FRAGMENT_MAXSIZE + IP_FRAGMENT_RESERVESIZE) n) ?es \<and> length (kept ?m ?es) < unat (rb_capacity r)"
    unfolding kept using g small short by (auto simp: n2 p(1) r(4) IP_FRAGMENT_MAXSIZE_def IP_FRAGMENT_RESERVESIZE_def)
  obtain res r' where res: "udprecvlarge_ipfrag ?m d (Some r) (map (wire 24 1384 msg) ?es @ []) = Inr res" "da_bytes (rr_buf res) = msg"
      "rr_ring res = Some r'" "rb_contents r' = kept ?m ?es"
    using n(2) [rule_format, OF ok, of "[]"] by blast
  have "map snd (rb_contents r') = [demo_get]" unfolding res(4) kept by (simp add: small_entry_def)
  then show ?thesis using d(1) r(1) res(1-3) unfolding p(1) append_Nil2 msg_def by metis
qed

end
