(* ===== verification/Del_Set.thy ===== *)
theory Del_Set
  imports Net_Key Net_Val Ordered_Map
begin

text \<open>
  The set of recently deleted keys a server keeps (src/common/deleted_set.h,
  src/common/deleted_set_impl.h, instantiated at \<^verbatim>\<open>netreach_key_t\<close> and \<^verbatim>\<open>uint32_t\<close>): two
  \<^verbatim>\<open>std::map\<close>s, from keys to the sequence number of the deletion and back. The second one finds the oldest
  tombstone when the set is full. The snapshot records (src/common/snapshot_record.h) are here too, since
  \<^verbatim>\<open>range_scan\<close> returns them. The locale \<^verbatim>\<open>tombstones\<close> is what the key-value store needs of the
  set; it is interpreted on these operations.
\<close>

section \<open>Snapshot records\<close>

record snapshot_record =
  sr_val :: net_val
  sr_seq :: u32
  sr_stat :: bool

definition snapshot_record_default :: snapshot_record where
  "snapshot_record_default = \<lparr>sr_val = val_default, sr_seq = 0, sr_stat = False\<rparr>"

definition snapshot_record_new :: "net_val \<Rightarrow> u32 \<Rightarrow> bool \<Rightarrow> snapshot_record" where
  "snapshot_record_new v seq stat = \<lparr>sr_val = v, sr_seq = seq, sr_stat = stat\<rparr>"

section \<open>The operations\<close>

record deleted_set =
  records_sorted_bykey :: "(net_key, u32) omap"
  records_sorted_byseq :: "(u32, net_key) omap"
  max_size :: u32

definition DeletedSet_new :: "u32 \<Rightarrow> u32 \<Rightarrow> deleted_set" where
  "DeletedSet_new c rtt = \<lparr>records_sorted_bykey = [], records_sorted_byseq = [], max_size = 10 * c * rtt\<rparr>"

definition ds_assign :: "deleted_set \<Rightarrow> deleted_set \<Rightarrow> deleted_set" where
  "ds_assign this other = this\<lparr>records_sorted_bykey := records_sorted_bykey other,
     records_sorted_byseq := records_sorted_byseq other\<rparr>"

text \<open>\<^verbatim>\<open>size()\<close> returns the \<^verbatim>\<open>size_t\<close> as an \<^verbatim>\<open>int\<close>.\<close>

definition ds_size :: "deleted_set \<Rightarrow> int" where
  "ds_size d = sint (of_nat (length (records_sorted_bykey d)) :: u32)"

definition ds_clear :: "deleted_set \<Rightarrow> deleted_set" where
  "ds_clear d = d\<lparr>records_sorted_bykey := [], records_sorted_byseq := []\<rparr>"

text \<open>\<^verbatim>\<open>begin()\<close> of an empty map must not be dereferenced.\<close>

definition ds_evict :: "deleted_set \<Rightarrow> deleted_set res" where
  "ds_evict d = (case records_sorted_byseq d of
      [] \<Rightarrow> Inl Undefined
    | (minseq, minseq_key) # rest \<Rightarrow>
        Inr (d\<lparr>records_sorted_byseq := rest, records_sorted_bykey := om_erase minseq_key (records_sorted_bykey d)\<rparr>))"

text \<open>The two insertions of \<^verbatim>\<open>add\<close> and \<^verbatim>\<open>load\<close>.\<close>

definition ds_insert :: "net_key \<Rightarrow> u32 \<Rightarrow> deleted_set \<Rightarrow> deleted_set" where
  "ds_insert key seq d = d\<lparr>records_sorted_bykey := fst (om_insert key seq (records_sorted_bykey d)),
     records_sorted_byseq := fst (om_insert seq key (records_sorted_byseq d))\<rparr>"

definition ds_add :: "net_key \<Rightarrow> u32 \<Rightarrow> deleted_set \<Rightarrow> deleted_set res" where
  "ds_add key seq d = (case om_find (records_sorted_bykey d) key of
      None \<Rightarrow>
        let d1 = ds_insert key seq d in
        if unat (max_size d1) < length (records_sorted_bykey d1) then ds_evict d1 else Inr d1
    | Some oldseq \<Rightarrow>
        Inr (if oldseq < seq
          then d\<lparr>records_sorted_bykey := om_set key seq (records_sorted_bykey d),
                 records_sorted_byseq := fst (om_insert seq key (om_erase oldseq (records_sorted_byseq d)))\<rparr>
          else d))"

text \<open>The second component is what the function stores through \<^verbatim>\<open>deleted_seq_ptr\<close>, if it stores
  anything.\<close>

definition check_and_remove :: "net_key \<Rightarrow> u32 \<Rightarrow> deleted_set \<Rightarrow> bool \<times> u32 option \<times> deleted_set" where
  "check_and_remove key seq d = (case om_find (records_sorted_bykey d) key of
      None \<Rightarrow> (False, None, d)
    | Some oldseq \<Rightarrow>
        if oldseq \<le> seq
        then (False, Some oldseq, d\<lparr>records_sorted_bykey := om_erase key (records_sorted_bykey d),
                                    records_sorted_byseq := om_erase oldseq (records_sorted_byseq d)\<rparr>)
        else (True, Some oldseq, d))"

definition ds_range_scan :: "net_key \<Rightarrow> net_key \<Rightarrow> deleted_set \<Rightarrow> (net_key \<times> snapshot_record) list res" where
  "ds_range_scan startkey endkey d = bind_res (get_scanrecordcnt startkey endkey) (\<lambda>scanrecordcnt.
     Inr (map (\<lambda>(k, seq). (k, snapshot_record_default\<lparr>sr_seq := seq, sr_stat := False\<rparr>))
       (take (nat scanrecordcnt) (om_lower_bound startkey (records_sorted_bykey d)))))"

section \<open>The file of a set\<close>

fun store_records :: "byte list \<Rightarrow> (net_key, u32) omap \<Rightarrow> byte list res" where
  "store_records buf [] = Inr []"
| "store_records buf ((k, seq) # m) =
     bind_res (wseq [key_serialize k, put_bytes (le32 seq)] (buf, 0)) (\<lambda>(buf', n).
     bind_res (store_records buf' m) (\<lambda>rest. Inr (take n buf' @ rest)))"

text \<open>\<^verbatim>\<open>buf\<close> is the uninitialised array of \<^verbatim>\<open>MAX_BUFSIZE\<close> bytes on the stack; the result is the
  content of the file.\<close>

definition ds_store :: "byte list \<Rightarrow> deleted_set \<Rightarrow> byte list res" where
  "ds_store buf d = bind_res (store_records buf (records_sorted_bykey d)) (\<lambda>recs.
     Inr (le32 (of_nat (length (records_sorted_bykey d))) @ recs))"

text \<open>\<^verbatim>\<open>filesize\<close> and \<^verbatim>\<open>remainsize\<close> are 32-bit numbers.\<close>

fun load_records :: "u32 \<Rightarrow> u32 \<Rightarrow> nat \<Rightarrow> wbuf \<Rightarrow> deleted_set \<Rightarrow> deleted_set res" where
  "load_records filesize remainsize 0 s d = Inr d"
| "load_records filesize remainsize (Suc n) s d =
     bind_res (key_deserialize s) (\<lambda>(k, s').
     bind_res (get32 s') (\<lambda>(seq, s'').
     let remainsize = remainsize - 16 - 4 in
     bind_res (invariant (remainsize \<le> filesize)) (\<lambda>_.
     load_records filesize remainsize n s'' (ds_insert k seq d))))"

definition ds_load :: "byte list option \<Rightarrow> deleted_set \<Rightarrow> deleted_set res" where
  "ds_load file d = (case file of
      None \<Rightarrow> Inl Abort
    | Some bytes \<Rightarrow>
        let filesize = (of_nat (length bytes) :: u32); content = take (unat filesize) bytes in
        bind_res (invariant (0 < filesize)) (\<lambda>_.
        bind_res (get32 (content, 0)) (\<lambda>(recordcnt, s).
        load_records filesize (filesize - 4) (unat recordcnt) s (ds_clear d))))"

section \<open>The invariant\<close>

definition ds_lookup :: "deleted_set \<Rightarrow> net_key \<Rightarrow> u32 option" where
  "ds_lookup d = om_find (records_sorted_bykey d)"

text \<open>Every entry of the second map points to an entry of the first that points back.\<close>

definition linked :: "('k::linorder, 's::linorder) omap \<Rightarrow> ('s, 'k) omap \<Rightarrow> bool" where
  "linked m n \<longleftrightarrow> om_ok m \<and> om_ok n \<and> list_all (\<lambda>(s, k). om_find m k = Some s) n"

definition ds_ok :: "deleted_set \<Rightarrow> bool" where
  "ds_ok d \<longleftrightarrow> linked (records_sorted_bykey d) (records_sorted_byseq d) \<and>
     length (records_sorted_bykey d) \<le> unat (max_size d)"

text \<open>No sequence number is shared by two tombstones.\<close>

definition ds_exact :: "deleted_set \<Rightarrow> bool" where
  "ds_exact d \<longleftrightarrow> ds_ok d \<and> linked (records_sorted_byseq d) (records_sorted_bykey d)"

lemma linked_iff: "linked m n \<longleftrightarrow> om_ok m \<and> om_ok n \<and> (\<forall>s k. om_find n s = Some k \<longrightarrow> om_find m k = Some s)"
  by (auto simp: linked_def list_all_iff om_find_iff)

lemma linked_Nil [simp]: "linked [] []"
  by (simp add: linked_def)

lemma linked_insert:
  assumes "linked m n" "om_find m k = None"
  shows "linked (fst (om_insert k s m)) (fst (om_insert s k n))"
  using assms by (auto simp: linked_iff split: option.splits)

lemma linked_update:
  assumes "linked m n" "om_find m k = Some old"
  shows "linked (om_set k s m) (fst (om_insert s k (om_erase old n)))"
  using assms by (auto simp: linked_iff split: option.splits if_splits)

lemma linked_erase:
  assumes "linked m n" "om_find m k = Some s"
  shows "linked (om_erase k m) (om_erase s n)"
  using assms by (auto simp: linked_iff split: if_splits)

text \<open>Seen from the second map an update is a removal and an insertion.\<close>

lemma linked_update_sym:
  assumes "linked n m" "om_find n old = Some k" "om_find n s = None"
  shows "linked (fst (om_insert s k (om_erase old n))) (om_set k s m)"
proof -
  have ok: "om_ok n" "om_ok m" using assms(1) by (auto simp: linked_iff)
  have none: "om_find (om_erase old n) s = None" using assms(3) ok by simp
  have "fst (om_insert k s (om_erase k m)) = om_set k s m"
    using ok by (intro om_ok_eqI) (auto simp: fun_eq_iff)
  then show ?thesis using linked_insert [OF linked_erase [OF assms(1,2)] none, of k] by simp
qed

lemma fresh_seq: "linked m n \<Longrightarrow> s \<notin> ran (om_find m) \<Longrightarrow> om_find n s = None"
  by (cases "om_find n s") (auto simp: linked_iff ran_def)

lemma ds_ok_new: "ds_ok (DeletedSet_new c rtt)" "ds_exact (DeletedSet_new c rtt)"
  by (simp_all add: ds_ok_def ds_exact_def linked_def DeletedSet_new_def)

lemma ds_ok_clear: "ds_ok (ds_clear d)" "ds_exact (ds_clear d)"
  by (simp_all add: ds_ok_def ds_exact_def linked_def ds_clear_def)

lemma ds_lookup_simps [simp]:
  "ds_lookup (DeletedSet_new c rtt) = Map.empty" "ds_lookup (ds_clear d) = Map.empty"
  by (simp_all add: ds_lookup_def DeletedSet_new_def ds_clear_def fun_eq_iff)

section \<open>What the operations do to the tombstones\<close>

text \<open>Filling up drops an entry the second map knows.\<close>

lemma ds_evict_spec:
  assumes "linked (records_sorted_bykey d) (records_sorted_byseq d)" "records_sorted_byseq d \<noteq> []"
  obtains minseq k d' where "ds_evict d = Inr d'" "linked (records_sorted_bykey d') (records_sorted_byseq d')"
    "ds_lookup d k = Some minseq" "ds_lookup d' = (ds_lookup d)(k := None)"
    "\<And>j s. om_find (records_sorted_byseq d) s = Some j \<Longrightarrow> minseq \<le> s"
    "length (records_sorted_bykey d') = length (records_sorted_bykey d) - 1" "max_size d' = max_size d"
    "linked (records_sorted_byseq d) (records_sorted_bykey d) \<Longrightarrow> linked (records_sorted_byseq d') (records_sorted_bykey d')"
proof -
  obtain minseq k rest where n: "records_sorted_byseq d = (minseq, k) # rest"
    using assms(2) by (cases "records_sorted_byseq d") auto
  define d' where "d' = d\<lparr>records_sorted_byseq := rest, records_sorted_bykey := om_erase k (records_sorted_bykey d)\<rparr>"
  have ok: "om_ok (records_sorted_bykey d)" "om_ok (records_sorted_byseq d)" using assms(1) by (auto simp: linked_iff)
  have k: "om_find (records_sorted_bykey d) k = Some minseq" using assms(1) n by (simp add: linked_iff)
  have rest: "om_erase minseq (records_sorted_byseq d) = rest" by (simp add: n)
  have "linked (records_sorted_bykey d') (records_sorted_byseq d')"
    using linked_erase [OF assms(1) k] unfolding rest by (simp add: d'_def)
  moreover have "linked (records_sorted_byseq d) (records_sorted_bykey d) \<Longrightarrow> linked (records_sorted_byseq d') (records_sorted_bykey d')"
    using linked_erase [of "records_sorted_byseq d" "records_sorted_bykey d" minseq k] unfolding rest by (simp add: d'_def n)
  moreover have "minseq \<le> s" if "om_find (records_sorted_byseq d) s = Some j" for s j
    using om_begin_least [of minseq k rest s j] that ok(2) n by simp
  moreover have "length (records_sorted_bykey d') = length (records_sorted_bykey d) - 1"
    using om.size_del [OF ok(1), of k] k by (simp add: d'_def)
  moreover have "ds_lookup d' = (ds_lookup d)(k := None)"
    using ok(1) by (simp add: ds_lookup_def d'_def fun_eq_iff)
  moreover have "ds_evict d = Inr d'" "max_size d' = max_size d" by (simp_all add: ds_evict_def n d'_def)
  ultimately show thesis using that [of d' k minseq] k unfolding ds_lookup_def by blast
qed

lemma ds_add_present:
  assumes "ds_ok d" "ds_lookup d k = Some old"
  obtains d' where "ds_add k s d = Inr d'" "ds_ok d'" "max_size d' = max_size d"
    "ds_lookup d' = (ds_lookup d)(k \<mapsto> max old s)"
    "ds_exact d \<Longrightarrow> s \<notin> ran (ds_lookup d) \<Longrightarrow> ds_exact d'"
proof -
  let ?m = "records_sorted_bykey d" and ?n = "records_sorted_byseq d"
  have ok: "linked ?m ?n" "om_ok ?m" "om_ok ?n" and old: "om_find ?m k = Some old"
    using assms by (auto simp: ds_ok_def linked_iff ds_lookup_def)
  show thesis
  proof (cases "old < s")
    case True
    let ?d = "d\<lparr>records_sorted_bykey := om_set k s ?m, records_sorted_byseq := fst (om_insert s k (om_erase old ?n))\<rparr>"
    have "ds_ok ?d"
      using assms(1) linked_update [OF ok(1) old] om.size_upd [OF ok(2), of k s] old by (simp add: ds_ok_def)
    moreover have "ds_exact ?d" if "ds_exact d" "s \<notin> ran (ds_lookup d)"
    proof -
      have "om_find ?n s = None" using fresh_seq [OF ok(1)] that(2) by (simp add: ds_lookup_def)
      moreover have "linked ?n ?m" "om_find ?n old = Some k" using that(1) old by (auto simp: ds_exact_def linked_iff)
      ultimately show ?thesis
        using \<open>ds_ok ?d\<close> linked_update_sym [of ?n ?m old k s] by (simp add: ds_exact_def)
    qed
    moreover have "ds_add k s d = Inr ?d" using True old by (simp add: ds_add_def)
    moreover have "ds_lookup ?d = (ds_lookup d)(k \<mapsto> max old s)" using True by (auto simp: ds_lookup_def fun_eq_iff max_def)
    ultimately show thesis by (intro that [of ?d]) simp_all
  next
    case False
    then have "(ds_lookup d)(k \<mapsto> max old s) = ds_lookup d" using assms(2) by (auto simp: max_def)
    then show thesis
      using False assms(1) old by (intro that [of d]) (auto simp: ds_add_def)
  qed
qed

lemma ds_add_fresh:
  assumes "ds_ok d" "ds_lookup d k = None"
  obtains d' where "ds_add k s d = Inr d'" "ds_ok d'" "max_size d' = max_size d"
    "length (records_sorted_bykey d) < unat (max_size d) \<Longrightarrow> ds_lookup d' = (ds_lookup d)(k \<mapsto> s)"
    "length (records_sorted_bykey d) = unat (max_size d) \<Longrightarrow> \<exists>e minseq. ((ds_lookup d)(k \<mapsto> s)) e = Some minseq \<and>
       ds_lookup d' = (ds_lookup d)(k \<mapsto> s, e := None) \<and>
       (ds_exact d \<and> s \<notin> ran (ds_lookup d) \<longrightarrow> (\<forall>t \<in> ran ((ds_lookup d)(k \<mapsto> s)). minseq \<le> t))"
    "ds_exact d \<Longrightarrow> s \<notin> ran (ds_lookup d) \<Longrightarrow> ds_exact d'"
proof -
  let ?m = "records_sorted_bykey d" and ?n = "records_sorted_byseq d"
  define d1 where "d1 = ds_insert k s d"
  have ok: "linked ?m ?n" "om_ok ?m" "om_ok ?n" "length ?m \<le> unat (max_size d)" and new: "om_find ?m k = None"
    using assms by (auto simp: ds_ok_def linked_iff ds_lookup_def)
  have d1: "linked (records_sorted_bykey d1) (records_sorted_byseq d1)" "ds_lookup d1 = (ds_lookup d)(k \<mapsto> s)"
    "length (records_sorted_bykey d1) = Suc (length ?m)" "max_size d1 = max_size d" "records_sorted_byseq d1 \<noteq> []"
    using linked_insert [OF ok(1) new] om.size_upd [OF ok(2), of k s] new
    by (auto simp: d1_def ds_insert_def ds_lookup_def fun_eq_iff om_insert_simps om_insert_def split: option.splits)
       (metis om_find_Nil om_find_om_set option.distinct(1))+
  have sym: "linked (records_sorted_byseq d1) (records_sorted_bykey d1)" if "ds_exact d" "s \<notin> ran (ds_lookup d)"
  proof -
    have "om_find ?n s = None" using fresh_seq [OF ok(1)] that(2) by (simp add: ds_lookup_def)
    then show ?thesis using linked_insert [of ?n ?m s k] that(1) by (simp add: d1_def ds_insert_def ds_exact_def)
  qed
  show thesis
  proof (cases "length ?m < unat (max_size d)")
    case True
    then have "ds_add k s d = Inr d1" using new d1 by (simp add: ds_add_def d1_def)
    then show thesis
      using True d1 sym by (intro that [of d1]) (simp_all add: ds_ok_def ds_exact_def)
  next
    case False
    then have "ds_add k s d = ds_evict d1" using new d1 by (simp add: ds_add_def d1_def)
    moreover obtain minseq e d' where e: "ds_evict d1 = Inr d'" "linked (records_sorted_bykey d') (records_sorted_byseq d')"
        "ds_lookup d1 e = Some minseq" "ds_lookup d' = (ds_lookup d1)(e := None)"
        "\<And>j s. om_find (records_sorted_byseq d1) s = Some j \<Longrightarrow> minseq \<le> s"
        "length (records_sorted_bykey d') = length (records_sorted_bykey d1) - 1" "max_size d' = max_size d1"
        "linked (records_sorted_byseq d1) (records_sorted_bykey d1) \<Longrightarrow> linked (records_sorted_byseq d') (records_sorted_bykey d')"
      using ds_evict_spec [OF d1(1,5)] by metis
    moreover have least: "\<forall>t \<in> ran (ds_lookup d1). minseq \<le> t" if "ds_exact d" "s \<notin> ran (ds_lookup d)"
      using sym [OF that] e(5) by (auto simp: linked_iff ran_def ds_lookup_def)
    have "\<exists>e minseq. ((ds_lookup d)(k \<mapsto> s)) e = Some minseq \<and> ds_lookup d' = (ds_lookup d)(k \<mapsto> s, e := None) \<and>
        (ds_exact d \<and> s \<notin> ran (ds_lookup d) \<longrightarrow> (\<forall>t \<in> ran ((ds_lookup d)(k \<mapsto> s)). minseq \<le> t))"
      using e(3,4) least unfolding d1(2) by blast
    moreover have "ds_ok d'" using e(2,6,7) d1(3,4) ok(4) by (simp add: ds_ok_def)
    ultimately show thesis
      using False e(7,8) d1(4) sym by (intro that [of d']) (simp_all add: ds_exact_def)
  qed
qed

lemma check_and_remove_spec:
  assumes "ds_ok d"
  shows "ds_ok (snd (snd (check_and_remove k s d)))"
    "ds_exact d \<Longrightarrow> ds_exact (snd (snd (check_and_remove k s d)))"
    "fst (check_and_remove k s d) \<longleftrightarrow> (\<exists>t. ds_lookup d k = Some t \<and> s < t)"
    "fst (snd (check_and_remove k s d)) = ds_lookup d k"
    "ds_lookup (snd (snd (check_and_remove k s d))) =
      (if \<exists>t. ds_lookup d k = Some t \<and> s < t then ds_lookup d else (ds_lookup d)(k := None))"
    "max_size (snd (snd (check_and_remove k s d))) = max_size d"
proof -
  let ?m = "records_sorted_bykey d" and ?n = "records_sorted_byseq d"
  have ok: "linked ?m ?n" "om_ok ?m" "om_ok ?n" "length ?m \<le> unat (max_size d)"
    using assms by (auto simp: ds_ok_def linked_iff)
  have erase: "ds_ok (d\<lparr>records_sorted_bykey := om_erase k ?m, records_sorted_byseq := om_erase t ?n\<rparr>)"
    "ds_exact d \<Longrightarrow> ds_exact (d\<lparr>records_sorted_bykey := om_erase k ?m, records_sorted_byseq := om_erase t ?n\<rparr>)"
    if "om_find ?m k = Some t" for t
  proof -
    have "om_find ?n t = Some k" if "ds_exact d" using that \<open>om_find ?m k = Some t\<close> by (simp add: ds_exact_def linked_iff)
    then show "ds_ok (d\<lparr>records_sorted_bykey := om_erase k ?m, records_sorted_byseq := om_erase t ?n\<rparr>)"
      "ds_exact d \<Longrightarrow> ds_exact (d\<lparr>records_sorted_bykey := om_erase k ?m, records_sorted_byseq := om_erase t ?n\<rparr>)"
      using that ok linked_erase [OF ok(1) that] om.size_del [OF ok(2), of k] linked_erase [of ?n ?m t k]
      by (auto simp: ds_ok_def ds_exact_def)
  qed
  show "ds_ok (snd (snd (check_and_remove k s d)))"
    "ds_exact d \<Longrightarrow> ds_exact (snd (snd (check_and_remove k s d)))"
    "fst (check_and_remove k s d) \<longleftrightarrow> (\<exists>t. ds_lookup d k = Some t \<and> s < t)"
    "fst (snd (check_and_remove k s d)) = ds_lookup d k"
    "ds_lookup (snd (snd (check_and_remove k s d))) =
      (if \<exists>t. ds_lookup d k = Some t \<and> s < t then ds_lookup d else (ds_lookup d)(k := None))"
    "max_size (snd (snd (check_and_remove k s d))) = max_size d"
    using assms erase ok by (auto simp: check_and_remove_def ds_lookup_def fun_eq_iff split: option.splits)
qed

section \<open>The interface the key-value store uses\<close>

datatype 'k ts_op = Add_op 'k u32 | Check_op 'k u32

fun run_ops :: "('k \<Rightarrow> u32 \<Rightarrow> 'd \<Rightarrow> 'd res) \<Rightarrow> ('k \<Rightarrow> u32 \<Rightarrow> 'd \<Rightarrow> bool \<times> u32 option \<times> 'd) \<Rightarrow> 'k ts_op list \<Rightarrow> 'd \<Rightarrow> 'd res" where
  "run_ops add check [] d = Inr d"
| "run_ops add check (Add_op k s # ops) d = bind_res (add k s d) (run_ops add check ops)"
| "run_ops add check (Check_op k s # ops) d = run_ops add check ops (snd (snd (check k s d)))"

text \<open>The same operations on a finite map without a capacity.\<close>

fun spec_op :: "'k ts_op \<Rightarrow> ('k \<Rightarrow> u32 option) \<Rightarrow> 'k \<Rightarrow> u32 option" where
  "spec_op (Add_op k s) m = m(k \<mapsto> (case m k of None \<Rightarrow> s | Some t \<Rightarrow> max t s))"
| "spec_op (Check_op k s) m = (case m k of None \<Rightarrow> m | Some t \<Rightarrow> if t \<le> s then m(k := None) else m)"

fun added :: "'k ts_op list \<Rightarrow> ('k \<times> u32) set" where
  "added [] = {}"
| "added (Add_op k s # ops) = insert (k, s) (added ops)"
| "added (Check_op k s # ops) = added ops"

lemma finite_added: "finite (added ops)"
  by (induction ops rule: added.induct) auto

locale tombstones =
  fixes lookup :: "'d \<Rightarrow> 'k \<Rightarrow> u32 option"
    and add :: "'k \<Rightarrow> u32 \<Rightarrow> 'd \<Rightarrow> 'd res"
    and check :: "'k \<Rightarrow> u32 \<Rightarrow> 'd \<Rightarrow> bool \<times> u32 option \<times> 'd"
    and room :: "'d \<Rightarrow> nat"
    and ok :: "'d \<Rightarrow> bool"
  assumes add_total: "ok d \<Longrightarrow> \<exists>d'. add k s d = Inr d' \<and> ok d' \<and> room d' = room d"
    and add_sub: "ok d \<Longrightarrow> add k s d = Inr d' \<Longrightarrow> lookup d' \<subseteq>\<^sub>m spec_op (Add_op k s) (lookup d)"
    and add_exact: "ok d \<Longrightarrow> add k s d = Inr d' \<Longrightarrow> card (dom ((lookup d)(k \<mapsto> s))) \<le> room d \<Longrightarrow>
      lookup d' = spec_op (Add_op k s) (lookup d)"
    and check_lookup: "ok d \<Longrightarrow> lookup (snd (snd (check k s d))) = spec_op (Check_op k s) (lookup d)"
    and check_result: "ok d \<Longrightarrow> fst (check k s d) \<longleftrightarrow> (\<exists>t. lookup d k = Some t \<and> s < t)"
    and check_ok: "ok d \<Longrightarrow> ok (snd (snd (check k s d))) \<and> room (snd (snd (check k s d))) = room d"
    and finite_lookup: "ok d \<Longrightarrow> finite (dom (lookup d))"
begin

lemma run_total: "ok d \<Longrightarrow> \<exists>d'. run_ops add check ops d = Inr d' \<and> ok d' \<and> room d' = room d"
proof (induction ops arbitrary: d)
  case (Cons a ops)
  then show ?case
    using add_total [of d] check_ok [of d] by (cases a) (metis bind_res_simps(1) run_ops.simps(2), metis run_ops.simps(3))
qed simp

text \<open>Every tombstone was put there by an \<^verbatim>\<open>add\<close>.\<close>

lemma run_sound:
  "ok d \<Longrightarrow> run_ops add check ops d = Inr d' \<Longrightarrow> lookup d' k = Some t \<Longrightarrow> lookup d k = Some t \<or> (k, t) \<in> added ops"
proof (induction ops arbitrary: d)
  case (Cons a ops)
  show ?case
  proof (cases a)
    case (Add_op j s)
    obtain d1 where d1: "add j s d = Inr d1" "ok d1" using add_total [OF Cons.prems(1)] by blast
    have "lookup d1 \<subseteq>\<^sub>m spec_op (Add_op j s) (lookup d)" using add_sub [OF Cons.prems(1) d1(1)] .
    then have "lookup d k = Some t \<or> (k, t) = (j, s)" if "lookup d1 k = Some t"
      using that by (auto simp: map_le_def max_def dest!: bspec [of _ _ k] split: if_splits option.splits)
    then show ?thesis using Cons.IH [OF d1(2)] Cons.prems(2,3) d1(1) Add_op by auto
  next
    case (Check_op j s)
    then show ?thesis
      using Cons.IH [of "snd (snd (check j s d))"] check_ok check_lookup Cons.prems
      by (force split: option.splits if_splits)
  qed
qed simp

text \<open>As long as the capacity suffices nothing is forgotten.\<close>

lemma run_exact:
  "ok d \<Longrightarrow> run_ops add check ops d = Inr d' \<Longrightarrow> card (dom (lookup d) \<union> fst ` added ops) \<le> room d \<Longrightarrow>
    lookup d' = fold spec_op ops (lookup d)"
proof (induction ops arbitrary: d)
  case (Cons a ops)
  have fin: "finite (dom (lookup d) \<union> fst ` added (a # ops))"
    using finite_lookup [OF Cons.prems(1)] finite_added by blast
  show ?case
  proof (cases a)
    case (Add_op j s)
    obtain d1 where d1: "add j s d = Inr d1" "ok d1" "room d1 = room d" using add_total [OF Cons.prems(1)] by blast
    have "card (dom ((lookup d)(j \<mapsto> s))) \<le> card (dom (lookup d) \<union> fst ` added (a # ops))"
      using fin by (intro card_mono) (auto simp: Add_op)
    then have eq: "lookup d1 = spec_op (Add_op j s) (lookup d)"
      using add_exact [OF Cons.prems(1) d1(1)] Cons.prems(3) by simp
    have "card (dom (lookup d1) \<union> fst ` added ops) \<le> card (dom (lookup d) \<union> fst ` added (a # ops))"
      using fin by (intro card_mono) (auto simp: Add_op eq split: if_splits)
    then have "card (dom (lookup d1) \<union> fst ` added ops) \<le> room d1" using Cons.prems(3) d1(3) by linarith
    from Cons.IH [OF d1(2) _ this] show ?thesis using Cons.prems(2) d1(1) unfolding Add_op eq by (simp del: spec_op.simps)
  next
    case (Check_op j s)
    let ?d = "snd (snd (check j s d))"
    have eq: "lookup ?d = spec_op (Check_op j s) (lookup d)" using check_lookup [OF Cons.prems(1)] .
    have "card (dom (lookup ?d) \<union> fst ` added ops) \<le> card (dom (lookup d) \<union> fst ` added (a # ops))"
      using fin by (intro card_mono) (auto simp: Check_op eq split: option.splits if_splits)
    then have "card (dom (lookup ?d) \<union> fst ` added ops) \<le> room ?d" using Cons.prems(3) check_ok [OF Cons.prems(1)] by simp
    from Cons.IH [OF _ _ this] show ?thesis
      using check_ok [OF Cons.prems(1)] Cons.prems(2) unfolding Check_op eq by (simp del: spec_op.simps)
  qed
qed simp

end

lemma ds_size_dom: "ds_ok d \<Longrightarrow> length (records_sorted_bykey d) = card (dom (ds_lookup d))"
  by (simp add: ds_ok_def linked_def ds_lookup_def om.size_dom)

lemma ds_add_total: "ds_ok d \<Longrightarrow> \<exists>d'. ds_add k s d = Inr d' \<and> ds_ok d' \<and> max_size d' = max_size d"
  by (cases "ds_lookup d k") (metis ds_add_fresh, metis ds_add_present)

lemma ds_add_sub:
  assumes d: "ds_ok d" and add: "ds_add k s d = Inr d'"
  shows "ds_lookup d' \<subseteq>\<^sub>m spec_op (Add_op k s) (ds_lookup d)"
proof (cases "ds_lookup d k")
  case None
  obtain d'' where d'': "ds_add k s d = Inr d''"
      "length (records_sorted_bykey d) < unat (max_size d) \<Longrightarrow> ds_lookup d'' = (ds_lookup d)(k \<mapsto> s)"
      "length (records_sorted_bykey d) = unat (max_size d) \<Longrightarrow> \<exists>e. ds_lookup d'' = (ds_lookup d)(k \<mapsto> s, e := None)"
    using ds_add_fresh [OF d None, of s] by metis
  have "length (records_sorted_bykey d) \<le> unat (max_size d)" using d by (simp add: ds_ok_def)
  then have "ds_lookup d'' \<subseteq>\<^sub>m (ds_lookup d)(k \<mapsto> s)"
    using d''(2,3) by (cases "length (records_sorted_bykey d) = unat (max_size d)") (auto simp: map_le_def split: if_splits)
  then show ?thesis using d''(1) add None by simp
next
  case (Some t)
  then show ?thesis using ds_add_present [OF d Some, of s] add by (metis Inr_inject map_le_refl option.case(2) spec_op.simps(1))
qed

lemma ds_add_exact:
  assumes d: "ds_ok d" and add: "ds_add k s d = Inr d'" and room: "card (dom ((ds_lookup d)(k \<mapsto> s))) \<le> unat (max_size d)"
  shows "ds_lookup d' = spec_op (Add_op k s) (ds_lookup d)"
proof (cases "ds_lookup d k")
  case None
  have "finite (dom (ds_lookup d))" using d by (simp add: ds_ok_def linked_def ds_lookup_def om.finite_dom)
  then have "length (records_sorted_bykey d) < unat (max_size d)"
    using None room ds_size_dom [OF d] by (simp add: domIff)
  then have "ds_lookup d' = (ds_lookup d)(k \<mapsto> s)" using ds_add_fresh [OF d None, of s] add by (metis Inr_inject)
  then show ?thesis using None by simp
next
  case (Some t)
  then show ?thesis using ds_add_present [OF d Some, of s] add by (metis Inr_inject option.case(2) spec_op.simps(1))
qed

interpretation ds: tombstones ds_lookup ds_add check_and_remove "\<lambda>d. unat (max_size d)" ds_ok
proof unfold_locales
  fix d k s d'
  assume d: "ds_ok d"
  show "\<exists>d'. ds_add k s d = Inr d' \<and> ds_ok d' \<and> unat (max_size d') = unat (max_size d)"
    using ds_add_total [OF d, of k s] by metis
  show "finite (dom (ds_lookup d))"
    using d by (simp add: ds_ok_def linked_def ds_lookup_def om.finite_dom)
  show "ds_lookup (snd (snd (check_and_remove k s d))) = spec_op (Check_op k s) (ds_lookup d)"
    using check_and_remove_spec(5) [OF d, of k s] by (auto simp: fun_eq_iff split: option.splits)
  show "fst (check_and_remove k s d) = (\<exists>t. ds_lookup d k = Some t \<and> s < t)"
    using check_and_remove_spec(3) [OF d] .
  show "ds_ok (snd (snd (check_and_remove k s d))) \<and> unat (max_size (snd (snd (check_and_remove k s d)))) = unat (max_size d)"
    using check_and_remove_spec(1,6) [OF d] by simp
qed (rule ds_add_sub ds_add_exact; assumption)+

section \<open>Storing and loading\<close>

abbreviation records_bytes :: "(net_key, u32) omap \<Rightarrow> byte list" where
  "records_bytes m \<equiv> concat (map (\<lambda>(k, s). key_bytes k @ le32 s) m)"

lemma store_records_bytes: "20 \<le> length buf \<Longrightarrow> store_records buf m = Inr (records_bytes m)"
proof (induction buf m rule: store_records.induct)
  case (2 buf k seq m)
  let ?bs = "key_bytes k @ le32 seq"
  have "emits (wseq [key_serialize k, put_bytes (le32 seq)]) (bytes_pat ?bs)"
    using emits_wseq_Cons [OF emits_key_serialize emits_wseq_single [OF emits_put_bytes]] by (simp del: wseq.simps)
  then have "wseq [key_serialize k, put_bytes (le32 seq)] (buf, 0) = Inr (overlay 0 (bytes_pat ?bs) buf, 20)"
    using 2(2) by (simp add: emits_def del: wseq.simps)
  then have w: "wseq [key_serialize k, put_bytes (le32 seq)] (buf, 0) = Inr (?bs @ drop 20 buf, 20)"
    using 2(2) overlay_bytes [of 0 ?bs buf] by (simp add: overwrite_def del: wseq.simps)
  have "store_records (?bs @ drop 20 buf) m = Inr (records_bytes m)"
    using 2(1) [of "?bs @ drop 20 buf"] 2(2) by simp
  then show ?case using w by (simp del: wseq.simps)
qed simp

lemma om_set_snoc: "om_ok (m @ [(k, v)]) \<Longrightarrow> om_set k v m = m @ [(k, v)] \<and> om_find m k = None"
  by (induction m) (auto simp: om_ok_Cons)

lemma load_records_bytes:
  assumes "holds_pat off (bytes_pat (records_bytes m)) content" "20 * length m \<le> unat remain" "remain \<le> filesize"
  shows "load_records filesize remain (length m) (content, off) d = Inr (fold (\<lambda>(k, s). ds_insert k s) m d)"
  using assms
proof (induction m arbitrary: off d remain)
  case (Cons a m)
  obtain k s where a: "a = (k, s)" by force
  have h: "holds_pat off (bytes_pat (key_bytes k)) content" "holds_pat (off + 16) (bytes_pat (le32 s)) content"
    "holds_pat (off + 20) (bytes_pat (records_bytes m)) content"
    using Cons.prems(1) by (auto simp: a holds_pat_append add.assoc)
  have read: "key_deserialize (content, off) = Inr (k, content, off + 16)" "get32 (content, off + 16) = Inr (s, content, off + 20)"
    using parses_key_deserialize [of k] parses_get32 [of s] h(1,2) by (auto simp: parses_def)
  have "unat (remain - 20) = unat remain - 20" using Cons.prems(2) by (simp add: unat_sub word_le_nat_alt)
  then have r: "20 * length m \<le> unat (remain - 20)" "remain - 20 \<le> filesize" using Cons.prems(2,3) by (simp_all add: word_le_nat_alt)
  have "remain - 16 - 4 = remain - 20" by simp
  then show ?case using Cons.IH [OF h(3) r] read r(2) by (simp add: a Let_def)
qed simp

lemma fold_insert:
  assumes "linked (records_sorted_bykey d) (records_sorted_byseq d)" "om_ok (records_sorted_bykey d @ m)"
  shows "records_sorted_bykey (fold (\<lambda>(k, s). ds_insert k s) m d) = records_sorted_bykey d @ m \<and>
    max_size (fold (\<lambda>(k, s). ds_insert k s) m d) = max_size d \<and>
    linked (records_sorted_bykey (fold (\<lambda>(k, s). ds_insert k s) m d)) (records_sorted_byseq (fold (\<lambda>(k, s). ds_insert k s) m d)) \<and>
    (linked (records_sorted_byseq d) (records_sorted_bykey d) \<and> distinct (map snd (records_sorted_bykey d @ m)) \<longrightarrow>
      linked (records_sorted_byseq (fold (\<lambda>(k, s). ds_insert k s) m d)) (records_sorted_bykey (fold (\<lambda>(k, s). ds_insert k s) m d)))"
  using assms
proof (induction m arbitrary: d)
  case (Cons a m)
  obtain k s where a: "a = (k, s)" by force
  let ?d = "ds_insert k s d"
  have "om_ok (take (Suc (length (records_sorted_bykey d))) (records_sorted_bykey d @ a # m))"
    using Cons.prems(2) by (rule om_ok_take)
  then have snoc: "om_set k s (records_sorted_bykey d) = records_sorted_bykey d @ [(k, s)]" "om_find (records_sorted_bykey d) k = None"
    using om_set_snoc [of "records_sorted_bykey d" k s] by (auto simp: a)
  then have bykey: "records_sorted_bykey ?d = records_sorted_bykey d @ [(k, s)]"
    by (simp add: ds_insert_def om_insert_simps)
  have l: "linked (records_sorted_bykey ?d) (records_sorted_byseq ?d)"
    using linked_insert [OF Cons.prems(1) snoc(2)] by (simp add: ds_insert_def)
  have sym: "linked (records_sorted_byseq ?d) (records_sorted_bykey ?d)"
    if "linked (records_sorted_byseq d) (records_sorted_bykey d)" "distinct (map snd (records_sorted_bykey d @ a # m))"
  proof -
    have "s \<notin> ran (om_find (records_sorted_bykey d))"
      using that(2) by (force simp: a ran_def dest: om_find_in_set)
    then show ?thesis
      using linked_insert [OF that(1), of s k] fresh_seq [OF Cons.prems(1)] by (simp add: ds_insert_def)
  qed
  have "max_size ?d = max_size d" by (simp add: ds_insert_def)
  then show ?case using Cons.IH [OF l] Cons.prems(2) sym bykey unfolding a fold_simps by auto
qed simp

lemma exact_distinct: "ds_exact d \<Longrightarrow> distinct (map snd (records_sorted_bykey d))"
proof -
  assume d: "ds_exact d"
  then have ok: "om_ok (records_sorted_bykey d)" and l: "linked (records_sorted_byseq d) (records_sorted_bykey d)"
    by (auto simp: ds_exact_def linked_def)
  have "inj_on snd (set (records_sorted_bykey d))"
  proof (rule inj_onI)
    fix p q
    assume pq: "p \<in> set (records_sorted_bykey d)" "q \<in> set (records_sorted_bykey d)" "snd p = snd q"
    then have "om_find (records_sorted_byseq d) (snd p) = Some (fst p)" "om_find (records_sorted_byseq d) (snd q) = Some (fst q)"
      using l unfolding linked_def list_all_iff split_beta by blast+
    then show "p = q" using pq(3) by (simp add: prod_eq_iff)
  qed
  then show ?thesis using om_ok_distinct [OF ok] by (simp add: distinct_map)
qed

lemma linked_unique:
  assumes "linked m n" "linked n m" "linked m n'" "linked n' m"
  shows "n = n'"
proof (rule om_ok_eqI)
  show "om_find n = om_find n'"
  proof
    fix s
    have "om_find n s = Some k \<longleftrightarrow> om_find n' s = Some k" for k
      using assms unfolding linked_iff by blast
    then show "om_find n s = om_find n' s" by (metis not_Some_eq)
  qed
qed (use assms in \<open>auto simp: linked_def\<close>)

section \<open>Properties\<close>

text \<open>C11: every sequence of \<^verbatim>\<open>add\<close> and \<^verbatim>\<open>check_and_remove\<close> calls on a new set runs without
  undefined behaviour and keeps the two maps linked and the size within the capacity; every
  tombstone stems from an \<^verbatim>\<open>add\<close> of that key and sequence number; and when the capacity
  covers the keys that were ever added, the set is exactly the finite map that keeps the largest
  deletion of every key and drops it on a check with a number that is not smaller.\<close>

theorem deleted_set_refines:
  "\<exists>d. run_ops ds_add check_and_remove ops (DeletedSet_new c rtt) = Inr d \<and> ds_ok d \<and>
     length (records_sorted_bykey d) \<le> unat (10 * c * rtt) \<and>
     {(k, s). ds_lookup d k = Some s} \<subseteq> added ops \<and>
     (if card (fst ` added ops) \<le> unat (10 * c * rtt) then ds_lookup d = fold spec_op ops Map.empty else True)"
proof -
  have new: "ds_ok (DeletedSet_new c rtt)" "max_size (DeletedSet_new c rtt) = 10 * c * rtt"
    by (rule ds_ok_new, simp add: DeletedSet_new_def)
  obtain d where d: "run_ops ds_add check_and_remove ops (DeletedSet_new c rtt) = Inr d" "ds_ok d"
      "unat (max_size d) = unat (10 * c * rtt)"
    using ds.run_total [OF new(1), of ops] new(2) by auto
  have "length (records_sorted_bykey d) \<le> unat (10 * c * rtt)" using d(2,3) by (simp add: ds_ok_def)
  moreover have "{(k, s). ds_lookup d k = Some s} \<subseteq> added ops" using ds.run_sound [OF new(1) d(1)] by auto
  moreover have "ds_lookup d = fold spec_op ops Map.empty" if "card (fst ` added ops) \<le> unat (10 * c * rtt)"
    using ds.run_exact [OF new(1) d(1)] that new(2) by simp
  ultimately show ?thesis using d by auto
qed



definition ds_file :: "deleted_set \<Rightarrow> byte list" where
  "ds_file d = le32 (of_nat (length (records_sorted_bykey d))) @ records_bytes (records_sorted_bykey d)"

lemma length_ds_file: "length (ds_file d) = 4 + 20 * length (records_sorted_bykey d)"
proof -
  have "length (records_bytes m) = 20 * length m" for m by (induction m) auto
  then show ?thesis by (simp add: ds_file_def)
qed

lemma ds_store_file: "20 \<le> length buf \<Longrightarrow> ds_store buf d = Inr (ds_file d)"
  using store_records_bytes [of buf "records_sorted_bykey d"] by (simp add: ds_store_def ds_file_def)

lemma ds_load_file:
  assumes "ds_ok d" "length (records_sorted_bykey d) < 214748365"
  obtains d' where "ds_load (Some (ds_file d)) this = Inr d'" "records_sorted_bykey d' = records_sorted_bykey d"
    "ds_lookup d' = ds_lookup d" "max_size d' = max_size this" "linked (records_sorted_bykey d') (records_sorted_byseq d')"
    "ds_exact d \<longrightarrow> records_sorted_byseq d' = records_sorted_byseq d"
proof -
  let ?m = "records_sorted_bykey d"
  let ?d = "fold (\<lambda>(k, s). ds_insert k s) ?m (ds_clear this)"
  let ?sz = "of_nat (length (ds_file d)) :: u32"
  have lt: "length (ds_file d) < 2 ^ 32" using assms(2) length_ds_file [of d] by simp
  then have sz: "unat ?sz = length (ds_file d)" by (simp add: unat_of_nat take_bit_nat_eq_self)
  define filesize where "filesize = ?sz"
  have fs: "unat filesize = 4 + 20 * length ?m" using sz length_ds_file [of d] unfolding filesize_def by simp
  then have rem: "unat (filesize - 4) = 20 * length ?m" by (simp add: unat_sub word_le_nat_alt)
  have "holds_pat 0 (bytes_pat (le32 (of_nat (length ?m) :: u32))) (ds_file d)" "holds_pat 4 (bytes_pat (records_bytes ?m)) (ds_file d)"
    by (simp_all add: holds_pat_bytes ds_file_def)
  then have "get32 (ds_file d, 0) = Inr (of_nat (length ?m), ds_file d, 4)" "load_records filesize (filesize - 4) (length ?m) (ds_file d, 4) (ds_clear this) = Inr ?d"
    using parses_get32 [of "of_nat (length ?m)"] load_records_bytes [of 4 ?m "ds_file d" "filesize - 4" filesize] rem fs
    by (simp_all add: parses_def word_le_nat_alt)
  then have load: "ds_load (Some (ds_file d)) this = Inr ?d"
    using assms(2) sz fs length_ds_file [of d] unfolding filesize_def
    by (simp add: ds_load_def Let_def invariant_def word_less_nat_alt unat_of_nat take_bit_nat_eq_self del: of_nat_add of_nat_mult)
  have l: "om_ok ?m" "linked ?m (records_sorted_byseq d)" using assms(1) by (auto simp: ds_ok_def linked_def)
  have clear: "records_sorted_bykey (ds_clear this) = []" "records_sorted_byseq (ds_clear this) = []" "max_size (ds_clear this) = max_size this"
    by (simp_all add: ds_clear_def)
  have loaded: "records_sorted_bykey ?d = ?m" "max_size ?d = max_size this" "linked ?m (records_sorted_byseq ?d)"
    "distinct (map snd ?m) \<Longrightarrow> linked (records_sorted_byseq ?d) ?m"
    using fold_insert [of "ds_clear this" ?m] l(1) by (auto simp: clear)
  have "records_sorted_byseq ?d = records_sorted_byseq d" if "ds_exact d"
    using linked_unique [OF loaded(3) loaded(4) l(2)] exact_distinct [OF that] that by (simp add: ds_exact_def)
  then show thesis using that [OF load] loaded(1-3) by (simp add: ds_lookup_def)
qed

text \<open>C30: what \<^verbatim>\<open>store\<close> writes is 4 + 20 n bytes and, as long as this size is a 32-bit number, \<^verbatim>\<open>load\<close> reads the same
  tombstones back into any set, replacing what it held; the index by sequence number is the same too if no two
  tombstones share one.\<close>

theorem deleted_set_store_load:
  assumes "ds_ok d" "length buf = 40960" "4 + 20 * length (records_sorted_bykey d) < 2 ^ 32"
  shows "\<exists>content d'. ds_store buf d = Inr content \<and> length content = 4 + 20 * length (records_sorted_bykey d) \<and>
    ds_load (Some content) this = Inr d' \<and> ds_lookup d' = ds_lookup d \<and> records_sorted_bykey d' = records_sorted_bykey d \<and>
    max_size d' = max_size this \<and> (ds_exact d \<longrightarrow> records_sorted_byseq d' = records_sorted_byseq d)"
proof -
  have len: "length (records_sorted_bykey d) < 214748365" using assms(3) by simp
  obtain d' where "ds_load (Some (ds_file d)) this = Inr d'" "records_sorted_bykey d' = records_sorted_bykey d"
    "ds_lookup d' = ds_lookup d" "max_size d' = max_size this" "linked (records_sorted_bykey d') (records_sorted_byseq d')"
    "ds_exact d \<longrightarrow> records_sorted_byseq d' = records_sorted_byseq d"
    by (rule ds_load_file [OF assms(1) len])
  then show ?thesis using ds_store_file [of buf d] assms(2) length_ds_file [of d] by auto
qed

theorem deleted_set_store_load_witness:
  "\<exists>content. ds_store (replicate 40960 0) \<lparr>records_sorted_bykey = [(key_min, 5), (key_max, 9)],
       records_sorted_byseq = [(5, key_min), (9, key_max)], max_size = 10\<rparr> = Inr content \<and> length content = 44 \<and>
     ds_load (Some content) \<lparr>records_sorted_bykey = [(Key 1 2 3 4, 7)], records_sorted_byseq = [(7, Key 1 2 3 4)], max_size = 2\<rparr> =
       Inr \<lparr>records_sorted_bykey = [(key_min, 5), (key_max, 9)], records_sorted_byseq = [(5, key_min), (9, key_max)], max_size = 2\<rparr>"
proof -
  let ?d = "\<lparr>records_sorted_bykey = [(key_min, 5), (key_max, 9)], records_sorted_byseq = [(5, key_min), (9, key_max)], max_size = 10\<rparr> :: deleted_set"
  have "key_min < key_max" by (simp add: less_net_key_def key_less_def key_min_def key_max_def word_neq_0_conv [symmetric])
  then have ok: "ds_ok ?d" "ds_exact ?d" by (auto simp: ds_exact_def ds_ok_def linked_def om_ok_def)
  show ?thesis
    using deleted_set_store_load [OF ok(1), of "replicate 40960 0" "\<lparr>records_sorted_bykey = [(Key 1 2 3 4, 7)], records_sorted_byseq = [(7, Key 1 2 3 4)], max_size = 2\<rparr>"] ok(2)
    by (auto intro: deleted_set.equality)
qed

end
