(* ===== verification/Io_Helper.thy ===== *)
theory Io_Helper
  imports Packet_Base
begin

text \<open>
  The files of a server and of the controller (src/common/io_helper.c, src/common/io_helper.h): the path of every file, and
  the helpers that test, read, write and remove files. A file system is a map from paths to contents; a
  system call on an existing file is assumed to succeed. \<^verbatim>\<open>GET_STRING\<close> prints integers in decimal.
\<close>

type_synonym fs = "string \<Rightarrow> byte list option"

section \<open>Paths\<close>

fun dec :: "nat \<Rightarrow> string" where
  "dec n = (if n < 10 then [char_of (48 + n)] else dec (n div 10) @ [char_of (48 + n mod 10)])"

declare dec.simps [simp del]

definition dec_int :: "int \<Rightarrow> string" where
  "dec_int i = (if i < 0 then ''-'' @ dec (nat (- i)) else dec (nat i))"

fun get_methodname_byid :: "method_id \<Rightarrow> string res" where
  "get_methodname_byid INVALID_ID = Inl Exit"
| "get_methodname_byid FARREACH_ID = Inr ''farreach''"
| "get_methodname_byid NOCACHE_ID = Inr ''nocache''"
| "get_methodname_byid NETCACHE_ID = Inr ''netcache''"
| "get_methodname_byid DISTFARREACH_ID = Inr ''distfarreach''"
| "get_methodname_byid DISTNOCACHE_ID = Inr ''distnocache''"
| "get_methodname_byid DISTCACHE_ID = Inr ''distcache''"

definition worker_path :: "method_id \<Rightarrow> u16 \<Rightarrow> string \<Rightarrow> string res" where
  "worker_path methodid workerid suffix = bind_res (get_methodname_byid methodid) (\<lambda>methodname.
     Inr (''/tmp/'' @ methodname @ ''/worker'' @ dec (unat workerid) @ suffix))"

definition get_server_db_path :: "method_id \<Rightarrow> u16 \<Rightarrow> string res" where
  "get_server_db_path methodid workerid = worker_path methodid workerid ''.db''"

definition get_server_deletedset_path :: "method_id \<Rightarrow> u16 \<Rightarrow> string res" where
  "get_server_deletedset_path methodid workerid = worker_path methodid workerid ''.deletedset''"

definition get_server_snapshotid_path :: "method_id \<Rightarrow> u16 \<Rightarrow> string res" where
  "get_server_snapshotid_path methodid workerid = worker_path methodid workerid ''.snapshotid''"

definition get_server_snapshotdb_path :: "method_id \<Rightarrow> u16 \<Rightarrow> string res" where
  "get_server_snapshotdb_path methodid workerid = worker_path methodid workerid ''.snapshotdb''"

definition get_server_snapshotdbseq_path :: "method_id \<Rightarrow> u16 \<Rightarrow> u32 \<Rightarrow> string res" where
  "get_server_snapshotdbseq_path methodid workerid snapshotid =
     worker_path methodid workerid (''.snapshotdbseq'' @ dec (unat snapshotid))"

definition get_server_inswitchsnapshot_path :: "method_id \<Rightarrow> u16 \<Rightarrow> u32 \<Rightarrow> string res" where
  "get_server_inswitchsnapshot_path methodid workerid snapshotid =
     worker_path methodid workerid (''.inswitchsnapshot'' @ dec (unat snapshotid))"

definition get_server_snapshotdeletedset_path :: "method_id \<Rightarrow> u16 \<Rightarrow> u32 \<Rightarrow> string res" where
  "get_server_snapshotdeletedset_path methodid workerid snapshotid =
     worker_path methodid workerid (''.snapshotdeletedset'' @ dec (unat snapshotid))"

definition get_server_snapshotmaxseq_path :: "method_id \<Rightarrow> u16 \<Rightarrow> u32 \<Rightarrow> string res" where
  "get_server_snapshotmaxseq_path methodid workerid snapshotid =
     worker_path methodid workerid (''.snapshotmaxseq'' @ dec (unat snapshotid))"

definition get_server_latestmaxseq_path :: "method_id \<Rightarrow> u16 \<Rightarrow> string res" where
  "get_server_latestmaxseq_path methodid workerid = worker_path methodid workerid ''.latestmaxseq''"

definition controller_path :: "method_id \<Rightarrow> string \<Rightarrow> string res" where
  "controller_path methodid suffix = bind_res (get_methodname_byid methodid) (\<lambda>methodname.
     Inr (''/tmp/'' @ methodname @ ''/controller'' @ suffix))"

definition controller_idx_string :: "int \<Rightarrow> string" where
  "controller_idx_string controller_idx = (if controller_idx = -1 then '''' else dec_int controller_idx)"

definition get_controller_snapshotid_path :: "method_id \<Rightarrow> int \<Rightarrow> string res" where
  "get_controller_snapshotid_path methodid controller_idx =
     controller_path methodid (controller_idx_string controller_idx @ ''.snapshotid'')"

definition get_controller_snapshotdata_path :: "method_id \<Rightarrow> int \<Rightarrow> int \<Rightarrow> string res" where
  "get_controller_snapshotdata_path methodid snapshotid controller_idx =
     controller_path methodid (controller_idx_string controller_idx @ ''.snapshotdata'' @ dec_int snapshotid)"

definition get_controller_spinesnapshotdata_path :: "method_id \<Rightarrow> int \<Rightarrow> string res" where
  "get_controller_spinesnapshotdata_path methodid snapshotid = controller_path methodid (''.spinesnapshotdata'' @ dec_int snapshotid)"

definition get_controller_leafsnapshotdata_path :: "method_id \<Rightarrow> int \<Rightarrow> string res" where
  "get_controller_leafsnapshotdata_path methodid snapshotid = controller_path methodid (''.leafsnapshotdata'' @ dec_int snapshotid)"

section \<open>File helpers\<close>

definition isexist :: "fs \<Rightarrow> string \<Rightarrow> bool" where
  "isexist f path \<longleftrightarrow> f path \<noteq> None"

definition get_filesize :: "fs \<Rightarrow> string \<Rightarrow> u32" where
  "get_filesize f path = (case f path of None \<Rightarrow> 0 | Some content \<Rightarrow> of_nat (length content))"

text \<open>The mapping of the first \<^verbatim>\<open>size\<close> bytes; a missing file gives a null pointer, an empty mapping
  makes \<^verbatim>\<open>mmap\<close> fail.\<close>

definition readonly_mmap :: "fs \<Rightarrow> string \<Rightarrow> u32 \<Rightarrow> byte list option res" where
  "readonly_mmap f path sz = (case f path of None \<Rightarrow> Inr None
     | Some content \<Rightarrow> if sz = 0 then Inl Exit else Inr (Some (take (unat sz) content)))"

definition rmfiles :: "string \<Rightarrow> fs \<Rightarrow> fs" where
  "rmfiles path f = f(path := None)"

text \<open>\<^verbatim>\<open>fread\<close> from a missing file dereferences a null pointer; a short file leaves the variable
  indeterminate.\<close>

definition load_int :: "fs \<Rightarrow> string \<Rightarrow> u32 res" where
  "load_int f path = (case f path of None \<Rightarrow> Inl Undefined
     | Some content \<Rightarrow> if 4 \<le> length content then Inr (load32 (take 4 content)) else Inl Undefined)"

definition load_snapshotid :: "fs \<Rightarrow> string \<Rightarrow> int res" where
  "load_snapshotid f path = bind_res (load_int f path) (\<lambda>w. Inr (sint w))"

definition store_snapshotid :: "int \<Rightarrow> string \<Rightarrow> fs \<Rightarrow> fs" where
  "store_snapshotid snapshotid path f = f(path \<mapsto> le32 (word_of_int snapshotid))"

definition le64 :: "u64 \<Rightarrow> byte list" where
  "le64 w = le32 (ucast w) @ le32 (ucast (drop_bit 32 w))"

definition load64 :: "byte list \<Rightarrow> u64" where
  "load64 bs = ucast (load32 bs) OR push_bit 32 (ucast (load32 (drop 4 bs)))"

definition load_snapshotdbseq :: "fs \<Rightarrow> string \<Rightarrow> u64 res" where
  "load_snapshotdbseq f path = (case f path of None \<Rightarrow> Inl Undefined
     | Some content \<Rightarrow> if 8 \<le> length content then Inr (load64 (take 8 content)) else Inl Undefined)"

definition store_snapshotdbseq :: "u64 \<Rightarrow> string \<Rightarrow> fs \<Rightarrow> fs" where
  "store_snapshotdbseq snapshotdbseq path f = f(path \<mapsto> le64 snapshotdbseq)"

definition load_maxseq :: "fs \<Rightarrow> string \<Rightarrow> u32 res" where
  "load_maxseq f path = load_int f path"

definition store_maxseq :: "u32 \<Rightarrow> string \<Rightarrow> fs \<Rightarrow> fs" where
  "store_maxseq maxseq path f = f(path \<mapsto> le32 maxseq)"

definition store_buf :: "byte list \<Rightarrow> string \<Rightarrow> fs \<Rightarrow> fs" where
  "store_buf buf path f = f(path \<mapsto> buf)"

section \<open>What was stored is loaded\<close>

lemma u32_bit_high [simp]: "32 \<le> n \<Longrightarrow> \<not> bit (w :: u32) n"
  using bit_imp_le_length [of w n] by auto

lemma load64_le64 [simp]: "load64 (le64 w) = w" "length (le64 w) = 8"
proof -
  have "load32 (drop 4 (le64 w)) = ucast (drop_bit 32 w)" by (simp add: le64_def)
  then show "load64 (le64 w) = w"
    unfolding load64_def by (auto intro!: bit_word_eqI simp: le64_def bit_simps)
  show "length (le64 w) = 8" by (simp add: le64_def)
qed

lemma load_store:
  "load_maxseq (store_maxseq w path f) path = Inr w"
  "load_snapshotdbseq (store_snapshotdbseq q path f) path = Inr q"
  "- (2 ^ 31) \<le> i \<Longrightarrow> i < 2 ^ 31 \<Longrightarrow> load_snapshotid (store_snapshotid i path f) path = Inr i"
  by (simp_all add: load_maxseq_def store_maxseq_def load_int_def load_snapshotdbseq_def store_snapshotdbseq_def
    load_snapshotid_def store_snapshotid_def sint_sbintrunc' signed_take_bit_int_eq_self)

section \<open>Different files have different paths\<close>

lemma dec_digits: "\<forall>c \<in> set (dec n). 48 \<le> (of_char c :: nat) \<and> (of_char c :: nat) < 58"
proof (induction n rule: dec.induct)
  case (1 n)
  have d: "48 \<le> (of_char (char_of (48 + m)) :: nat) \<and> (of_char (char_of (48 + m)) :: nat) < 58" if "m < 10" for m :: nat
    using that by (simp add: of_char_of)
  show ?case
  proof (cases "n < 10")
    case True
    then show ?thesis using d [of n] by (simp add: dec.simps)
  next
    case False
    then show ?thesis using 1 d [of "n mod 10"] by (subst dec.simps) auto
  qed
qed

primrec undec :: "nat \<Rightarrow> string \<Rightarrow> nat" where
  "undec acc [] = acc"
| "undec acc (c # cs) = undec (10 * acc + (of_char c - 48)) cs"

lemma undec_append: "undec acc (xs @ ys) = undec (undec acc xs) ys"
  by (induction xs arbitrary: acc) auto

lemma undec_dec: "undec 0 (dec n) = n"
proof (induction n rule: dec.induct)
  case (1 n)
  show ?case
  proof (cases "n < 10")
    case True
    then show ?thesis by (simp add: dec.simps of_char_of)
  next
    case False
    then have "dec n = dec (n div 10) @ [char_of (48 + n mod 10)]" by (subst dec.simps) simp
    then show ?thesis using 1 [OF False] by (simp add: undec_append of_char_of)
  qed
qed

lemma dec_inject [simp]: "dec a = dec b \<longleftrightarrow> a = b"
  by (metis undec_dec)

text \<open>A separator that occurs in neither prefix splits a string uniquely.\<close>

lemma split_unique:
  assumes "xs @ c # ys = xs' @ c # ys'" "c \<notin> set xs" "c \<notin> set xs'"
  shows "xs = xs' \<and> ys = ys'"
  using assms by (induction xs arbitrary: xs') (case_tac xs', auto)+

lemma dec_no_dot: "CHR ''.'' \<notin> set (dec n)" "CHR ''/'' \<notin> set (dec n)"
  using dec_digits [of n] by auto

lemma methodname_no_slash: "get_methodname_byid m = Inr a \<Longrightarrow> CHR ''/'' \<notin> set a"
  by (cases m) auto

lemma methodname_inject: "get_methodname_byid m = get_methodname_byid m' \<Longrightarrow> m = m'"
  by (cases m; cases m'; simp)

lemma methodname_split:
  assumes "get_methodname_byid m = Inr a" "get_methodname_byid m' = Inr b" "a @ CHR ''/'' # x = b @ CHR ''/'' # y"
  shows "m = m' \<and> x = y"
proof -
  have "a = b \<and> x = y" using assms by (intro split_unique [of a "CHR ''/''"] methodname_no_slash) auto
  then show ?thesis using assms(1,2) methodname_inject [of m m'] by simp
qed

lemma worker_path_inject:
  assumes "worker_path m w (CHR ''.'' # s) = Inr p" "worker_path m' w' (CHR ''.'' # s') = Inr p"
  shows "m = m' \<and> w = w' \<and> s = s'"
proof -
  obtain a b where ab: "get_methodname_byid m = Inr a" "get_methodname_byid m' = Inr b"
      "a @ CHR ''/'' # ''worker'' @ dec (unat w) @ CHR ''.'' # s = b @ CHR ''/'' # ''worker'' @ dec (unat w') @ CHR ''.'' # s'"
    using assms by (auto simp: worker_path_def bind_res_eq_Inr)
  then have "m = m'" "dec (unat w) @ CHR ''.'' # s = dec (unat w') @ CHR ''.'' # s'"
    using methodname_split [OF ab] by auto
  moreover from this(2) have "dec (unat w) = dec (unat w') \<and> s = s'" using dec_no_dot(1) by (intro split_unique) auto
  ultimately show ?thesis by (simp add: word_unat_eq_iff)
qed

datatype server_file = Db | Deletedset | Snapshotid | Snapshotdb | Latestmaxseq | Snapshotdbseq u32 | Inswitchsnapshot u32
  | Snapshotdeletedset u32 | Snapshotmaxseq u32

fun server_path :: "server_file \<Rightarrow> method_id \<Rightarrow> u16 \<Rightarrow> string res" where
  "server_path Db m w = get_server_db_path m w"
| "server_path Deletedset m w = get_server_deletedset_path m w"
| "server_path Snapshotid m w = get_server_snapshotid_path m w"
| "server_path Snapshotdb m w = get_server_snapshotdb_path m w"
| "server_path Latestmaxseq m w = get_server_latestmaxseq_path m w"
| "server_path (Snapshotdbseq i) m w = get_server_snapshotdbseq_path m w i"
| "server_path (Inswitchsnapshot i) m w = get_server_inswitchsnapshot_path m w i"
| "server_path (Snapshotdeletedset i) m w = get_server_snapshotdeletedset_path m w i"
| "server_path (Snapshotmaxseq i) m w = get_server_snapshotmaxseq_path m w i"

lemmas path_defs = get_server_db_path_def get_server_deletedset_path_def get_server_snapshotid_path_def
  get_server_snapshotdb_path_def get_server_latestmaxseq_path_def get_server_snapshotdbseq_path_def
  get_server_inswitchsnapshot_path_def get_server_snapshotdeletedset_path_def get_server_snapshotmaxseq_path_def

fun suffix_of :: "server_file \<Rightarrow> string" where
  "suffix_of Db = ''db''"
| "suffix_of Deletedset = ''deletedset''"
| "suffix_of Snapshotid = ''snapshotid''"
| "suffix_of Snapshotdb = ''snapshotdb''"
| "suffix_of Latestmaxseq = ''latestmaxseq''"
| "suffix_of (Snapshotdbseq i) = ''snapshotdbseq'' @ dec (unat i)"
| "suffix_of (Inswitchsnapshot i) = ''inswitchsnapshot'' @ dec (unat i)"
| "suffix_of (Snapshotdeletedset i) = ''snapshotdeletedset'' @ dec (unat i)"
| "suffix_of (Snapshotmaxseq i) = ''snapshotmaxseq'' @ dec (unat i)"

lemma server_path_suffix: "server_path k m w = worker_path m w (CHR ''.'' # suffix_of k)"
  by (cases k) (simp_all add: path_defs)

lemma suffix_inject: "suffix_of k = suffix_of k' \<Longrightarrow> k = k'"
  by (cases k; cases k'; simp add: word_unat_eq_iff)

lemma server_path_total: "m \<noteq> INVALID_ID \<Longrightarrow> \<exists>p. server_path k m w = Inr p"
  by (cases m) (simp_all add: server_path_suffix worker_path_def)

lemma server_path_inject: "server_path k m w = Inr p \<Longrightarrow> server_path k' m' w' = Inr p \<Longrightarrow> k = k' \<and> m = m' \<and> w = w'"
  using worker_path_inject [of m w "suffix_of k" p m' w' "suffix_of k'"] suffix_inject [of k k']
  unfolding server_path_suffix by blast

text \<open>C40: no two files of the servers share a path: the method, the worker, the kind of file and the snapshot id
  can be read off it. The only method without paths is the invalid one, which exits.\<close>

theorem server_paths_distinct:
  "if m = INVALID_ID then server_path k m w = Inl Exit
   else \<exists>p. server_path k m w = Inr p \<and> {(k', m', w'). server_path k' m' w' = Inr p} = {(k, m, w)}"
proof (cases "m = INVALID_ID")
  case True
  then show ?thesis by (simp add: server_path_suffix worker_path_def)
next
  case False
  then obtain p where p: "server_path k m w = Inr p" using server_path_total by blast
  then have "{(k', m', w'). server_path k' m' w' = Inr p} = {(k, m, w)}" using server_path_inject by blast
  then show ?thesis using False p by simp
qed

end
