(* ===== verification/Kv_Wrapper.thy ===== *)
theory Kv_Wrapper
  imports Del_Set Io_Helper "HOL-Library.RBT"
begin

text \<open>
  The storage engine of a server (src/common/rocksdb_wrapper.h, src/common/rocksdb_wrapper.c): the live records in
  a RocksDB database, the tombstones in a \<^verbatim>\<open>DeletedSet\<close>, and the snapshots that range queries
  read. RocksDB itself is a parameter, the record \<^verbatim>\<open>rocksdb\<close> of the calls the wrapper makes. A released snapshot
  handle is simply dropped; the spin locks make every operation atomic, so an operation is one function on
  the state; \<^verbatim>\<open>mem n\<close> is the uninitialised memory a buffer of n bytes starts with.
\<close>

section \<open>RocksDB\<close>

text \<open>\<^verbatim>\<open>db_Get\<close> returns what it leaves in the (empty) result string and whether the status is ok,
  \<^verbatim>\<open>db_Seek\<close> the entries an iterator runs through from a key on, in the database or in a snapshot of it;
  \<^verbatim>\<open>db_CreateCheckpoint\<close> the database opened from a fresh checkpoint. \<^verbatim>\<open>db_Open\<close> gets what is
  stored at the path.\<close>

record ('d, 's) rocksdb =
  db_Open :: "'d option \<Rightarrow> 'd \<times> bool"
  db_Put :: "'d \<Rightarrow> byte list \<Rightarrow> byte list \<Rightarrow> 'd \<times> bool"
  db_Get :: "'d \<Rightarrow> byte list \<Rightarrow> byte list \<times> bool"
  db_Delete :: "'d \<Rightarrow> byte list \<Rightarrow> 'd \<times> bool"
  db_GetSnapshot :: "'d \<Rightarrow> 's"
  db_GetSequenceNumber :: "'s \<Rightarrow> u64"
  db_Seek :: "'d \<Rightarrow> 's option \<Rightarrow> byte list \<Rightarrow> (byte list \<times> byte list) list"
  db_CreateCheckpoint :: "'d \<Rightarrow> 'd \<times> bool"

section \<open>The state\<close>

record ('d, 's) rocksdb_wrapper =
  rw_methodid :: method_id
  rw_workerid :: u16
  rw_maxseq :: u32
  rw_db :: "'d option"
  rw_deleted_set :: deleted_set
  rw_snapshotid :: int
  rw_sp :: "'s option"
  rw_snapshotdb :: "'d option"
  rw_snapshot_deleted_set :: deleted_set
  rw_inswitch_snapshot :: "(net_key, snapshot_record) omap"
  rw_is_snapshot :: bool
  rw_latest_sp :: "'s option"
  rw_latest_snapshot_deleted_set :: deleted_set

text \<open>The constructor; \<^verbatim>\<open>workerid\<close> and \<^verbatim>\<open>maxseq\<close> are not initialised.\<close>

definition rw_new :: "u16 \<Rightarrow> u32 \<Rightarrow> ('d, 's) rocksdb_wrapper" where
  "rw_new worker0 maxseq0 = \<lparr>rw_methodid = INVALID_ID, rw_workerid = worker0, rw_maxseq = maxseq0, rw_db = None,
     rw_deleted_set = DeletedSet_new 10 100, rw_snapshotid = -1, rw_sp = None, rw_snapshotdb = None,
     rw_snapshot_deleted_set = DeletedSet_new 10 100, rw_inswitch_snapshot = [], rw_is_snapshot = False, rw_latest_sp = None,
     rw_latest_snapshot_deleted_set = DeletedSet_new 10 100\<rparr>"

definition rw_init :: "method_id \<Rightarrow> ('d, 's) rocksdb_wrapper \<Rightarrow> ('d, 's) rocksdb_wrapper res" where
  "rw_init curmethodid w = bind_res (invariant (curmethodid \<noteq> INVALID_ID)) (\<lambda>_.
     Inr (w\<lparr>rw_methodid := curmethodid, rw_db := None, rw_snapshotid := -1, rw_sp := None, rw_snapshotdb := None,
       rw_latest_sp := None\<rparr>))"

definition method_needseq :: "('d, 's) rocksdb_wrapper \<Rightarrow> bool res" where
  "method_needseq w = bind_res (invariant (rw_methodid w \<noteq> INVALID_ID)) (\<lambda>_.
     Inr (List.member [NETCACHE_ID, DISTCACHE_ID, FARREACH_ID, DISTFARREACH_ID, NOCACHE_ID, DISTNOCACHE_ID] (rw_methodid w)))"

definition method_needsnapshot :: "('d, 's) rocksdb_wrapper \<Rightarrow> bool res" where
  "method_needsnapshot w = bind_res (invariant (rw_methodid w \<noteq> INVALID_ID)) (\<lambda>_.
     Inr (rw_methodid w = FARREACH_ID \<or> rw_methodid w = DISTFARREACH_ID))"

definition require_snapshot :: "('d, 's) rocksdb_wrapper \<Rightarrow> unit res" where
  "require_snapshot w = bind_res (method_needsnapshot w) invariant"

text \<open>A call through the null pointer is undefined.\<close>

definition deref :: "'a option \<Rightarrow> 'a res" where
  "deref p = (case p of None \<Rightarrow> Inl Undefined | Some x \<Rightarrow> Inr x)"

section \<open>Single records\<close>

definition rw_force_put :: "('d, 's) rocksdb \<Rightarrow> net_key \<Rightarrow> net_val \<Rightarrow> ('d, 's) rocksdb_wrapper \<Rightarrow> (bool \<times> ('d, 's) rocksdb_wrapper) res" where
  "rw_force_put kv key val w =
     bind_res (val_to_string_for_rocksdb val 0) (\<lambda>valstr.
     bind_res (deref (rw_db w)) (\<lambda>db.
     let (db', ok) = db_Put kv db (to_string_for_rocksdb key) valstr in
     bind_res (invariant ok) (\<lambda>_. Inr (True, w\<lparr>rw_db := Some db'\<rparr>))))"

text \<open>Only the status of the last write is looked at.\<close>

fun put_all :: "('d, 's) rocksdb \<Rightarrow> (net_key \<times> net_val) list \<Rightarrow> 'd \<times> bool \<Rightarrow> ('d \<times> bool) res" where
  "put_all kv [] s = Inr s"
| "put_all kv ((key, val) # kvs) s =
     bind_res (val_to_string_for_rocksdb val 0) (\<lambda>valstr. put_all kv kvs (db_Put kv (fst s) (to_string_for_rocksdb key) valstr))"

definition rw_force_multiput :: "('d, 's) rocksdb \<Rightarrow> (net_key \<times> net_val) list \<Rightarrow> ('d, 's) rocksdb_wrapper \<Rightarrow> (bool \<times> ('d, 's) rocksdb_wrapper) res" where
  "rw_force_multiput kv kvs w =
     (if kvs = [] then Inr (True, w)
      else bind_res (deref (rw_db w)) (\<lambda>db.
        bind_res (put_all kv kvs (db, True)) (\<lambda>(db', ok).
        bind_res (invariant ok) (\<lambda>_. Inr (True, w\<lparr>rw_db := Some db'\<rparr>)))))"

text \<open>The result is the status, the value (the caller's one if there is none) and what is stored through
  \<^verbatim>\<open>seqptr\<close>.\<close>

definition rw_get :: "('d, 's) rocksdb \<Rightarrow> net_key \<Rightarrow> net_val \<Rightarrow> ('d, 's) rocksdb_wrapper \<Rightarrow> (bool \<times> net_val \<times> u32 option \<times> ('d, 's) rocksdb_wrapper) res" where
  "rw_get kv key val w =
     bind_res (deref (rw_db w)) (\<lambda>db.
     let (valstr, ok) = db_Get kv db (to_string_for_rocksdb key) in
     bind_res (method_needseq w) (\<lambda>needseq.
     if needseq then
       if valstr \<noteq> [] then
         bind_res (val_from_string_for_rocksdb valstr) (\<lambda>(v, seq).
         bind_res (invariant ok) (\<lambda>_. Inr (True, v, Some seq, w)))
       else
         let (is_deleted, del, ds) = check_and_remove key 0 (rw_deleted_set w);
             deleted_seq = (case del of None \<Rightarrow> 0 | Some s \<Rightarrow> s) in
         Inr (False, val, Some (if 0 < deleted_seq then deleted_seq else 0), w\<lparr>rw_deleted_set := ds\<rparr>)
     else
       if valstr \<noteq> [] then
         bind_res (val_from_string_for_rocksdb_noseq valstr) (\<lambda>v. bind_res (invariant ok) (\<lambda>_. Inr (True, v, None, w)))
       else Inr (False, val, None, w)))"

text \<open>The first part of \<^verbatim>\<open>put\<close> and \<^verbatim>\<open>remove\<close>: keep \<^verbatim>\<open>maxseq\<close>, and refuse a request older than the
  deletion of the key.\<close>

definition rw_enter :: "net_key \<Rightarrow> u32 \<Rightarrow> ('d, 's) rocksdb_wrapper \<Rightarrow> (bool \<times> ('d, 's) rocksdb_wrapper) res" where
  "rw_enter key seq w =
     (let w1 = (if rw_maxseq w < seq then w\<lparr>rw_maxseq := seq\<rparr> else w) in
      bind_res (method_needsnapshot w1) (\<lambda>needsnapshot.
      if needsnapshot then
        let (is_deleted, del, ds) = check_and_remove key seq (rw_deleted_set w1);
            deleted_seq = (case del of None \<Rightarrow> 0 | Some s \<Rightarrow> s) in
        Inr (is_deleted \<and> seq < deleted_seq, w1\<lparr>rw_deleted_set := ds\<rparr>)
      else Inr (False, w1)))"

text \<open>Whether the stored record of the key has a larger sequence number.\<close>

definition newer_stored :: "('d, 's) rocksdb \<Rightarrow> 'd \<Rightarrow> byte list \<Rightarrow> u32 \<Rightarrow> bool res" where
  "newer_stored kv db keystr seq =
     (let (tmp_valstr, ok) = db_Get kv db keystr in
      bind_res (if tmp_valstr \<noteq> [] then bind_res (val_from_string_for_rocksdb tmp_valstr) (\<lambda>(v, s). Inr s) else Inr 0) (\<lambda>tmp_seq.
      if seq < tmp_seq then bind_res (invariant ok) (\<lambda>_. Inr True) else Inr False))"

definition rw_put :: "('d, 's) rocksdb \<Rightarrow> net_key \<Rightarrow> net_val \<Rightarrow> u32 \<Rightarrow> bool \<Rightarrow> ('d, 's) rocksdb_wrapper \<Rightarrow> (bool \<times> ('d, 's) rocksdb_wrapper) res" where
  "rw_put kv key val seq checkseq w =
     bind_res (rw_enter key seq w) (\<lambda>(stale, w1).
     if stale then Inr (False, w1)
     else bind_res (method_needseq w1) (\<lambda>needseq.
       bind_res (if needseq then val_to_string_for_rocksdb val seq else val_to_string_for_rocksdb_noseq val) (\<lambda>valstr.
       let keystr = to_string_for_rocksdb key in
       bind_res (deref (rw_db w1)) (\<lambda>db.
       bind_res (if needseq \<and> checkseq then newer_stored kv db keystr seq else Inr False) (\<lambda>newer.
       if newer then Inr (True, w1)
       else let (db', ok) = db_Put kv db keystr valstr in
         bind_res (invariant ok) (\<lambda>_. Inr (True, w1\<lparr>rw_db := Some db'\<rparr>)))))))"

definition rw_remove :: "('d, 's) rocksdb \<Rightarrow> net_key \<Rightarrow> u32 \<Rightarrow> bool \<Rightarrow> ('d, 's) rocksdb_wrapper \<Rightarrow> (bool \<times> ('d, 's) rocksdb_wrapper) res" where
  "rw_remove kv key seq checkseq w =
     bind_res (rw_enter key seq w) (\<lambda>(stale, w1).
     if stale then Inr (False, w1)
     else bind_res (method_needseq w1) (\<lambda>needseq.
       let keystr = to_string_for_rocksdb key in
       bind_res (deref (rw_db w1)) (\<lambda>db.
       bind_res (if needseq \<and> checkseq then newer_stored kv db keystr seq else Inr False) (\<lambda>newer.
       if newer then Inr (True, w1)
       else let (db', ok) = db_Delete kv db keystr in
         bind_res (invariant ok) (\<lambda>_.
         bind_res (method_needsnapshot w1) (\<lambda>needsnapshot.
         bind_res (if needsnapshot then ds_add key seq (rw_deleted_set w1) else Inr (rw_deleted_set w1)) (\<lambda>ds.
         Inr (True, w1\<lparr>rw_db := Some db', rw_deleted_set := ds\<rparr>))))))))"

section \<open>Range queries\<close>

type_synonym scan_results = "(net_key \<times> snapshot_record) list"

text \<open>The loop of \<^verbatim>\<open>merge_sort\<close> with what is left behind the two indices.\<close>

definition keep :: "bool \<Rightarrow> net_key \<times> snapshot_record \<Rightarrow> scan_results \<Rightarrow> scan_results" where
  "keep need_exist r rs = (if \<not> need_exist \<or> sr_stat (snd r) then r # rs else rs)"

fun merge_loop :: "bool \<Rightarrow> scan_results \<Rightarrow> scan_results \<Rightarrow> scan_results res" where
  "merge_loop need_exist [] bs = Inr (filter (\<lambda>r. \<not> need_exist \<or> sr_stat (snd r)) bs)"
| "merge_loop need_exist as [] = Inr (filter (\<lambda>r. \<not> need_exist \<or> sr_stat (snd r)) as)"
| "merge_loop need_exist (a # as) (b # bs) =
     (if key_less (fst a) (fst b) then bind_res (merge_loop need_exist as (b # bs)) (\<lambda>rs. Inr (keep need_exist a rs))
      else if key_greater (fst a) (fst b) then bind_res (merge_loop need_exist (a # as) bs) (\<lambda>rs. Inr (keep need_exist b rs))
      else bind_res (invariant need_exist) (\<lambda>_. bind_res (merge_loop need_exist as bs) (\<lambda>rs.
        Inr (keep need_exist (if sr_seq (snd b) \<le> sr_seq (snd a) then a else b) rs))))"

text \<open>\<^verbatim>\<open>results\<close> is empty at both calls.\<close>

definition merge_sort :: "scan_results \<Rightarrow> scan_results \<Rightarrow> bool \<Rightarrow> ('d, 's) rocksdb_wrapper \<Rightarrow> scan_results res" where
  "merge_sort veca vecb need_exist w = bind_res (require_snapshot w) (\<lambda>_.
     if veca = [] then Inr (if \<not> need_exist then vecb else filter (\<lambda>r. sr_stat (snd r)) vecb)
     else if vecb = [] then Inr (if \<not> need_exist then veca else filter (\<lambda>r. sr_stat (snd r)) veca)
     else merge_loop need_exist veca vecb)"

text \<open>The loop over the iterator, which still reads the key behind the last record it wants.\<close>

fun scan_loop :: "nat \<Rightarrow> (byte list \<times> byte list) list \<Rightarrow> scan_results res" where
  "scan_loop n [] = Inr []"
| "scan_loop n ((keystr, valstr) # es) =
     bind_res (from_string_for_rocksdb keystr) (\<lambda>k.
     if n = 0 then Inr []
     else bind_res (invariant (valstr \<noteq> [])) (\<lambda>_.
       bind_res (val_from_string_for_rocksdb valstr) (\<lambda>(v, seq).
       bind_res (scan_loop (n - 1) es) (\<lambda>rs. Inr ((k, \<lparr>sr_val = v, sr_seq = seq, sr_stat = True\<rparr>) # rs)))))"

definition scan_entries :: "('d, 's) rocksdb \<Rightarrow> bool \<Rightarrow> byte list \<Rightarrow> ('d, 's) rocksdb_wrapper \<Rightarrow> (byte list \<times> byte list) list res" where
  "scan_entries kv needsnapshot startkeystr w =
     (if needsnapshot then
        (case (rw_sp w, rw_snapshotdb w) of
           (Some sp, _) \<Rightarrow> bind_res (deref (rw_db w)) (\<lambda>db. Inr (db_Seek kv db (Some sp) startkeystr))
         | (None, Some sdb) \<Rightarrow> Inr (db_Seek kv sdb None startkeystr)
         | (None, None) \<Rightarrow> Inl Abort)
      else bind_res (deref (rw_db w)) (\<lambda>db. Inr (db_Seek kv db None startkeystr)))"

definition rw_range_scan :: "('d, 's) rocksdb \<Rightarrow> net_key \<Rightarrow> net_key \<Rightarrow> ('d, 's) rocksdb_wrapper \<Rightarrow> scan_results res" where
  "rw_range_scan kv startkey endkey w =
     bind_res (method_needsnapshot w) (\<lambda>needsnapshot.
     bind_res (scan_entries kv needsnapshot (to_string_for_rocksdb startkey) w) (\<lambda>es.
     bind_res (get_scanrecordcnt startkey endkey) (\<lambda>scanrecordcnt.
     bind_res (scan_loop (nat scanrecordcnt) es) (\<lambda>db_results.
     bind_res
       (if needsnapshot then
          bind_res (ds_range_scan startkey endkey (rw_snapshot_deleted_set w)) (\<lambda>deleted_results.
          let inswitch_results = take (nat scanrecordcnt) (om_lower_bound startkey (rw_inswitch_snapshot w)) in
          bind_res (merge_sort db_results deleted_results False w) (\<lambda>serverside_results.
          merge_sort serverside_results inswitch_results True w))
        else Inr db_results) (\<lambda>results.
     Inr (take (nat scanrecordcnt) results))))))"

section \<open>What RocksDB promises\<close>

text \<open>The behaviour documented for the calls: \<^verbatim>\<open>con\<close> is the content of a database, \<^verbatim>\<open>scon\<close> that of a
  snapshot. An iterator runs through the entries in bytewise key order.\<close>

definition is_scan :: "(byte list \<Rightarrow> byte list option) \<Rightarrow> byte list \<Rightarrow> (byte list \<times> byte list) list \<Rightarrow> bool" where
  "is_scan m start es \<longleftrightarrow> om_ok es \<and> om_find es = (\<lambda>j. if start \<le> j then m j else None)"

definition rocksdb_laws :: "('d, 's) rocksdb \<Rightarrow> ('d \<Rightarrow> byte list \<Rightarrow> byte list option) \<Rightarrow> ('s \<Rightarrow> byte list \<Rightarrow> byte list option) \<Rightarrow> bool" where
  "rocksdb_laws kv con scon \<longleftrightarrow>
     (\<forall>d k v. snd (db_Put kv d k v) \<and> con (fst (db_Put kv d k v)) = (con d)(k \<mapsto> v)) \<and>
     (\<forall>d k. db_Get kv d k = (case con d k of None \<Rightarrow> ([], False) | Some v \<Rightarrow> (v, True))) \<and>
     (\<forall>d k. snd (db_Delete kv d k) \<and> con (fst (db_Delete kv d k)) = (con d)(k := None)) \<and>
     (\<forall>d. scon (db_GetSnapshot kv d) = con d) \<and>
     (\<forall>d k. is_scan (con d) k (db_Seek kv d None k)) \<and> (\<forall>d s k. is_scan (scon s) k (db_Seek kv d (Some s) k)) \<and>
     (\<forall>d. snd (db_CreateCheckpoint kv d) \<and> con (fst (db_CreateCheckpoint kv d)) = con d) \<and>
     (\<forall>d. snd (db_Open kv d) \<and> con (fst (db_Open kv d)) = (case d of None \<Rightarrow> Map.empty | Some d \<Rightarrow> con d))"

lemma rocksdb_lawsD:
  assumes "rocksdb_laws kv con scon"
  shows "\<exists>d'. db_Put kv d k v = (d', True) \<and> con d' = (con d)(k \<mapsto> v)"
    "db_Get kv d k = (case con d k of None \<Rightarrow> ([], False) | Some v \<Rightarrow> (v, True))"
    "\<exists>d'. db_Delete kv d k = (d', True) \<and> con d' = (con d)(k := None)"
    "scon (db_GetSnapshot kv d) = con d"
    "is_scan (con d) k (db_Seek kv d None k)" "is_scan (scon s) k (db_Seek kv d (Some s) k)"
    "\<exists>d'. db_CreateCheckpoint kv d = (d', True) \<and> con d' = con d"
    "\<exists>d'. db_Open kv stored = (d', True) \<and> con d' = (case stored of None \<Rightarrow> Map.empty | Some d \<Rightarrow> con d)"
proof -
  note laws = assms [unfolded rocksdb_laws_def]
  show "\<exists>d'. db_Put kv d k v = (d', True) \<and> con d' = (con d)(k \<mapsto> v)"
    by (rule exI [of _ "fst (db_Put kv d k v)"]) (simp add: laws prod_eq_iff)
  show "\<exists>d'. db_Delete kv d k = (d', True) \<and> con d' = (con d)(k := None)"
    by (rule exI [of _ "fst (db_Delete kv d k)"]) (simp add: laws prod_eq_iff)
  show "\<exists>d'. db_CreateCheckpoint kv d = (d', True) \<and> con d' = con d"
    by (rule exI [of _ "fst (db_CreateCheckpoint kv d)"]) (simp add: laws prod_eq_iff)
  show "\<exists>d'. db_Open kv stored = (d', True) \<and> con d' = (case stored of None \<Rightarrow> Map.empty | Some d \<Rightarrow> con d)"
    by (rule exI [of _ "fst (db_Open kv stored)"]) (simp add: laws prod_eq_iff)
qed (simp_all add: assms [unfolded rocksdb_laws_def])

text \<open>The laws can be met: a balanced tree in memory.\<close>

definition mem_rocksdb :: "((byte list, byte list) rbt, (byte list, byte list) rbt) rocksdb" where
  "mem_rocksdb = \<lparr>db_Open = (\<lambda>d. (case d of None \<Rightarrow> RBT.empty | Some d \<Rightarrow> d, True)),
     db_Put = (\<lambda>d k v. (RBT.insert k v d, True)),
     db_Get = (\<lambda>d k. case RBT.lookup d k of None \<Rightarrow> ([], False) | Some v \<Rightarrow> (v, True)),
     db_Delete = (\<lambda>d k. (RBT.delete k d, True)), db_GetSnapshot = (\<lambda>d. d), db_GetSequenceNumber = (\<lambda>s. 0),
     db_Seek = (\<lambda>d s k. om_lower_bound k (RBT.entries (case s of None \<Rightarrow> d | Some s \<Rightarrow> s))),
     db_CreateCheckpoint = (\<lambda>d. (d, True))\<rparr>"

lemma om_ok_entries: "om_ok (RBT.entries t)"
  using RBT.sorted_entries [of t] RBT.distinct_entries [of t] by (simp add: om_ok_def strict_sorted_iff)

lemma is_scan_entries: "is_scan (RBT.lookup t) k (om_lower_bound k (RBT.entries t))"
  by (simp add: is_scan_def om_ok_lower_bound om_ok_entries om_find_lower_bound fun_eq_iff) (simp add: om_find_def)

lemma mem_rocksdb_laws: "rocksdb_laws mem_rocksdb RBT.lookup RBT.lookup"
  by (auto simp: rocksdb_laws_def mem_rocksdb_def is_scan_entries fun_eq_iff split: option.split)

end
