(* ===== verification/Kv_Store.thy ===== *)
theory Kv_Store
  imports Kv_Wrapper
begin

text \<open>
  The single-record requests of the storage engine (\<^verbatim>\<open>get\<close>, \<^verbatim>\<open>put\<close> and \<^verbatim>\<open>remove\<close> of
  src/common/rocksdb_wrapper.c) against an abstract store, a map from keys to live values and tombstones with
  their sequence numbers. Under the laws of RocksDB every request succeeds and keeps the invariant, and as long as the
  tombstones fit in the \<^verbatim>\<open>DeletedSet\<close> the engine answers as the abstract store does.
\<close>

section \<open>The abstract store\<close>

text \<open>For every key the live value with the sequence number of the request that wrote it, or the sequence number of its
  deletion.\<close>

datatype kv_entry = Live net_val u32 | Tomb u32

definition live :: "(byte list \<Rightarrow> byte list option) \<Rightarrow> net_key \<Rightarrow> (net_val \<times> u32) option" where
  "live m k = (case m (to_string_for_rocksdb k) of None \<Rightarrow> None
     | Some str \<Rightarrow> (case val_from_string_for_rocksdb str of Inl e \<Rightarrow> None | Inr p \<Rightarrow> Some p))"

definition merged :: "(net_key \<Rightarrow> (net_val \<times> u32) option) \<Rightarrow> (net_key \<Rightarrow> u32 option) \<Rightarrow> net_key \<Rightarrow> kv_entry option" where
  "merged l t k = (case l k of Some (v, s) \<Rightarrow> Some (Live v s) | None \<Rightarrow> map_option Tomb (t k))"

definition record_str :: "byte list \<Rightarrow> bool" where
  "record_str str \<longleftrightarrow> str \<noteq> [] \<and> (\<exists>v s. val_from_string_for_rocksdb str = Inr (v, s) \<and> val_ok v)"

definition content_ok :: "(byte list \<Rightarrow> byte list option) \<Rightarrow> bool" where
  "content_ok m \<longleftrightarrow> (\<forall>k str. m k = Some str \<longrightarrow> length k = 16 \<and> record_str str)"

text \<open>A value a request can carry.\<close>

definition storable :: "net_val \<Rightarrow> bool" where
  "storable v \<longleftrightarrow> val_ok v \<and> unat (val_length v) + 4 < 2 ^ 32"

abbreviation snapshot_method :: "('d, 's) rocksdb_wrapper \<Rightarrow> bool" where
  "snapshot_method w \<equiv> rw_methodid w = FARREACH_ID \<or> rw_methodid w = DISTFARREACH_ID"

text \<open>The database is open and holds well-formed records, and no key is both live and deleted; only the methods with
  snapshots keep tombstones.\<close>

definition kv_ok :: "('d \<Rightarrow> byte list \<Rightarrow> byte list option) \<Rightarrow> ('d, 's) rocksdb_wrapper \<Rightarrow> bool" where
  "kv_ok con w \<longleftrightarrow> rw_methodid w \<noteq> INVALID_ID \<and> ds_ok (rw_deleted_set w) \<and>
     (\<not> snapshot_method w \<longrightarrow> ds_lookup (rw_deleted_set w) = Map.empty) \<and>
     (\<exists>d. rw_db w = Some d \<and> content_ok (con d) \<and> dom (live (con d)) \<inter> dom (ds_lookup (rw_deleted_set w)) = {})"

definition kv_abs :: "('d \<Rightarrow> byte list \<Rightarrow> byte list option) \<Rightarrow> ('d, 's) rocksdb_wrapper \<Rightarrow> net_key \<Rightarrow> kv_entry option" where
  "kv_abs con w = merged (case rw_db w of None \<Rightarrow> Map.empty | Some d \<Rightarrow> live (con d)) (ds_lookup (rw_deleted_set w))"

definition spec_put :: "net_key \<Rightarrow> net_val \<Rightarrow> u32 \<Rightarrow> bool \<Rightarrow> (net_key \<Rightarrow> kv_entry option) \<Rightarrow> bool \<times> (net_key \<Rightarrow> kv_entry option)" where
  "spec_put k v s checkseq m = (case m k of
      Some (Tomb t) \<Rightarrow> if s < t then (False, m) else (True, m(k \<mapsto> Live v s))
    | Some (Live u t) \<Rightarrow> if checkseq \<and> s < t then (True, m) else (True, m(k \<mapsto> Live v s))
    | None \<Rightarrow> (True, m(k \<mapsto> Live v s)))"

definition spec_remove :: "bool \<Rightarrow> net_key \<Rightarrow> u32 \<Rightarrow> bool \<Rightarrow> (net_key \<Rightarrow> kv_entry option) \<Rightarrow> bool \<times> (net_key \<Rightarrow> kv_entry option)" where
  "spec_remove tombs k s checkseq m =
     (let m' = m(k := if tombs then Some (Tomb s) else None) in
      case m k of
        Some (Tomb t) \<Rightarrow> if s < t then (False, m) else (True, m')
      | Some (Live u t) \<Rightarrow> if checkseq \<and> s < t then (True, m) else (True, m')
      | None \<Rightarrow> (True, m'))"

text \<open>A tombstone with sequence number zero disappears when it is read.\<close>

definition spec_get :: "net_key \<Rightarrow> net_val \<Rightarrow> (net_key \<Rightarrow> kv_entry option) \<Rightarrow> bool \<times> net_val \<times> u32 \<times> (net_key \<Rightarrow> kv_entry option)" where
  "spec_get k old m = (case m k of
      Some (Live v s) \<Rightarrow> (True, v, s, m)
    | Some (Tomb t) \<Rightarrow> (False, old, t, if t = 0 then m(k := None) else m)
    | None \<Rightarrow> (False, old, 0, m))"

section \<open>Single records refine the abstract store\<close>

lemma methods_simps:
  "rw_methodid w \<noteq> INVALID_ID \<Longrightarrow> method_needseq w = Inr True"
  "rw_methodid w \<noteq> INVALID_ID \<Longrightarrow> method_needsnapshot w = Inr (snapshot_method w)"
  by (cases "rw_methodid w"; simp add: method_needseq_def method_needsnapshot_def)+

lemma to_string_inject [simp]: "to_string_for_rocksdb k = to_string_for_rocksdb j \<longleftrightarrow> k = j"
  by (metis from_to_string_for_rocksdb sum.inject(2))

lemma storable_string:
  assumes "storable v"
  obtains str where "val_to_string_for_rocksdb v s = Inr str" "val_from_string_for_rocksdb str = Inr (v, s)" "record_str str"
proof -
  obtain str where str: "val_to_string_for_rocksdb v s = Inr str" "val_from_string_for_rocksdb str = Inr (v, s)"
    using val_from_to_string [of v s] assms by (auto simp: storable_def)
  moreover have "str \<noteq> []" using str(2) by (auto simp: val_from_string_for_rocksdb_def Let_def split: if_splits)
  ultimately show thesis using that assms by (auto simp: record_str_def storable_def)
qed

lemma live_upd:
  "val_from_string_for_rocksdb str = Inr p \<Longrightarrow> live (m(to_string_for_rocksdb k \<mapsto> str)) = (live m)(k \<mapsto> p)"
  "live (m(to_string_for_rocksdb k := None)) = (live m)(k := None)"
  by (auto simp: live_def fun_eq_iff)

lemma content_ok_upd:
  "content_ok m \<Longrightarrow> record_str str \<Longrightarrow> content_ok (m(to_string_for_rocksdb k \<mapsto> str))"
  "content_ok m \<Longrightarrow> content_ok (m(to_string_for_rocksdb k := None))"
  by (auto simp: content_ok_def)

text \<open>What the database holds for a key.\<close>

lemma get_live:
  assumes laws: "rocksdb_laws kv con scon" and "content_ok (con d)"
  shows "case live (con d) k of
      None \<Rightarrow> db_Get kv d (to_string_for_rocksdb k) = ([], False)
    | Some p \<Rightarrow> \<exists>str. db_Get kv d (to_string_for_rocksdb k) = (str, True) \<and> str \<noteq> [] \<and> val_from_string_for_rocksdb str = Inr p"
  using assms(2) rocksdb_lawsD(2) [OF laws, of d "to_string_for_rocksdb k"]
  by (force simp: live_def content_ok_def record_str_def split: option.split sum.split)

lemma newer_stored_spec:
  assumes "rocksdb_laws kv con scon" "content_ok (con d)"
  shows "newer_stored kv d (to_string_for_rocksdb k) s = Inr (case live (con d) k of None \<Rightarrow> False | Some (v, t) \<Rightarrow> s < t)"
  using get_live [OF assms, of k] by (auto simp: newer_stored_def split: option.splits)

lemma dom_disjoint: "dom f \<inter> dom g = {} \<longleftrightarrow> (\<forall>k. f k = None \<or> g k = None)"
  unfolding disjoint_iff domIff by (simp add: imp_conv_disj)

lemma kv_okE:
  assumes "kv_ok con w"
  obtains d where "rw_db w = Some d" "content_ok (con d)" "rw_methodid w \<noteq> INVALID_ID" "ds_ok (rw_deleted_set w)"
    "\<And>k. live (con d) k = None \<or> ds_lookup (rw_deleted_set w) k = None" "kv_abs con w = merged (live (con d)) (ds_lookup (rw_deleted_set w))"
    "\<not> snapshot_method w \<Longrightarrow> ds_lookup (rw_deleted_set w) = Map.empty"
  using assms by (auto simp: kv_ok_def dom_disjoint kv_abs_def)

lemma kv_ok_keep:
  assumes "kv_ok con w" "ds_ok ds" "ds_lookup ds = ds_lookup (rw_deleted_set w)"
  shows "kv_ok con (w\<lparr>rw_maxseq := n, rw_deleted_set := ds\<rparr>)" "kv_abs con (w\<lparr>rw_maxseq := n, rw_deleted_set := ds\<rparr>) = kv_abs con w"
  using assms by (simp_all add: kv_ok_def kv_abs_def)

text \<open>Writing a record over a key whose tombstone is gone.\<close>

lemma kv_ok_write:
  assumes "kv_ok con w" "rw_db w = Some d" "ds_ok ds" "ds_lookup ds = (ds_lookup (rw_deleted_set w))(k := None)"
    "val_from_string_for_rocksdb str = Inr (v, s)" "record_str str" "con d' = (con d)(to_string_for_rocksdb k \<mapsto> str)"
  shows "kv_ok con (w\<lparr>rw_maxseq := n, rw_deleted_set := ds, rw_db := Some d'\<rparr>)"
    "kv_abs con (w\<lparr>rw_maxseq := n, rw_deleted_set := ds, rw_db := Some d'\<rparr>) = (kv_abs con w)(k \<mapsto> Live v s)"
proof -
  have l: "live (con d') = (live (con d))(k \<mapsto> (v, s))" using assms(5,7) by (simp add: live_upd)
  have "content_ok (con d')" using assms(1,2,6,7) content_ok_upd(1) [of "con d" str k] by (simp add: kv_ok_def)
  moreover have "dom (live (con d')) \<inter> dom (ds_lookup ds) = {}"
    using assms(1,2,4) by (auto simp: kv_ok_def l)
  ultimately show "kv_ok con (w\<lparr>rw_maxseq := n, rw_deleted_set := ds, rw_db := Some d'\<rparr>)"
    using assms(1,3) by (auto simp: kv_ok_def assms(4))
  show "kv_abs con (w\<lparr>rw_maxseq := n, rw_deleted_set := ds, rw_db := Some d'\<rparr>) = (kv_abs con w)(k \<mapsto> Live v s)"
    using assms(2,4) by (auto simp: kv_abs_def l merged_def fun_eq_iff split: option.split)
qed

lemma rw_enter_spec:
  assumes "kv_ok con w"
  obtains ds where "rw_enter k s w = Inr (\<exists>t. ds_lookup (rw_deleted_set w) k = Some t \<and> s < t,
      w\<lparr>rw_maxseq := max (rw_maxseq w) s, rw_deleted_set := ds\<rparr>)" "ds_ok ds" "max_size ds = max_size (rw_deleted_set w)"
    "ds_lookup ds = (if \<exists>t. ds_lookup (rw_deleted_set w) k = Some t \<and> s < t then ds_lookup (rw_deleted_set w)
      else (ds_lookup (rw_deleted_set w))(k := None))"
proof (cases "snapshot_method w")
  case True
  have ok: "rw_methodid w \<noteq> INVALID_ID" "ds_ok (rw_deleted_set w)" using assms by (auto simp: kv_ok_def)
  obtain b del ds where c: "check_and_remove k s (rw_deleted_set w) = (b, del, ds)" by (metis prod_cases3)
  note cr = check_and_remove_spec [OF ok(2), of k s, unfolded c fst_conv snd_conv]
  have "(b \<and> s < (case del of None \<Rightarrow> 0 | Some s \<Rightarrow> s)) \<longleftrightarrow> (\<exists>t. ds_lookup (rw_deleted_set w) k = Some t \<and> s < t)"
    using cr(3,4) by auto
  then have "rw_enter k s w = Inr (\<exists>t. ds_lookup (rw_deleted_set w) k = Some t \<and> s < t,
      w\<lparr>rw_maxseq := max (rw_maxseq w) s, rw_deleted_set := ds\<rparr>)"
    using True ok(1) c by (auto simp: rw_enter_def methods_simps max_def)
  then show thesis using that cr(1,5,6) by blast
next
  case False
  have ok: "rw_methodid w \<noteq> INVALID_ID" "ds_ok (rw_deleted_set w)" "ds_lookup (rw_deleted_set w) = Map.empty"
    using assms False by (auto simp: kv_ok_def)
  then have "rw_enter k s w = Inr (False, w\<lparr>rw_maxseq := max (rw_maxseq w) s, rw_deleted_set := rw_deleted_set w\<rparr>)"
    using False by (auto simp: rw_enter_def methods_simps max_def)
  then show thesis using that [of "rw_deleted_set w"] ok by (simp add: fun_eq_iff)
qed

lemma merged_upd:
  "merged (l(k \<mapsto> (v, s))) t = (merged l t)(k \<mapsto> Live v s)"
  "l k = None \<Longrightarrow> merged l (t(k \<mapsto> s)) = (merged l t)(k \<mapsto> Tomb s)"
  "l k = None \<Longrightarrow> merged l (t(k := None)) = (merged l t)(k := None)"
  "merged (l(k := None)) (t(k := x)) = (merged l t)(k := map_option Tomb x)"
  by (auto simp: merged_def fun_eq_iff split: option.splits)

lemma merged_cases:
  assumes "l k = None \<or> t k = None"
  shows "merged l t k = Some (Tomb s) \<longleftrightarrow> t k = Some s" "merged l t k = Some (Live v s) \<longleftrightarrow> l k = Some (v, s)"
    "merged l t k = None \<longleftrightarrow> l k = None \<and> t k = None"
  using assms by (auto simp: merged_def split: option.splits)

text \<open>What one request leaves of the rest of the state: new tombstones only for the keys in ks.\<close>

definition rw_rest :: "('d, 's) rocksdb_wrapper \<Rightarrow> method_id \<times> u16 \<times> int \<times> 's option \<times> 'd option \<times> deleted_set \<times>
    (net_key, snapshot_record) omap \<times> bool \<times> 's option \<times> deleted_set" where
  "rw_rest w = (rw_methodid w, rw_workerid w, rw_snapshotid w, rw_sp w, rw_snapshotdb w, rw_snapshot_deleted_set w,
     rw_inswitch_snapshot w, rw_is_snapshot w, rw_latest_sp w, rw_latest_snapshot_deleted_set w)"

definition kv_frame :: "net_key set \<Rightarrow> ('d, 's) rocksdb_wrapper \<Rightarrow> ('d, 's) rocksdb_wrapper \<Rightarrow> bool" where
  "kv_frame ks w w' \<longleftrightarrow> rw_rest w' = rw_rest w \<and>
     max_size (rw_deleted_set w') = max_size (rw_deleted_set w) \<and>
     dom (ds_lookup (rw_deleted_set w')) \<subseteq> dom (ds_lookup (rw_deleted_set w)) \<union> ks"

lemma kv_frame_upd [simp]:
  "kv_frame ks w (w\<lparr>rw_maxseq := n, rw_deleted_set := ds\<rparr>) \<longleftrightarrow>
     max_size ds = max_size (rw_deleted_set w) \<and> dom (ds_lookup ds) \<subseteq> dom (ds_lookup (rw_deleted_set w)) \<union> ks"
  "kv_frame ks w (w\<lparr>rw_maxseq := n, rw_deleted_set := ds, rw_db := d\<rparr>) \<longleftrightarrow>
     max_size ds = max_size (rw_deleted_set w) \<and> dom (ds_lookup ds) \<subseteq> dom (ds_lookup (rw_deleted_set w)) \<union> ks"
  "kv_frame ks w (w\<lparr>rw_deleted_set := ds\<rparr>) \<longleftrightarrow>
     max_size ds = max_size (rw_deleted_set w) \<and> dom (ds_lookup ds) \<subseteq> dom (ds_lookup (rw_deleted_set w)) \<union> ks"
  by (simp_all add: kv_frame_def rw_rest_def)

lemma rw_put_spec:
  assumes laws: "rocksdb_laws kv con scon" and ok: "kv_ok con w" and v: "storable v"
  obtains w' where "rw_put kv k v s c w = Inr (fst (spec_put k v s c (kv_abs con w)), w')" "kv_ok con w'"
    "kv_abs con w' = snd (spec_put k v s c (kv_abs con w))" "rw_maxseq w' = max (rw_maxseq w) s"
    "kv_frame {} w w'"
proof -
  obtain d where d: "rw_db w = Some d" "content_ok (con d)" "rw_methodid w \<noteq> INVALID_ID" "ds_ok (rw_deleted_set w)"
    "\<And>k. live (con d) k = None \<or> ds_lookup (rw_deleted_set w) k = None" "kv_abs con w = merged (live (con d)) (ds_lookup (rw_deleted_set w))"
    "\<not> snapshot_method w \<Longrightarrow> ds_lookup (rw_deleted_set w) = Map.empty"
    using kv_okE [OF ok] by blast
  let ?t = "ds_lookup (rw_deleted_set w)"
  obtain ds where ds: "rw_enter k s w = Inr (\<exists>t. ?t k = Some t \<and> s < t, w\<lparr>rw_maxseq := max (rw_maxseq w) s, rw_deleted_set := ds\<rparr>)"
      "ds_ok ds" "max_size ds = max_size (rw_deleted_set w)" "ds_lookup ds = (if \<exists>t. ?t k = Some t \<and> s < t then ?t else ?t(k := None))"
    by (rule rw_enter_spec [OF ok])
  obtain str where str: "val_to_string_for_rocksdb v s = Inr str" "val_from_string_for_rocksdb str = Inr (v, s)" "record_str str"
    using storable_string [OF v] by blast
  obtain d' where d': "db_Put kv d (to_string_for_rocksdb k) str = (d', True)" "con d' = (con d)(to_string_for_rocksdb k \<mapsto> str)"
    using rocksdb_lawsD(1) [OF laws] by blast
  note newer = newer_stored_spec [OF laws d(2), of k s]
    and mc = merged_cases [where l = "live (con d)" and t = ?t and k = k, OF d(5)]
  define w1 where "w1 = w\<lparr>rw_maxseq := max (rw_maxseq w) s, rw_deleted_set := ds\<rparr>"
  define w2 where "w2 = w1\<lparr>rw_db := Some d'\<rparr>"
  have w1: "method_needseq w1 = Inr True" "rw_db w1 = Some d" using d(1,3) by (simp_all add: methods_simps w1_def)
  consider (stale) t where "?t k = Some t" "s < t" | (newer_rec) u t where "live (con d) k = Some (u, t)" "c" "s < t"
    | (accept) "\<not> (\<exists>t. ?t k = Some t \<and> s < t)" "\<not> (c \<and> (\<exists>u t. live (con d) k = Some (u, t) \<and> s < t))" by blast
  then show thesis
  proof cases
    case stale
    then have lk: "rw_enter k s w = Inr (True, w1)" "ds_lookup ds = ?t" using ds by (auto simp: w1_def)
    have "kv_abs con w k = Some (Tomb t)" using stale(1) mc(1) d(6) by simp
    then have "spec_put k v s c (kv_abs con w) = (False, kv_abs con w)" using stale(2) by (simp add: spec_put_def)
    then show thesis
      using kv_ok_keep [OF ok ds(2) lk(2)] ds(3) lk(2) by (intro that [of w1]) (simp_all add: rw_put_def lk(1), simp_all add: w1_def)
  next
    case newer_rec
    then have none: "?t k = None" using d(5) [of k] by simp
    then have lk: "rw_enter k s w = Inr (False, w1)" "ds_lookup ds = ?t" using ds by (auto simp: w1_def)
    have "kv_abs con w k = Some (Live u t)" using newer_rec(1) mc(2) d(6) by simp
    then have "spec_put k v s c (kv_abs con w) = (True, kv_abs con w)" using newer_rec(2,3) by (simp add: spec_put_def)
    moreover have "rw_put kv k v s c w = Inr (True, w1)"
      using newer newer_rec by (simp add: rw_put_def lk(1) w1 str(1) Let_def deref_def)
    ultimately show thesis
      using kv_ok_keep [OF ok ds(2) lk(2)] ds(3) lk(2) by (intro that [of w1]) (simp_all, simp_all add: w1_def)
  next
    case accept
    have lk: "rw_enter k s w = Inr (False, w1)" "ds_lookup ds = ?t(k := None)" using accept(1) ds(1,4) by (auto simp: w1_def)
    have "(if c then newer_stored kv d (to_string_for_rocksdb k) s else Inr False) = Inr False"
      using accept(2) newer by (auto split: option.split)
    then have put: "rw_put kv k v s c w = Inr (True, w2)"
      by (simp add: rw_put_def lk(1) w1 str(1) Let_def deref_def d'(1) w2_def)
    have "spec_put k v s c (kv_abs con w) = (True, (kv_abs con w)(k \<mapsto> Live v s))"
      using accept d(6) mc by (auto simp: spec_put_def split: option.split kv_entry.split)
    then show thesis
      using put kv_ok_write [OF ok d(1) ds(2) lk(2) str(2,3) d'(2)] ds(3) lk(2) by (intro that [of w2]) (simp_all add: w2_def w1_def)
  qed
qed

text \<open>Deleting a record.\<close>

lemma kv_ok_delete:
  assumes "kv_ok con w" "rw_db w = Some d" "ds_ok ds" "dom (ds_lookup ds) \<subseteq> insert k (dom (ds_lookup (rw_deleted_set w)))"
    "\<not> snapshot_method w \<Longrightarrow> ds_lookup ds = Map.empty" "con d' = (con d)(to_string_for_rocksdb k := None)"
  shows "kv_ok con (w\<lparr>rw_maxseq := n, rw_deleted_set := ds, rw_db := Some d'\<rparr>)"
proof -
  have l: "live (con d') = (live (con d))(k := None)" using assms(6) by (simp add: live_upd)
  have "content_ok (con d')" using assms(1,2,6) content_ok_upd(2) [of "con d" k] by (simp add: kv_ok_def)
  moreover have "dom (live (con d')) \<inter> dom (ds_lookup ds) = {}"
    using assms(1,2,4) by (auto simp: kv_ok_def l)
  ultimately show ?thesis using assms(1,3,5) by (auto simp: kv_ok_def)
qed

lemma rw_remove_spec:
  assumes laws: "rocksdb_laws kv con scon" and ok: "kv_ok con w"
  obtains w' where "rw_remove kv k s c w = Inr (fst (spec_remove (snapshot_method w) k s c (kv_abs con w)), w')" "kv_ok con w'"
    "rw_maxseq w' = max (rw_maxseq w) s" "kv_frame {k} w w'"
    "card (insert k (dom (ds_lookup (rw_deleted_set w)))) \<le> unat (max_size (rw_deleted_set w)) \<longrightarrow>
       kv_abs con w' = snd (spec_remove (snapshot_method w) k s c (kv_abs con w))"
proof -
  obtain d where d: "rw_db w = Some d" "content_ok (con d)" "rw_methodid w \<noteq> INVALID_ID" "ds_ok (rw_deleted_set w)"
    "\<And>k. live (con d) k = None \<or> ds_lookup (rw_deleted_set w) k = None" "kv_abs con w = merged (live (con d)) (ds_lookup (rw_deleted_set w))"
    "\<not> snapshot_method w \<Longrightarrow> ds_lookup (rw_deleted_set w) = Map.empty"
    using kv_okE [OF ok] by blast
  let ?t = "ds_lookup (rw_deleted_set w)"
  obtain ds where ds: "rw_enter k s w = Inr (\<exists>t. ?t k = Some t \<and> s < t, w\<lparr>rw_maxseq := max (rw_maxseq w) s, rw_deleted_set := ds\<rparr>)"
      "ds_ok ds" "max_size ds = max_size (rw_deleted_set w)" "ds_lookup ds = (if \<exists>t. ?t k = Some t \<and> s < t then ?t else ?t(k := None))"
    by (rule rw_enter_spec [OF ok])
  obtain d' where d': "db_Delete kv d (to_string_for_rocksdb k) = (d', True)" "con d' = (con d)(to_string_for_rocksdb k := None)"
    using rocksdb_lawsD(3) [OF laws] by blast
  obtain ds' where ds': "ds_add k s ds = Inr ds'" "ds_ok ds'" "max_size ds' = max_size ds" using ds_add_total [OF ds(2)] by blast
  note newer = newer_stored_spec [OF laws d(2), of k s]
    and mc = merged_cases [where l = "live (con d)" and t = ?t and k = k, OF d(5)]
  define w1 where "w1 = w\<lparr>rw_maxseq := max (rw_maxseq w) s, rw_deleted_set := ds\<rparr>"
  define ds2 where "ds2 = (if snapshot_method w then ds' else ds)"
  define w2 where "w2 = w1\<lparr>rw_deleted_set := ds2, rw_db := Some d'\<rparr>"
  have w1: "method_needseq w1 = Inr True" "rw_db w1 = Some d" "method_needsnapshot w1 = Inr (snapshot_method w)" "rw_deleted_set w1 = ds"
    using d(1,3) by (simp_all add: methods_simps w1_def)
  consider (stale) t where "?t k = Some t" "s < t" | (newer_rec) u t where "live (con d) k = Some (u, t)" "c" "s < t"
    | (accept) "\<not> (\<exists>t. ?t k = Some t \<and> s < t)" "\<not> (c \<and> (\<exists>u t. live (con d) k = Some (u, t) \<and> s < t))" by blast
  then show thesis
  proof cases
    case stale
    then have lk: "rw_enter k s w = Inr (True, w1)" "ds_lookup ds = ?t" using ds by (auto simp: w1_def)
    have "kv_abs con w k = Some (Tomb t)" using stale(1) mc(1) d(6) by simp
    then have "spec_remove (snapshot_method w) k s c (kv_abs con w) = (False, kv_abs con w)" using stale(2) by (simp add: spec_remove_def Let_def)
    then show thesis
      using kv_ok_keep [OF ok ds(2) lk(2)] ds(3) lk(2)
      by (intro that [of w1]) (simp_all add: rw_remove_def lk(1), simp_all add: w1_def subset_insertI)
  next
    case newer_rec
    then have none: "?t k = None" using d(5) [of k] by simp
    then have lk: "rw_enter k s w = Inr (False, w1)" "ds_lookup ds = ?t" using ds by (auto simp: w1_def)
    have "kv_abs con w k = Some (Live u t)" using newer_rec(1) mc(2) d(6) by simp
    then have "spec_remove (snapshot_method w) k s c (kv_abs con w) = (True, kv_abs con w)" using newer_rec(2,3) by (simp add: spec_remove_def Let_def)
    moreover have "rw_remove kv k s c w = Inr (True, w1)"
      using newer newer_rec by (simp add: rw_remove_def lk(1) w1 Let_def deref_def)
    ultimately show thesis
      using kv_ok_keep [OF ok ds(2) lk(2)] ds(3) lk(2) by (intro that [of w1]) (simp_all, simp_all add: w1_def subset_insertI)
  next
    case accept
    have lk: "rw_enter k s w = Inr (False, w1)" "ds_lookup ds = ?t(k := None)" using accept(1) ds(1,4) by (auto simp: w1_def)
    have "(if c then newer_stored kv d (to_string_for_rocksdb k) s else Inr False) = Inr False"
      using accept(2) newer by (auto split: option.split)
    then have rem: "rw_remove kv k s c w = Inr (True, w2)"
      using d'(1) ds'(1) by (simp add: rw_remove_def lk(1) w1 Let_def deref_def w2_def ds2_def)
    have spec: "spec_remove (snapshot_method w) k s c (kv_abs con w) =
        (True, (kv_abs con w)(k := if snapshot_method w then Some (Tomb s) else None))"
      using accept d(6) mc by (auto simp: spec_remove_def Let_def split: option.split kv_entry.split)
    have sub: "ds_lookup ds' \<subseteq>\<^sub>m ?t(k \<mapsto> s)" using ds_add_sub [OF ds(2) ds'(1)] lk(2) by simp
    then have "dom (ds_lookup ds') \<subseteq> insert k (dom ?t)" using map_le_implies_dom_le [OF sub] by simp
    then have ds2: "ds_ok ds2" "dom (ds_lookup ds2) \<subseteq> insert k (dom ?t)" "\<not> snapshot_method w \<Longrightarrow> ds_lookup ds2 = Map.empty"
      "max_size ds2 = max_size (rw_deleted_set w)"
      using ds'(2,3) ds(2,3) lk(2) d(7) by (auto simp: ds2_def)
    have exact: "ds_lookup ds2 = ?t(k := if snapshot_method w then Some s else None)" if "card (insert k (dom ?t)) \<le> unat (max_size (rw_deleted_set w))"
      using ds_add_exact [OF ds(2) ds'(1)] lk(2) ds(3) that by (simp add: ds2_def)
    have "kv_abs con w2 = merged ((live (con d))(k := None)) (ds_lookup ds2)"
      using d'(2) by (simp add: kv_abs_def w2_def live_upd)
    then have "kv_abs con w2 = (kv_abs con w)(k := if snapshot_method w then Some (Tomb s) else None)"
      if "card (insert k (dom ?t)) \<le> unat (max_size (rw_deleted_set w))"
      using exact [OF that] d(6) by (auto simp: merged_upd)
    then show thesis
      using rem spec kv_ok_delete [OF ok d(1) ds2(1,2,3) d'(2)] ds2(4,2) by (intro that [of w2]) (simp_all add: w2_def w1_def)
  qed
qed

lemma rw_get_spec:
  assumes laws: "rocksdb_laws kv con scon" and ok: "kv_ok con w"
  obtains w' where "rw_get kv k old w = (case spec_get k old (kv_abs con w) of (found, v, s, m) \<Rightarrow> Inr (found, v, Some s, w'))"
    "kv_ok con w'" "kv_abs con w' = snd (snd (snd (spec_get k old (kv_abs con w))))" "rw_maxseq w' = rw_maxseq w" "kv_frame {} w w'"
proof -
  obtain d where d: "rw_db w = Some d" "content_ok (con d)" "rw_methodid w \<noteq> INVALID_ID" "ds_ok (rw_deleted_set w)"
    "\<And>k. live (con d) k = None \<or> ds_lookup (rw_deleted_set w) k = None" "kv_abs con w = merged (live (con d)) (ds_lookup (rw_deleted_set w))"
    "\<not> snapshot_method w \<Longrightarrow> ds_lookup (rw_deleted_set w) = Map.empty"
    using kv_okE [OF ok] by blast
  let ?t = "ds_lookup (rw_deleted_set w)"
  note get = get_live [OF laws d(2), of k]
  show thesis
  proof (cases "live (con d) k")
    case (Some p)
    obtain v s where p: "p = (v, s)" by (cases p)
    have "kv_abs con w k = Some (Live v s)" using Some p d(6) by (simp add: merged_def)
    moreover have "rw_get kv k old w = Inr (True, v, Some s, w)"
      using get Some p d(1,3) by (auto simp: rw_get_def methods_simps deref_def)
    ultimately show thesis using ok by (intro that [of w]) (simp_all add: spec_get_def kv_frame_def)
  next
    case None
    obtain b del ds where c: "check_and_remove k 0 (rw_deleted_set w) = (b, del, ds)" by (metis prod_cases3)
    note cr = check_and_remove_spec [OF d(4), of k 0, unfolded c fst_conv snd_conv]
    let ?w = "w\<lparr>rw_deleted_set := ds\<rparr>"
    have get': "rw_get kv k old w = Inr (False, old, Some (case ?t k of None \<Rightarrow> 0 | Some t \<Rightarrow> t), ?w)"
      using get None d(1,3) c cr(4) by (auto simp: rw_get_def methods_simps deref_def word_gt_0 split: option.split)
    have abs: "kv_abs con w k = map_option Tomb (?t k)" using None d(6) by (simp add: merged_def)
    have "ds_lookup ds = ?t \<or> ds_lookup ds = ?t(k := None)" using cr(5) by auto
    then have "\<forall>j. live (con d) j = None \<or> ds_lookup ds j = None" "\<not> snapshot_method w \<Longrightarrow> ds_lookup ds = Map.empty"
      using d(5,7) by (metis fun_upd_apply, force)
    then have "kv_ok con ?w" using d(3) cr(1) by (simp add: kv_ok_def dom_disjoint d(1,2))
    moreover have "kv_abs con ?w = snd (snd (snd (spec_get k old (kv_abs con w))))"
      using abs cr(5) d(1,6) None by (cases "?t k") (auto simp: spec_get_def kv_abs_def merged_upd word_gt_0)
    ultimately show thesis using get' abs cr(5,6)
      by (intro that [of ?w]) (auto simp: spec_get_def split: option.split if_splits)
  qed
qed

section \<open>Sequences of requests\<close>

datatype kv_op = Get_req net_key net_val | Put_req net_key net_val u32 bool | Remove_req net_key u32 bool

datatype kv_answer = Status bool | Value bool net_val "u32 option"

definition kv_step :: "('d, 's) rocksdb \<Rightarrow> kv_op \<Rightarrow> ('d, 's) rocksdb_wrapper \<Rightarrow> (kv_answer \<times> ('d, 's) rocksdb_wrapper) res" where
  "kv_step kv r w = (case r of
      Get_req k old \<Rightarrow> bind_res (rw_get kv k old w) (\<lambda>(found, v, s, w'). Inr (Value found v s, w'))
    | Put_req k v s checkseq \<Rightarrow> bind_res (rw_put kv k v s checkseq w) (\<lambda>(ok, w'). Inr (Status ok, w'))
    | Remove_req k s checkseq \<Rightarrow> bind_res (rw_remove kv k s checkseq w) (\<lambda>(ok, w'). Inr (Status ok, w')))"

fun kv_run :: "('d, 's) rocksdb \<Rightarrow> kv_op list \<Rightarrow> ('d, 's) rocksdb_wrapper \<Rightarrow> (kv_answer list \<times> ('d, 's) rocksdb_wrapper) res" where
  "kv_run kv [] w = Inr ([], w)"
| "kv_run kv (r # rs) w = bind_res (kv_step kv r w) (\<lambda>(a, w'). bind_res (kv_run kv rs w') (\<lambda>(as, w''). Inr (a # as, w'')))"

definition spec_step :: "bool \<Rightarrow> kv_op \<Rightarrow> (net_key \<Rightarrow> kv_entry option) \<Rightarrow> kv_answer \<times> (net_key \<Rightarrow> kv_entry option)" where
  "spec_step tombs r m = (case r of
      Get_req k old \<Rightarrow> (case spec_get k old m of (found, v, s, m') \<Rightarrow> (Value found v (Some s), m'))
    | Put_req k v s checkseq \<Rightarrow> map_prod Status id (spec_put k v s checkseq m)
    | Remove_req k s checkseq \<Rightarrow> map_prod Status id (spec_remove tombs k s checkseq m))"

fun spec_run :: "bool \<Rightarrow> kv_op list \<Rightarrow> (net_key \<Rightarrow> kv_entry option) \<Rightarrow> kv_answer list \<times> (net_key \<Rightarrow> kv_entry option)" where
  "spec_run tombs [] m = ([], m)"
| "spec_run tombs (r # rs) m = (case spec_step tombs r m of (a, m') \<Rightarrow> map_prod (Cons a) id (spec_run tombs rs m'))"

primrec req_ok :: "kv_op \<Rightarrow> bool" where
  "req_ok (Get_req k old) = True"
| "req_ok (Put_req k v s checkseq) = storable v"
| "req_ok (Remove_req k s checkseq) = True"

primrec req_seq :: "kv_op \<Rightarrow> u32" where
  "req_seq (Get_req k old) = 0"
| "req_seq (Put_req k v s checkseq) = s"
| "req_seq (Remove_req k s checkseq) = s"

primrec req_removes :: "kv_op \<Rightarrow> net_key set" where
  "req_removes (Get_req k old) = {}"
| "req_removes (Put_req k v s checkseq) = {}"
| "req_removes (Remove_req k s checkseq) = {k}"

definition room_for :: "net_key set \<Rightarrow> ('d, 's) rocksdb_wrapper \<Rightarrow> bool" where
  "room_for ks w \<longleftrightarrow> card (ks \<union> dom (ds_lookup (rw_deleted_set w))) \<le> unat (max_size (rw_deleted_set w))"

lemma kv_step_spec:
  assumes laws: "rocksdb_laws kv con scon" and ok: "kv_ok con w" and r: "req_ok r"
  obtains a w' where "kv_step kv r w = Inr (a, w')" "kv_ok con w'" "rw_maxseq w' = max (rw_maxseq w) (req_seq r)"
    "kv_frame (req_removes r) w w'"
    "room_for (req_removes r) w \<Longrightarrow> spec_step (snapshot_method w) r (kv_abs con w) = (a, kv_abs con w')"
proof (cases r)
  case (Get_req k old)
  obtain w' where w': "rw_get kv k old w = (case spec_get k old (kv_abs con w) of (found, v, s, m) \<Rightarrow> Inr (found, v, Some s, w'))"
    "kv_ok con w'" "kv_abs con w' = snd (snd (snd (spec_get k old (kv_abs con w))))" "rw_maxseq w' = rw_maxseq w" "kv_frame {} w w'"
    by (rule rw_get_spec [OF laws ok, of k old])
  obtain found v s m where g: "spec_get k old (kv_abs con w) = (found, v, s, m)" by (metis prod_cases4)
  show thesis
    using w' g by (intro that [of "Value found v (Some s)" w']) (simp_all add: Get_req kv_step_def spec_step_def)
next
  case (Put_req k v s c)
  then have "storable v" using r by simp
  from laws ok this obtain w' where w': "rw_put kv k v s c w = Inr (fst (spec_put k v s c (kv_abs con w)), w')" "kv_ok con w'"
    "kv_abs con w' = snd (spec_put k v s c (kv_abs con w))" "rw_maxseq w' = max (rw_maxseq w) s" "kv_frame {} w w'"
    by (rule rw_put_spec)
  then show thesis
    by (intro that [of "Status (fst (spec_put k v s c (kv_abs con w)))" w'])
      (simp_all add: Put_req kv_step_def spec_step_def map_prod_def split_beta)
next
  case (Remove_req k s c)
  let ?r = "spec_remove (snapshot_method w) k s c (kv_abs con w)"
  obtain w' where w': "rw_remove kv k s c w = Inr (fst ?r, w')" "kv_ok con w'" "rw_maxseq w' = max (rw_maxseq w) s" "kv_frame {k} w w'"
    "card (insert k (dom (ds_lookup (rw_deleted_set w)))) \<le> unat (max_size (rw_deleted_set w)) \<longrightarrow> kv_abs con w' = snd ?r"
    by (rule rw_remove_spec [OF laws ok, of k s c])
  then show thesis
    by (intro that [of "Status (fst ?r)" w']) (simp_all add: Remove_req kv_step_def spec_step_def map_prod_def split_beta room_for_def)
qed

lemma kv_frame_trans: "kv_frame ks w w' \<Longrightarrow> kv_frame ls w' w'' \<Longrightarrow> kv_frame (ks \<union> ls) w w''"
  by (simp add: kv_frame_def) blast

lemma room_for_frame:
  assumes "room_for (ks \<union> ls) w" "kv_frame ks w w'" "kv_ok con w" "finite ks" "finite ls"
  shows "room_for ls w'" "room_for ks w"
proof -
  let ?t = "dom (ds_lookup (rw_deleted_set w))"
  have fin: "finite (ks \<union> ls \<union> ?t)"
    using assms(3-5) by (simp add: kv_ok_def ds_ok_def linked_def ds_lookup_def om.finite_dom)
  have sub: "ls \<union> dom (ds_lookup (rw_deleted_set w')) \<subseteq> ks \<union> ls \<union> ?t" "ks \<union> ?t \<subseteq> ks \<union> ls \<union> ?t"
    using assms(2) by (auto simp: kv_frame_def)
  show "room_for ls w'" "room_for ks w"
    using assms(1,2) card_mono [OF fin sub(1)] card_mono [OF fin sub(2)] by (simp_all add: room_for_def kv_frame_def)
qed

lemma kv_run_spec:
  assumes laws: "rocksdb_laws kv con scon"
  shows "kv_ok con w \<Longrightarrow> list_all req_ok rs \<Longrightarrow> \<exists>as w'. kv_run kv rs w = Inr (as, w') \<and> kv_ok con w' \<and>
    rw_maxseq w' = fold (\<lambda>r m. max m (req_seq r)) rs (rw_maxseq w) \<and> kv_frame (\<Union> (set (map req_removes rs))) w w' \<and>
    (room_for (\<Union> (set (map req_removes rs))) w \<longrightarrow> spec_run (snapshot_method w) rs (kv_abs con w) = (as, kv_abs con w'))"
proof (induction rs arbitrary: w)
  case Nil
  then show ?case by (simp add: kv_frame_def)
next
  case (Cons r rs)
  let ?ls = "\<Union> (set (map req_removes rs))"
  have fin: "finite (req_removes r)" "finite ?ls" by (cases r; simp) (simp, metis finite.emptyI finite.insertI kv_op.exhaust req_removes.simps)
  obtain a w' where w': "kv_step kv r w = Inr (a, w')" "kv_ok con w'" "rw_maxseq w' = max (rw_maxseq w) (req_seq r)"
    "kv_frame (req_removes r) w w'" "room_for (req_removes r) w \<Longrightarrow> spec_step (snapshot_method w) r (kv_abs con w) = (a, kv_abs con w')"
    using kv_step_spec [OF laws Cons.prems(1), of r] Cons.prems(2) by auto
  obtain as w'' where w'': "kv_run kv rs w' = Inr (as, w'')" "kv_ok con w''"
    "rw_maxseq w'' = fold (\<lambda>r m. max m (req_seq r)) rs (rw_maxseq w')" "kv_frame ?ls w' w''"
    "room_for ?ls w' \<Longrightarrow> spec_run (snapshot_method w') rs (kv_abs con w') = (as, kv_abs con w'')"
    using Cons.IH [OF w'(2)] Cons.prems(2) by auto
  have "rw_methodid w' = rw_methodid w" using w'(4) by (simp add: kv_frame_def rw_rest_def)
  moreover note room_for_frame [OF _ w'(4) Cons.prems(1) fin]
  ultimately show ?case
    using w'(1,3,5) w'' kv_frame_trans [OF w'(4) w''(4)] by (simp add: map_prod_def)
qed

section \<open>Properties\<close>

text \<open>C4: Whatever requests arrive, in whatever order and with whatever sequence numbers, the storage engine answers each of
  them (no assertion fails and nothing undefined happens), no key is ever both live and deleted, every stored record
  can be decoded, and \<^verbatim>\<open>maxseq\<close> ends as the largest sequence number seen.\<close>

theorem kv_requests_safe:
  assumes "rocksdb_laws kv con scon" "kv_ok con w" "list_all req_ok rs"
  shows "\<exists>as w'. kv_run kv rs w = Inr (as, w') \<and> kv_ok con w' \<and> rw_maxseq w' = fold (\<lambda>r m. max m (req_seq r)) rs (rw_maxseq w)"
  using kv_run_spec [OF assms] by blast

text \<open>C1: As long as the deleted keys fit in the \<^verbatim>\<open>DeletedSet\<close>, a sequence of requests is answered as the abstract
  store answers it, and ends in the same state. The abstract store is one map from keys to their live value or tombstone.
  A put or remove with a smaller sequence number than the tombstone of its key is refused. Against a live value requests
  apply in the order of their arrival, whatever their sequence numbers; only with \<^verbatim>\<open>checkseq\<close> a request with a smaller
  sequence number leaves the live value as it is.\<close>

theorem kv_requests_refine:
  assumes "rocksdb_laws kv con scon" "kv_ok con w" "list_all req_ok rs" "room_for (\<Union> (set (map req_removes rs))) w"
  shows "\<exists>as w'. kv_run kv rs w = Inr (as, w') \<and> (as, kv_abs con w') = spec_run (snapshot_method w) rs (kv_abs con w)"
  using kv_run_spec [OF assms(1-3)] assms(4) by metis

definition demo_store :: "((byte list, byte list) rbt, (byte list, byte list) rbt) rocksdb_wrapper" where
  "demo_store = (rw_new 0 0)\<lparr>rw_methodid := FARREACH_ID, rw_db := Some RBT.empty\<rparr>"

definition demo_val :: net_val where
  "demo_val = val_default\<lparr>val_data := Some [65], val_length := 1\<rparr>"

definition demo_reqs :: "kv_op list" where
  "demo_reqs = [Put_req key_min demo_val 7 False, Remove_req key_min 9 False, Put_req key_min demo_val 8 False,
     Get_req key_min val_default]"

lemma om_find_empty: "om_find [] = Map.empty"
  by (simp add: fun_eq_iff)

lemma kv_ok_demo:
  "kv_ok RBT.lookup demo_store" "kv_abs RBT.lookup demo_store = Map.empty" "room_for {key_min} demo_store" "snapshot_method demo_store"
  by (simp_all add: demo_store_def rw_new_def kv_ok_def ds_ok_new content_ok_def live_def kv_abs_def merged_def room_for_def
      DeletedSet_new_def ds_lookup_def ds_ok_def om_find_empty fun_eq_iff)

lemma demo_reqs_ok: "list_all req_ok demo_reqs" "\<Union> (set (map req_removes demo_reqs)) = {key_min}"
  by (simp_all add: demo_reqs_def demo_val_def storable_def val_ok_def)

theorem kv_requests_safe_witness:
  "\<exists>as w'. kv_run mem_rocksdb demo_reqs demo_store = Inr (as, w') \<and> kv_ok RBT.lookup w' \<and> rw_maxseq w' = 9"
  using kv_requests_safe [OF mem_rocksdb_laws kv_ok_demo(1) demo_reqs_ok(1)] by (simp add: demo_reqs_def demo_store_def rw_new_def max_def)

theorem kv_requests_refine_witness:
  "\<exists>w'. kv_run mem_rocksdb demo_reqs demo_store = Inr ([Status True, Status True, Status False, Value False val_default (Some 9)], w') \<and>
     kv_abs RBT.lookup w' = [key_min \<mapsto> Tomb 9]"
proof -
  have "spec_run True demo_reqs Map.empty =
      ([Status True, Status True, Status False, Value False val_default (Some 9)], [key_min \<mapsto> Tomb 9])"
    by (simp add: demo_reqs_def spec_step_def spec_put_def spec_remove_def spec_get_def)
  then show ?thesis
    using kv_requests_refine [OF mem_rocksdb_laws kv_ok_demo(1) demo_reqs_ok(1), unfolded demo_reqs_ok(2), OF kv_ok_demo(3)] kv_ok_demo(2,4)
    by auto
qed

end
