(* ===== verification/Kv_Scan.thy ===== *)
theory Kv_Scan
  imports Kv_Store
begin

text \<open>
  Range queries of the storage engine (\<^verbatim>\<open>merge_sort\<close> and \<^verbatim>\<open>range_scan\<close> of src/common/rocksdb_wrapper.c).
  \<^verbatim>\<open>merge_sort\<close> is compared with the pointwise choice of the newest record; \<^verbatim>\<open>range_scan\<close> with the
  sorted list of the records that are visible in the snapshot database, the snapshot tombstones and the in-switch snapshot.
\<close>

section \<open>Merging\<close>

text \<open>The newest of the records two sources have for a key; the first source wins a tie.\<close>

fun newest :: "snapshot_record option \<Rightarrow> snapshot_record option \<Rightarrow> snapshot_record option" where
  "newest (Some a) (Some b) = Some (if sr_seq b \<le> sr_seq a then a else b)"
| "newest (Some a) None = Some a"
| "newest None b = b"

definition kept :: "bool \<Rightarrow> snapshot_record option \<Rightarrow> snapshot_record option" where
  "kept need_exist x = (case x of None \<Rightarrow> None | Some r \<Rightarrow> if \<not> need_exist \<or> sr_stat r then Some r else None)"

lemma newest_None [simp]: "newest x None = x"
  by (cases x) auto

lemma kept_None [simp]: "kept e None = None"
  by (simp add: kept_def)

lemma kept_False [simp]: "kept False x = x"
  by (cases x) (auto simp: kept_def)

lemma key_order:
  "key_less a b \<longleftrightarrow> a < b" "key_greater a b \<longleftrightarrow> b < a" "to_string_for_rocksdb a < to_string_for_rocksdb b \<longleftrightarrow> a < b"
  "to_string_for_rocksdb a \<le> to_string_for_rocksdb b \<longleftrightarrow> a \<le> b"
proof -
  show less: "key_less a b \<longleftrightarrow> a < b" "key_greater a b \<longleftrightarrow> b < a" for a b
    by (auto simp: less_net_key_def key_less_def key_greater_def)
  show str: "to_string_for_rocksdb a < to_string_for_rocksdb b \<longleftrightarrow> a < b" for a b
    by (simp add: be_val_less be_val_to_string flip: less key_less_nat)
  show "to_string_for_rocksdb a \<le> to_string_for_rocksdb b \<longleftrightarrow> a \<le> b"
    using str [of b a] by (meson not_le)
qed

lemma om_find_kept:
  "om_ok m \<Longrightarrow> om_find (filter (\<lambda>r. e \<longrightarrow> sr_stat (snd r)) m) = (\<lambda>k. kept e (om_find m k))"
proof (induction m)
  case (Cons p m)
  obtain a r where p: "p = (a, r)" by force
  show ?case using Cons om_find_below [of a r m a] by (auto simp: p om_ok_Cons kept_def fun_eq_iff)
qed (simp add: fun_eq_iff)

lemma om_ok_keep: "om_ok rs \<Longrightarrow> \<forall>k \<in> fst ` set rs. fst a < k \<Longrightarrow> om_ok (keep e a rs)"
  by (cases a) (auto simp: keep_def om_ok_Cons)

lemma om_find_keep:
  "om_ok rs \<Longrightarrow> \<forall>k \<in> fst ` set rs. a < k \<Longrightarrow> om_find (keep e (a, r) rs) k = (if k = a then kept e (Some r) else om_find rs k)"
  by (auto simp: keep_def kept_def om_find_None_iff image_iff)

text \<open>The outcome of the loop on sorted lists without duplicates.\<close>

definition merge_result :: "bool \<Rightarrow> scan_results \<Rightarrow> scan_results \<Rightarrow> scan_results \<Rightarrow> bool" where
  "merge_result e as bs rs \<longleftrightarrow> om_ok rs \<and> om_find rs = (\<lambda>k. kept e (newest (om_find as k) (om_find bs k))) \<and>
     fst ` set rs \<subseteq> fst ` set as \<union> fst ` set bs"

lemma filter_result:
  assumes "om_ok m"
  shows "merge_result e m [] (filter (\<lambda>r. \<not> e \<or> sr_stat (snd r)) m)" "merge_result e [] m (filter (\<lambda>r. \<not> e \<or> sr_stat (snd r)) m)"
  using assms by (auto simp: merge_result_def om_ok_filter om_find_kept)

definition disjoint_keys :: "scan_results \<Rightarrow> scan_results \<Rightarrow> bool" where
  "disjoint_keys as bs \<longleftrightarrow> fst ` set as \<inter> fst ` set bs = {}"

lemma disjoint_keys_simps:
  "disjoint_keys [] bs" "disjoint_keys as []"
  "\<forall>k \<in> fst ` set bs. fst a < k \<Longrightarrow> disjoint_keys (a # as) bs \<longleftrightarrow> disjoint_keys as bs"
  "\<forall>k \<in> fst ` set as. fst b < k \<Longrightarrow> disjoint_keys as (b # bs) \<longleftrightarrow> disjoint_keys as bs"
  "fst a = fst b \<Longrightarrow> \<not> disjoint_keys (a # as) (b # bs)"
  by (auto simp: disjoint_keys_def)

lemma merge_result_keep:
  assumes "merge_result e as bs rs" "\<forall>k \<in> fst ` set as \<union> fst ` set bs. ka < k"
  shows "merge_result e ((ka, ra) # as) bs (keep e (ka, ra) rs)" "merge_result e as ((ka, ra) # bs) (keep e (ka, ra) rs)"
    "merge_result e ((ka, ra) # as) ((ka, rb) # bs) (keep e (ka, if sr_seq rb \<le> sr_seq ra then ra else rb) rs)"
proof -
  have rs: "om_ok rs" "om_find rs = (\<lambda>k. kept e (newest (om_find as k) (om_find bs k)))" "fst ` set rs \<subseteq> fst ` set as \<union> fst ` set bs"
    "\<forall>k \<in> fst ` set rs. ka < k"
    using assms by (auto simp: merge_result_def dest!: subsetD)
  have none: "om_find as ka = None" "om_find bs ka = None" using assms(2) by (auto simp: om_find_None_iff)
  have "fst ` set (keep e (ka, r) rs) \<subseteq> insert ka (fst ` set rs)" for r by (auto simp: keep_def)
  then have sub: "fst ` set (keep e (ka, r) rs) \<subseteq> insert ka (fst ` set as \<union> fst ` set bs)" for r using rs(3) by blast
  have ok: "om_ok (keep e (ka, r) rs)" for r using rs(1,4) by (simp add: om_ok_keep)
  have find: "om_find (keep e (ka, r) rs) = (\<lambda>k. if k = ka then kept e (Some r) else om_find rs k)" for r
    using rs(1,4) by (simp add: om_find_keep fun_eq_iff)
  show "merge_result e ((ka, ra) # as) bs (keep e (ka, ra) rs)" "merge_result e as ((ka, ra) # bs) (keep e (ka, ra) rs)"
    using ok sub by (simp_all add: merge_result_def find rs(2) none fun_eq_iff)
  show "merge_result e ((ka, ra) # as) ((ka, rb) # bs) (keep e (ka, if sr_seq rb \<le> sr_seq ra then ra else rb) rs)"
    using ok sub by (simp add: merge_result_def find rs(2) fun_eq_iff)
qed

lemma merge_loop_spec:
  assumes "om_ok as" "om_ok bs"
  shows "if e \<or> disjoint_keys as bs then \<exists>rs. merge_loop e as bs = Inr rs \<and> merge_result e as bs rs
    else merge_loop e as bs = Inl Abort"
  using assms
proof (induction e as bs rule: merge_loop.induct)
  case (1 e bs)
  then show ?case using filter_result(2) [of bs e] by (simp add: disjoint_keys_simps)
next
  case (2 e a as)
  then show ?case using filter_result(1) [of "a # as" e] by (simp add: disjoint_keys_simps del: filter.simps)
next
  case (3 e a as b bs)
  obtain ka ra where a: "a = (ka, ra)" by force
  obtain kb rb where b: "b = (kb, rb)" by force
  have ok: "om_ok as" "om_ok bs" "\<forall>k \<in> fst ` set as. ka < k" "\<forall>k \<in> fst ` set bs. kb < k"
    using "3.prems" by (auto simp: a b om_ok_Cons)
  consider (less) "ka < kb" | (greater) "kb < ka" | (equal) "ka = kb" by force
  then show ?case
  proof cases
    case less
    then have lt: "\<forall>k \<in> fst ` set as \<union> fst ` set (b # bs). ka < k" using ok(3,4) by (auto simp: b)
    then have dj: "disjoint_keys (a # as) (b # bs) \<longleftrightarrow> disjoint_keys as (b # bs)" by (intro disjoint_keys_simps) (simp add: a)
    then show ?thesis
      using "3.IH"(1) ok(1) "3.prems"(2) merge_result_keep(1) [OF _ lt, of e] less
      by (cases "e \<or> disjoint_keys as (b # bs)") (auto simp: key_order a b)
  next
    case greater
    then have lt: "\<forall>k \<in> fst ` set (a # as) \<union> fst ` set bs. kb < k" using ok(3,4) by (auto simp: a)
    then have dj: "disjoint_keys (a # as) (b # bs) \<longleftrightarrow> disjoint_keys (a # as) bs" by (intro disjoint_keys_simps) (simp add: b)
    then show ?thesis
      using "3.IH"(2) ok(2) "3.prems"(1) merge_result_keep(2) [OF _ lt, of e] greater
      by (cases "e \<or> disjoint_keys (a # as) bs") (auto simp: key_order a b)
  next
    case equal
    then have lt: "\<forall>k \<in> fst ` set as \<union> fst ` set bs. ka < k" using ok(3,4) by auto
    have "\<not> disjoint_keys (a # as) (b # bs)" using equal by (simp add: disjoint_keys_simps a b)
    then show ?thesis
      using "3.IH"(3) ok(1,2) merge_result_keep(3) [OF _ lt, where e = e and ra = ra and rb = rb] equal
      by (cases e) (auto simp: key_order a b invariant_def if_distrib [of "Pair kb"])
  qed
qed

lemma merge_sort_loop:
  assumes "snapshot_method w"
  shows "merge_sort as bs e w = merge_loop e as bs"
proof -
  have "require_snapshot w = Inr ()" using assms by (auto simp: require_snapshot_def methods_simps invariant_def)
  then show ?thesis by (cases as; cases bs) (auto simp: merge_sort_def)
qed

lemma merge_sort_spec:
  assumes "snapshot_method w" "om_ok as" "om_ok bs"
  shows "if e \<or> disjoint_keys as bs then \<exists>rs. merge_sort as bs e w = Inr rs \<and> merge_result e as bs rs
    else merge_sort as bs e w = Inl Abort"
  unfolding merge_sort_loop [OF assms(1)] by (rule merge_loop_spec [OF assms(2,3)])

section \<open>Scanning the database\<close>

definition scan_record :: "net_val \<times> u32 \<Rightarrow> snapshot_record" where
  "scan_record p = \<lparr>sr_val = fst p, sr_seq = snd p, sr_stat = True\<rparr>"

definition decode :: "byte list \<times> byte list \<Rightarrow> net_key \<times> snapshot_record" where
  "decode e = (projr (from_string_for_rocksdb (fst e)), scan_record (projr (val_from_string_for_rocksdb (snd e))))"

definition entry_ok :: "byte list \<times> byte list \<Rightarrow> bool" where
  "entry_ok e \<longleftrightarrow> length (fst e) = 16 \<and> record_str (snd e)"

lemma scan_loop_spec: "list_all entry_ok es \<Longrightarrow> scan_loop n es = Inr (take n (map decode es))"
proof (induction n es rule: scan_loop.induct)
  case (2 n keystr valstr es)
  then have e: "length keystr = 16" "record_str valstr" by (auto simp: entry_ok_def)
  obtain k where k: "from_string_for_rocksdb keystr = Inr k" using to_from_string_for_rocksdb [OF e(1)] by blast
  obtain v s where v: "valstr \<noteq> []" "val_from_string_for_rocksdb valstr = Inr (v, s)" using e(2) by (auto simp: record_str_def)
  show ?case using 2 k v by (cases n) (auto simp: decode_def scan_record_def invariant_def)
qed simp

lemma decode_entry:
  assumes "entry_ok e"
  obtains k p where "fst e = to_string_for_rocksdb k" "val_from_string_for_rocksdb (snd e) = Inr p" "decode e = (k, scan_record p)"
proof -
  obtain k where "from_string_for_rocksdb (fst e) = Inr k" "to_string_for_rocksdb k = fst e"
    using assms to_from_string_for_rocksdb [of "fst e"] by (auto simp: entry_ok_def)
  moreover obtain p where "val_from_string_for_rocksdb (snd e) = Inr p" using assms by (auto simp: entry_ok_def record_str_def)
  ultimately show thesis using that [of k p] by (simp add: decode_def)
qed

lemma om_ok_decode: "om_ok es \<Longrightarrow> list_all entry_ok es \<Longrightarrow> om_ok (map decode es)"
proof (induction es)
  case (Cons e es)
  obtain k p where e: "fst e = to_string_for_rocksdb k" "decode e = (k, scan_record p)"
    using Cons.prems(2) decode_entry [of e] by (metis list.pred_inject(2))
  have "k < fst (decode f)" if "f \<in> set es" for f
  proof -
    have "entry_ok f" "fst e < fst f" using that Cons.prems by (auto simp: list_all_iff om_ok_def)
    then show ?thesis using e(1) decode_entry [of f] by (metis fst_conv key_order(3))
  qed
  then show ?case using Cons e by (auto simp: om_ok_Cons) (auto simp: om_ok_def)
qed simp

lemma om_find_decode:
  "list_all entry_ok es \<Longrightarrow> om_find (map decode es) k = map_option (\<lambda>v. scan_record (projr (val_from_string_for_rocksdb v))) (om_find es (to_string_for_rocksdb k))"
proof (induction es)
  case (Cons e es)
  obtain j p where e: "fst e = to_string_for_rocksdb j" "val_from_string_for_rocksdb (snd e) = Inr p" "decode e = (j, scan_record p)"
    using Cons.prems decode_entry [of e] by auto
  then show ?case using Cons by (cases e) auto
qed simp

text \<open>What an iterator over well-formed content gives from a key on.\<close>

lemma scan_list:
  assumes "is_scan m (to_string_for_rocksdb start) es" "content_ok m"
  shows "scan_loop n es = Inr (take n (map decode es))" "om_ok (map decode es)"
    "om_find (map decode es) = (\<lambda>k. if start \<le> k then map_option scan_record (live m k) else None)"
proof -
  have es: "om_ok es" "om_find es = (\<lambda>j. if to_string_for_rocksdb start \<le> j then m j else None)" using assms(1) by (auto simp: is_scan_def)
  have "entry_ok (k, v)" if "(k, v) \<in> set es" for k v
    using that es om_find_iff [OF es(1), of k v] assms(2) by (auto simp: entry_ok_def content_ok_def split: if_splits)
  then have ok: "list_all entry_ok es" by (auto simp: list_all_iff)
  then show "scan_loop n es = Inr (take n (map decode es))" "om_ok (map decode es)"
    by (simp_all add: scan_loop_spec om_ok_decode es(1))
  have "map_option (\<lambda>v. scan_record (projr (val_from_string_for_rocksdb v))) (m (to_string_for_rocksdb k)) = map_option scan_record (live m k)" for k
  proof (cases "m (to_string_for_rocksdb k)")
    case (Some v)
    then have "record_str v" using assms(2) by (simp add: content_ok_def)
    then show ?thesis using Some by (auto simp: live_def record_str_def)
  qed (simp add: live_def)
  then show "om_find (map decode es) = (\<lambda>k. if start \<le> k then map_option scan_record (live m k) else None)"
    by (simp add: om_find_decode [OF ok] es(2) key_order fun_eq_iff)
qed

section \<open>Range queries\<close>

definition tomb_record :: "u32 \<Rightarrow> snapshot_record" where
  "tomb_record seq = snapshot_record_default\<lparr>sr_seq := seq, sr_stat := False\<rparr>"

text \<open>What a server knows of a key, from the database and the tombstones, and what a range query should show, with the records
  the switch had cached.\<close>

definition server_rec :: "(byte list \<Rightarrow> byte list option) \<Rightarrow> (net_key \<Rightarrow> u32 option) \<Rightarrow> net_key \<Rightarrow> snapshot_record option" where
  "server_rec m t k = (case live m k of Some p \<Rightarrow> Some (scan_record p) | None \<Rightarrow> map_option tomb_record (t k))"

definition visible :: "(byte list \<Rightarrow> byte list option) \<Rightarrow> (net_key \<Rightarrow> u32 option) \<Rightarrow> (net_key \<Rightarrow> snapshot_record option) \<Rightarrow> net_key \<Rightarrow> snapshot_record option" where
  "visible m t i k = kept True (newest (server_rec m t k) (i k))"

text \<open>The sorted list of a map from a key on.\<close>

definition lists_from :: "net_key \<Rightarrow> (net_key \<Rightarrow> snapshot_record option) \<Rightarrow> scan_results \<Rightarrow> bool" where
  "lists_from start f xs \<longleftrightarrow> om_ok xs \<and> om_find xs = (\<lambda>k. if start \<le> k then f k else None)"

text \<open>Looking at the first n records of a source is enough: there are no more, or n visible records lie at or
  before the last one.\<close>

definition covers :: "nat \<Rightarrow> scan_results \<Rightarrow> scan_results \<Rightarrow> bool" where
  "covers n V xs \<longleftrightarrow> length xs \<le> n \<or> n \<le> length (filter (\<lambda>r. fst r \<le> fst (xs ! (n - 1))) V)"

lemma om_find_take:
  assumes "om_ok xs" "0 < n" "length xs \<le> n \<or> k \<le> fst (xs ! (n - 1))"
  shows "om_find (take n xs) k = om_find xs k"
proof (cases "length xs \<le> n")
  case False
  have "k \<notin> fst ` set (drop n xs)"
  proof
    assume "k \<in> fst ` set (drop n xs)"
    then obtain i where "n \<le> i" "i < length xs" "k = fst (xs ! i)"
      by (auto simp: set_conv_nth) (metis add.commute le_add1 less_diff_conv nth_drop fst_conv)
    then have "fst (xs ! (n - 1)) < k" using assms(1,2) by (simp add: om_ok_def sorted_wrt_iff_nth_less)
    then show False using assms(3) False by simp
  qed
  then have "map_of (drop n xs) k = None" by (simp add: map_of_eq_None_iff)
  then show ?thesis
    using map_of_append [of "take n xs" "drop n xs"] by (auto simp: om_find_def map_add_def split: option.splits)
qed simp

text \<open>Two sorted lists that agree up to a key have the same prefix there.\<close>

lemma om_prefix:
  fixes M V :: scan_results
  assumes "om_ok M" "om_ok V" "\<And>k. k \<le> h \<Longrightarrow> om_find M k = om_find V k" "n \<le> length (filter (\<lambda>r. fst r \<le> h) V)"
  shows "take n M = take n V"
proof -
  have split: "xs = filter (\<lambda>r. fst r \<le> h) xs @ filter (\<lambda>r. \<not> fst r \<le> h) xs" if "om_ok xs" for xs :: scan_results
    using that
  proof (induction xs)
    case (Cons p xs)
    obtain a b where p: "p = (a, b)" by force
    show ?case
    proof (cases "a \<le> h")
      case True
      then show ?thesis using Cons p by (simp add: om_ok_Cons)
    next
      case False
      then have "filter (\<lambda>r. fst r \<le> h) xs = []" "filter (\<lambda>r. \<not> fst r \<le> h) xs = xs"
        using Cons.prems p by (force simp: om_ok_Cons filter_empty_conv filter_id_conv)+
      then show ?thesis using False p by simp
    qed
  qed simp
  have "om_find (filter (\<lambda>r. fst r \<le> h) M) = om_find (filter (\<lambda>r. fst r \<le> h) V)"
    using assms(3) by (simp add: fun_eq_iff om_find_filter_key [of "\<lambda>k. k \<le> h", unfolded split_def])
  then have "filter (\<lambda>r. fst r \<le> h) M = filter (\<lambda>r. fst r \<le> h) V"
    by (intro om_ok_eqI om_ok_filter assms(1,2))
  then show ?thesis using split [OF assms(1)] split [OF assms(2)] assms(4) by (metis append_eq_conv_conj take_append diff_is_0_eq take0 append_Nil2)
qed

lemma covers_horizon:
  assumes "\<forall>xs \<in> set xss. covers n V xs"
  shows "(\<forall>xs \<in> set xss. length xs \<le> n) \<or>
    (\<exists>h. n \<le> length (filter (\<lambda>r. fst r \<le> h) V) \<and> (\<forall>k \<le> h. \<forall>xs \<in> set xss. length xs \<le> n \<or> k \<le> fst (xs ! (n - 1))))"
  using assms
proof (induction xss)
  case (Cons xs xss)
  show ?case
  proof (cases "length xs \<le> n")
    case False
    let ?a = "fst (xs ! (n - 1))"
    have a: "n \<le> length (filter (\<lambda>r. fst r \<le> ?a) V)" using Cons.prems False by (simp add: covers_def)
    consider "\<forall>xs \<in> set xss. length xs \<le> n" | h where "n \<le> length (filter (\<lambda>r. fst r \<le> h) V)"
      "\<forall>k \<le> h. \<forall>xs \<in> set xss. length xs \<le> n \<or> k \<le> fst (xs ! (n - 1))"
      using Cons by auto
    then show ?thesis
    proof cases
      case 1
      then show ?thesis using a by auto
    next
      case (2 h)
      then show ?thesis using a by (intro disjI2 exI [of _ "min h ?a"]) (auto simp: min_def)
    qed
  qed (use Cons in auto)
qed simp

lemma om_map_values:
  "om_find (map (\<lambda>(k, v). (k, f v)) m) = (\<lambda>k. map_option f (om_find m k))" "om_ok (map (\<lambda>(k, v). (k, f v)) m) \<longleftrightarrow> om_ok m"
  by (simp_all add: om_find_def [abs_def] map_of_map comp_def om_ok_def case_prod_unfold fun_eq_iff map_of_map [unfolded case_prod_unfold])

lemma keys_find: "fst ` set m = dom (om_find m)"
  by (simp add: om_find_def [abs_def] dom_map_of_conv_image_fst)

text \<open>The three sources of a range query, each cut to n records, merged.\<close>

definition merge3 :: "scan_results \<Rightarrow> scan_results \<Rightarrow> scan_results \<Rightarrow> scan_results res" where
  "merge3 D T I = bind_res (merge_loop False D T) (\<lambda>s. merge_loop True s I)"

lemma merge3_spec:
  assumes "om_ok D" "om_ok T" "om_ok I" "disjoint_keys D T"
  obtains rs where "merge3 D T I = Inr rs" "om_ok rs"
    "om_find rs = (\<lambda>k. kept True (newest (newest (om_find D k) (om_find T k)) (om_find I k)))"
proof -
  obtain s where s: "merge_loop False D T = Inr s" "merge_result False D T s" using merge_loop_spec [OF assms(1,2), of False] assms(4) by auto
  moreover obtain rs where "merge_loop True s I = Inr rs" "merge_result True s I rs"
    using merge_loop_spec [OF _ assms(3), of s True] s(2) by (auto simp: merge_result_def)
  ultimately show thesis using that [of rs] by (simp add: merge3_def merge_result_def)
qed

lemma merge3_covered:
  assumes "om_ok D" "om_ok T" "om_ok I" "disjoint_keys D T" "0 < n"
  obtains rs V where "merge3 (take n D) (take n T) (take n I) = Inr rs" "merge3 D T I = Inr V" "om_ok rs" "om_ok V"
    "om_find rs = (\<lambda>k. kept True (newest (newest (om_find (take n D) k) (om_find (take n T) k)) (om_find (take n I) k)))"
    "om_find V = (\<lambda>k. kept True (newest (newest (om_find D k) (om_find T k)) (om_find I k)))"
    "(\<forall>xs \<in> {D, T, I}. covers n V xs) \<longrightarrow> take n rs = take n V"
proof -
  obtain V where V: "merge3 D T I = Inr V" "om_ok V" "om_find V = (\<lambda>k. kept True (newest (newest (om_find D k) (om_find T k)) (om_find I k)))"
    by (rule merge3_spec [OF assms(1-4)])
  have "disjoint_keys (take n D) (take n T)"
    using assms(4) image_mono [OF set_take_subset, of fst n D] image_mono [OF set_take_subset, of fst n T]
    unfolding disjoint_keys_def by blast
  then obtain rs where rs: "merge3 (take n D) (take n T) (take n I) = Inr rs" "om_ok rs"
      "om_find rs = (\<lambda>k. kept True (newest (newest (om_find (take n D) k) (om_find (take n T) k)) (om_find (take n I) k)))"
    by (rule merge3_spec [OF om_ok_take om_ok_take om_ok_take, OF assms(1-3)])
  have "take n rs = take n V" if c: "\<forall>xs \<in> {D, T, I}. covers n V xs"
  proof -
    consider "\<forall>xs \<in> set [D, T, I]. length xs \<le> n" | h where "n \<le> length (filter (\<lambda>r. fst r \<le> h) V)"
      "\<forall>k \<le> h. \<forall>xs \<in> set [D, T, I]. length xs \<le> n \<or> k \<le> fst (xs ! (n - 1))"
      using covers_horizon [of "[D, T, I]" n V] c by auto
    then show ?thesis
    proof cases
      case 1
      then show ?thesis using rs(1) V(1) by simp
    next
      case (2 h)
      then have "om_find rs k = om_find V k" if "k \<le> h" for k
        using that om_find_take [OF assms(1,5), of k] om_find_take [OF assms(2,5), of k] om_find_take [OF assms(3,5), of k]
        by (simp add: rs(3) V(3))
      then show ?thesis using om_prefix [OF rs(2) V(2) _ 2(1)] by blast
    qed
  qed
  then show thesis using that [OF rs(1) V(1) rs(2) V(2) rs(3) V(3)] by simp
qed

text \<open>The state a range query of a method with snapshots needs; m is the content of the database it reads.\<close>

definition snap_content :: "('d \<Rightarrow> byte list \<Rightarrow> byte list option) \<Rightarrow> ('s \<Rightarrow> byte list \<Rightarrow> byte list option) \<Rightarrow> ('d, 's) rocksdb_wrapper \<Rightarrow> (byte list \<Rightarrow> byte list option) option" where
  "snap_content con scon w = (case rw_sp w of Some sp \<Rightarrow> Some (scon sp) | None \<Rightarrow> map_option con (rw_snapshotdb w))"

definition scan_inv :: "('d \<Rightarrow> byte list \<Rightarrow> byte list option) \<Rightarrow> ('s \<Rightarrow> byte list \<Rightarrow> byte list option) \<Rightarrow> ('d, 's) rocksdb_wrapper \<Rightarrow> bool" where
  "scan_inv con scon w \<longleftrightarrow> snapshot_method w \<and> rw_db w \<noteq> None \<and> ds_ok (rw_snapshot_deleted_set w) \<and> om_ok (rw_inswitch_snapshot w) \<and>
     (\<exists>m. snap_content con scon w = Some m \<and> content_ok m \<and> dom (live m) \<inter> dom (ds_lookup (rw_snapshot_deleted_set w)) = {})"

lemma scan_entries_spec:
  assumes "rocksdb_laws kv con scon" "rw_db w \<noteq> None" "snap_content con scon w = Some m"
  shows "\<exists>es. scan_entries kv True k w = Inr es \<and> is_scan m k es"
  using assms(2,3) rocksdb_lawsD(5,6) [OF assms(1)]
  by (auto simp: scan_entries_def snap_content_def deref_def split: option.splits)

text \<open>What a range query answers. From each of the three sources of the snapshot (D, T and the records of the switch) the
  first n records from the start key on are taken, and the answer is the first n of the newest existing records among them
  (R). It is the beginning of the list V of all visible records, if the first n records of each source are enough to
  determine it.\<close>

definition scan_answer :: "net_key \<Rightarrow> nat \<Rightarrow> (byte list \<Rightarrow> byte list option) \<Rightarrow> (net_key \<Rightarrow> u32 option) \<Rightarrow> (net_key, snapshot_record) omap \<Rightarrow> scan_results \<Rightarrow> bool" where
  "scan_answer startkey n m t i rs \<longleftrightarrow>
     (\<exists>D T V R. lists_from startkey (\<lambda>k. map_option scan_record (live m k)) D \<and> lists_from startkey (\<lambda>k. map_option tomb_record (t k)) T \<and>
       lists_from startkey (visible m t (om_find i)) V \<and> om_ok R \<and>
       om_find R = (\<lambda>k. kept True (newest (newest (om_find (take n D) k) (om_find (take n T) k)) (om_find (take n (om_lower_bound startkey i)) k))) \<and>
       rs = take n R \<and> ((\<forall>xs \<in> {D, T, om_lower_bound startkey i}. covers n V xs) \<longrightarrow> rs = take n V))"

text \<open>The snapshot leaves no choice.\<close>

lemma scan_answer_unique:
  assumes "scan_answer startkey n m t i rs" "scan_answer startkey n m t i rs'"
  shows "rs = rs'"
proof -
  let ?I = "take n (om_lower_bound startkey i)"
  have same: "xs = ys" if "lists_from startkey f xs" "lists_from startkey f ys" for f xs ys
    using that om_ok_eqI [of xs ys] by (simp add: lists_from_def)
  obtain D T R where a: "lists_from startkey (\<lambda>k. map_option scan_record (live m k)) D" "lists_from startkey (\<lambda>k. map_option tomb_record (t k)) T"
      "om_ok R" "om_find R = (\<lambda>k. kept True (newest (newest (om_find (take n D) k) (om_find (take n T) k)) (om_find ?I k)))" "rs = take n R"
    using assms(1) unfolding scan_answer_def by (elim exE conjE)
  obtain D' T' R' where b: "lists_from startkey (\<lambda>k. map_option scan_record (live m k)) D'" "lists_from startkey (\<lambda>k. map_option tomb_record (t k)) T'"
      "om_ok R'" "om_find R' = (\<lambda>k. kept True (newest (newest (om_find (take n D') k) (om_find (take n T') k)) (om_find ?I k)))" "rs' = take n R'"
    using assms(2) unfolding scan_answer_def by (elim exE conjE)
  have "R = R'" by (rule om_ok_eqI [OF a(3) b(3)]) (simp only: a(4) b(4) same [OF a(1) b(1)] same [OF a(2) b(2)])
  then show ?thesis by (simp add: a(5) b(5))
qed

lemma range_scan_spec:
  assumes laws: "rocksdb_laws kv con scon" and inv: "scan_inv con scon w" and m: "snap_content con scon w = Some m"
    and n: "get_scanrecordcnt startkey endkey = Inr n"
  shows "\<exists>rs. rw_range_scan kv startkey endkey w = Inr rs \<and>
     scan_answer startkey (nat n) m (ds_lookup (rw_snapshot_deleted_set w)) (rw_inswitch_snapshot w) rs"
proof -
  let ?t = "rw_snapshot_deleted_set w"
  have w: "snapshot_method w" "rw_db w \<noteq> None" "ds_ok ?t" "om_ok (rw_inswitch_snapshot w)" "content_ok m" "dom (live m) \<inter> dom (ds_lookup ?t) = {}"
    using inv m by (auto simp: scan_inv_def)
  have n0: "0 < nat n" using n by (auto simp: get_scanrecordcnt_def invariant_def Let_def split: if_splits)
  obtain es where es: "scan_entries kv True (to_string_for_rocksdb startkey) w = Inr es" "is_scan m (to_string_for_rocksdb startkey) es"
    using scan_entries_spec [OF laws w(2) m] by blast
  define D where "D = map decode es"
  define T where "T = map (\<lambda>(k, s). (k, tomb_record s)) (om_lower_bound startkey (records_sorted_bykey ?t))"
  define I where "I = om_lower_bound startkey (rw_inswitch_snapshot w)"
  note D = scan_list [OF es(2) w(5), folded D_def]
  have okT: "om_ok (records_sorted_bykey ?t)" using w(3) by (simp add: ds_ok_def linked_def)
  have T: "om_ok T" "om_find T = (\<lambda>k. if startkey \<le> k then map_option tomb_record (ds_lookup ?t k) else None)"
    "ds_range_scan startkey endkey ?t = Inr (take (nat n) T)"
    using okT n by (auto simp: T_def om_map_values om_ok_lower_bound om_find_lower_bound ds_lookup_def)
      (simp add: ds_range_scan_def tomb_record_def take_map)
  have I: "om_ok I" "om_find I = (\<lambda>k. if startkey \<le> k then om_find (rw_inswitch_snapshot w) k else None)"
    using w(4) by (auto simp: I_def om_ok_lower_bound om_find_lower_bound)
  have dj: "disjoint_keys D T" using w(6) by (auto simp: disjoint_keys_def keys_find D(3) T(2) dom_def split: if_splits)
  obtain rs V where rs: "merge3 (take (nat n) D) (take (nat n) T) (take (nat n) I) = Inr rs" "merge3 D T I = Inr V" "om_ok rs" "om_ok V"
    "om_find V = (\<lambda>k. kept True (newest (newest (om_find D k) (om_find T k)) (om_find I k)))"
    "(\<forall>xs \<in> {D, T, I}. covers (nat n) V xs) \<longrightarrow> take (nat n) rs = take (nat n) V"
    "om_find rs = (\<lambda>k. kept True (newest (newest (om_find (take (nat n) D) k) (om_find (take (nat n) T) k)) (om_find (take (nat n) I) k)))"
    by (rule merge3_covered [OF D(2) T(1) I(1) dj n0])
  have V: "om_find V = (\<lambda>k. if startkey \<le> k then visible m (ds_lookup ?t) (om_find (rw_inswitch_snapshot w)) k else None)"
  proof
    fix k
    show "om_find V k = (if startkey \<le> k then visible m (ds_lookup ?t) (om_find (rw_inswitch_snapshot w)) k else None)"
      using w(6) [unfolded dom_disjoint, rule_format, of k]
      by (cases "live m k") (auto simp: rs(5) D(3) T(2) I(2) visible_def server_rec_def)
  qed
  have "method_needsnapshot w = Inr True" using w(1) by (auto simp: methods_simps)
  then have "rw_range_scan kv startkey endkey w = Inr (take (nat n) rs)"
    using rs(1) by (cases "merge_loop False (take (nat n) D) (take (nat n) T)")
      (simp_all add: rw_range_scan_def es(1) n D(1) T(3) merge_sort_loop [OF w(1)] merge3_def I_def Let_def)
  moreover have "scan_answer startkey (nat n) m (ds_lookup ?t) (rw_inswitch_snapshot w) (take (nat n) rs)"
    using rs(3,4,6,7) D(2,3) T(1,2) V unfolding scan_answer_def lists_from_def I_def [symmetric]
    by (intro exI [of _ D] exI [of _ T] exI [of _ V] exI [of _ rs]) simp
  ultimately show ?thesis by blast
qed

section \<open>Properties\<close>

text \<open>C10: on sorted lists without duplicates \<^verbatim>\<open>merge_sort\<close> computes the sorted list of the newest existing record of
  every key (the first list wins a tie) when deleted records are to be dropped; otherwise it is the union of the lists,
  and it aborts exactly if they share a key.\<close>

theorem merge_sort_newest:
  assumes "snapshot_method w" "om_ok as" "om_ok bs"
  shows "(\<exists>rs. merge_sort as bs True w = Inr rs \<and> om_ok rs \<and> om_find rs = (\<lambda>k. kept True (newest (om_find as k) (om_find bs k)))) \<and>
    (if disjoint_keys as bs then \<exists>rs. merge_sort as bs False w = Inr rs \<and> om_ok rs \<and> om_find rs = om_find bs ++ om_find as
     else merge_sort as bs False w = Inl Abort)"
proof -
  have union: "(\<lambda>k. newest (om_find as k) (om_find bs k)) = om_find bs ++ om_find as" if "disjoint_keys as bs"
  proof
    fix k
    have "om_find as k = None \<or> om_find bs k = None" using that by (auto simp: disjoint_keys_def keys_find)
    then show "newest (om_find as k) (om_find bs k) = (om_find bs ++ om_find as) k" by (auto simp: map_add_def split: option.split)
  qed
  obtain r1 where r1: "merge_sort as bs True w = Inr r1" "merge_result True as bs r1" using merge_sort_spec [OF assms, of True] by auto
  have "\<exists>rs. merge_sort as bs False w = Inr rs \<and> om_ok rs \<and> om_find rs = om_find bs ++ om_find as" if "disjoint_keys as bs"
    using merge_sort_spec [OF assms, of False] that union [OF that] by (auto simp: merge_result_def)
  moreover have "merge_sort as bs False w = Inl Abort" if "\<not> disjoint_keys as bs"
    using merge_sort_spec [OF assms, of False] that by simp
  moreover have "\<exists>rs. merge_sort as bs True w = Inr rs \<and> om_ok rs \<and> om_find rs = (\<lambda>k. kept True (newest (om_find as k) (om_find bs k)))"
    using r1 by (simp add: merge_result_def)
  ultimately show ?thesis by simp
qed

theorem merge_sort_newest_witness:
  "merge_sort [(key_min, scan_record (val_default, 3))] [(key_min, tomb_record 5)] True demo_store = Inr [] \<and>
   merge_sort [(key_min, scan_record (val_default, 3))] [(key_min, tomb_record 5)] False demo_store = Inl Abort"
proof -
  let ?a = "[(key_min, scan_record (val_default, 3))]" and ?b = "[(key_min, tomb_record 5)]"
  have "\<not> disjoint_keys ?a ?b" "om_ok ?a" "om_ok ?b" by (simp_all add: disjoint_keys_def om_ok_def)
  moreover have "(\<lambda>k. kept True (newest (om_find ?a k) (om_find ?b k))) = om_find []"
    by (simp add: fun_eq_iff kept_def scan_record_def tomb_record_def)
  ultimately obtain rs where "merge_sort ?a ?b True demo_store = Inr rs" "om_ok rs" "om_find rs = om_find []" "merge_sort ?a ?b False demo_store = Inl Abort"
    using merge_sort_newest [OF kv_ok_demo(4), of ?a ?b] by auto
  then show ?thesis using om_ok_eqI [of rs "[]"] by simp
qed

end
