(* ===== verification/Kv_Snapshot.thy ===== *)
theory Kv_Snapshot
  imports Kv_Scan
begin

text \<open>
  Snapshots, recovery and shutdown of the storage engine (src/common/rocksdb_wrapper.c): \<^verbatim>\<open>open\<close>, the destructor,
  \<^verbatim>\<open>init_snapshot\<close>, \<^verbatim>\<open>clean_snapshot\<close>, \<^verbatim>\<open>make_snapshot\<close>, \<^verbatim>\<open>update_snapshot\<close>,
  \<^verbatim>\<open>stop_snapshot\<close> and the files they use. The state is the file system beside the wrapper; the directories RocksDB
  manages are not part of it. What is stored under the path of the database is passed to \<^verbatim>\<open>open\<close> and returned by the
  destructor. \<^verbatim>\<open>mem n\<close> is the uninitialised memory a buffer of n bytes starts with, snapshot numbers are
  \<^verbatim>\<open>int\<close> and are converted to \<^verbatim>\<open>uint32_t\<close> in the file names.
\<close>

type_synonym ('d, 's) store_state = "fs \<times> ('d, 's) rocksdb_wrapper"

definition MAX_BUFSIZE :: nat where
  "MAX_BUFSIZE = 40960"

definition MAX_LARGE_BUFSIZE :: nat where
  "MAX_LARGE_BUFSIZE = 8388608"

definition get_snapshotid :: "('d, 's) rocksdb_wrapper \<Rightarrow> int res" where
  "get_snapshotid w = bind_res (require_snapshot w) (\<lambda>_. Inr (rw_snapshotid w))"

section \<open>Files\<close>

definition flush_latestmaxseq :: "('d, 's) store_state \<Rightarrow> ('d, 's) store_state res" where
  "flush_latestmaxseq s = (case s of (f, w) \<Rightarrow>
     bind_res (get_server_latestmaxseq_path (rw_methodid w) (rw_workerid w)) (\<lambda>latestmaxseq_path.
     Inr (store_maxseq (rw_maxseq w) latestmaxseq_path f, w)))"

text \<open>\<^verbatim>\<open>deleted_set.store(path)\<close>.\<close>

definition store_deleted_set :: "(nat \<Rightarrow> byte list) \<Rightarrow> deleted_set \<Rightarrow> string \<Rightarrow> fs \<Rightarrow> fs res" where
  "store_deleted_set mem d path f = bind_res (ds_store (mem MAX_BUFSIZE) d) (\<lambda>content. Inr (f(path \<mapsto> content)))"

definition put_record :: "net_key \<times> snapshot_record \<Rightarrow> writer" where
  "put_record kr = wseq [key_serialize (fst kr), val_serialize (sr_val (snd kr)), put_bytes (le32 (sr_seq (snd kr))),
     put_bytes [if sr_stat (snd kr) then 1 else 0]]"

definition store_inswitch_snapshot :: "(nat \<Rightarrow> byte list) \<Rightarrow> int \<Rightarrow> ('d, 's) store_state \<Rightarrow> ('d, 's) store_state res" where
  "store_inswitch_snapshot mem tmpsnapshotid s = (case s of (f, w) \<Rightarrow>
     bind_res (require_snapshot w) (\<lambda>_.
     bind_res (get_server_inswitchsnapshot_path (rw_methodid w) (rw_workerid w) (word_of_int tmpsnapshotid)) (\<lambda>inswitchsnapshot_path.
     bind_res (wseq (put_bytes (le32 (of_nat (length (rw_inswitch_snapshot w)))) # map put_record (rw_inswitch_snapshot w))
       (mem MAX_LARGE_BUFSIZE, 0)) (\<lambda>(tmpbuf, tmpbuflen).
     Inr (store_buf (take tmpbuflen tmpbuf) inswitchsnapshot_path f, w)))))"

definition get_record :: "(net_key \<times> snapshot_record) reader" where
  "get_record = rbind key_deserialize (\<lambda>k. rbind val_deserialize (\<lambda>v. rbind get32 (\<lambda>seq. rbind get_bool (\<lambda>stat.
     rreturn (k, \<lparr>sr_val = v, sr_seq = seq, sr_stat = stat\<rparr>)))))"

fun load_inswitch_records :: "nat \<Rightarrow> wbuf \<Rightarrow> (net_key, snapshot_record) omap \<Rightarrow> (net_key, snapshot_record) omap res" where
  "load_inswitch_records 0 s m = Inr m"
| "load_inswitch_records (Suc n) s m = bind_res (get_record s) (\<lambda>((k, r), s'). load_inswitch_records n s' (fst (om_insert k r m)))"

definition load_inswitch_snapshot :: "int \<Rightarrow> ('d, 's) store_state \<Rightarrow> ('d, 's) store_state res" where
  "load_inswitch_snapshot tmpsnapshotid s = (case s of (f, w) \<Rightarrow>
     bind_res (require_snapshot w) (\<lambda>_.
     bind_res (get_server_inswitchsnapshot_path (rw_methodid w) (rw_workerid w) (word_of_int tmpsnapshotid)) (\<lambda>inswitchsnapshot_path.
     if \<not> isexist f inswitchsnapshot_path then Inr (f, w)
     else bind_res (readonly_mmap f inswitchsnapshot_path (get_filesize f inswitchsnapshot_path)) (\<lambda>p.
       bind_res (deref p) (\<lambda>tmpbuf.
       bind_res (get32 (tmpbuf, 0)) (\<lambda>(tmprecordcnt, r).
       bind_res (load_inswitch_records (nat (sint tmprecordcnt)) r []) (\<lambda>m. Inr (f, w\<lparr>rw_inswitch_snapshot := m\<rparr>))))))))"

text \<open>The sequence number is passed to \<^verbatim>\<open>CreateCheckpoint\<close>, which only stores into it: the checkpoint is one of the
  current database.\<close>

definition create_snapshotdb_checkpoint :: "('d, 's) rocksdb \<Rightarrow> u64 \<Rightarrow> ('d, 's) rocksdb_wrapper \<Rightarrow> ('d, 's) rocksdb_wrapper res" where
  "create_snapshotdb_checkpoint kv snapshotdbseq w =
     bind_res (require_snapshot w) (\<lambda>_.
     bind_res (invariant (rw_db w \<noteq> None)) (\<lambda>_.
     bind_res (deref (rw_db w)) (\<lambda>db.
     bind_res (get_server_snapshotdb_path (rw_methodid w) (rw_workerid w)) (\<lambda>snapshotdb_path.
     let (snapshotdb, ok) = db_CreateCheckpoint kv db in
     bind_res (invariant ok) (\<lambda>_. Inr (w\<lparr>rw_snapshotdb := Some snapshotdb\<rparr>))))))"

definition load_serverside_snapshot_files :: "('d, 's) rocksdb \<Rightarrow> int \<Rightarrow> ('d, 's) store_state \<Rightarrow> ('d, 's) store_state res" where
  "load_serverside_snapshot_files kv tmpsnapshotid s = (case s of (f, w) \<Rightarrow>
     let m = rw_methodid w; wid = rw_workerid w; i = word_of_int tmpsnapshotid in
     bind_res (require_snapshot w) (\<lambda>_.
     bind_res (get_server_snapshotdbseq_path m wid i) (\<lambda>snapshotdbseq_path.
     bind_res (invariant (isexist f snapshotdbseq_path)) (\<lambda>_.
     bind_res (load_snapshotdbseq f snapshotdbseq_path) (\<lambda>snapshotdbseq.
     bind_res (create_snapshotdb_checkpoint kv snapshotdbseq w) (\<lambda>w1.
     bind_res (get_server_snapshotdeletedset_path m wid i) (\<lambda>snapshotdeletedset_path.
     bind_res (invariant (isexist f snapshotdeletedset_path)) (\<lambda>_.
     bind_res (ds_load (f snapshotdeletedset_path) (rw_snapshot_deleted_set w1)) (\<lambda>ds.
     bind_res (get_server_snapshotmaxseq_path m wid i) (\<lambda>snapshotmaxseq_path.
     bind_res (load_maxseq f snapshotmaxseq_path) (\<lambda>maxseq.
     Inr (f, w1\<lparr>rw_sp := None, rw_snapshot_deleted_set := ds, rw_maxseq := maxseq\<rparr>))))))))))))"

definition load_snapshot_files :: "('d, 's) rocksdb \<Rightarrow> int \<Rightarrow> ('d, 's) store_state \<Rightarrow> ('d, 's) store_state res" where
  "load_snapshot_files kv tmpsnapshotid s =
     bind_res (require_snapshot (snd s)) (\<lambda>_.
     bind_res (load_serverside_snapshot_files kv tmpsnapshotid s) (\<lambda>s1.
     load_inswitch_snapshot tmpsnapshotid s1))"

definition remove_snapshot_files :: "int \<Rightarrow> ('d, 's) store_state \<Rightarrow> ('d, 's) store_state res" where
  "remove_snapshot_files tmpsnapshotid s = (case s of (f, w) \<Rightarrow>
     let m = rw_methodid w; wid = rw_workerid w; i = word_of_int tmpsnapshotid in
     bind_res (require_snapshot w) (\<lambda>_.
     bind_res (get_server_snapshotdbseq_path m wid i) (\<lambda>p1.
     bind_res (get_server_snapshotdeletedset_path m wid i) (\<lambda>p2.
     bind_res (get_server_snapshotmaxseq_path m wid i) (\<lambda>p3.
     bind_res (get_server_inswitchsnapshot_path m wid i) (\<lambda>p4.
     Inr (rmfiles p4 (rmfiles p3 (rmfiles p2 (rmfiles p1 f))), w)))))))"

text \<open>The three files of a server-side snapshot: the sequence number of the database, tombstones and \<^verbatim>\<open>maxseq\<close>.\<close>

definition store_serverside :: "(nat \<Rightarrow> byte list) \<Rightarrow> int \<Rightarrow> u64 \<Rightarrow> deleted_set \<Rightarrow> ('d, 's) store_state \<Rightarrow> ('d, 's) store_state res" where
  "store_serverside mem tmpsnapshotid snapshotdbseq ds s = (case s of (f, w) \<Rightarrow>
     let m = rw_methodid w; wid = rw_workerid w; i = word_of_int tmpsnapshotid in
     bind_res (get_server_snapshotdbseq_path m wid i) (\<lambda>snapshotdbseq_path.
     bind_res (get_server_snapshotdeletedset_path m wid i) (\<lambda>snapshotdeletedset_path.
     bind_res (store_deleted_set mem ds snapshotdeletedset_path (store_snapshotdbseq snapshotdbseq snapshotdbseq_path f)) (\<lambda>f1.
     bind_res (get_server_snapshotmaxseq_path m wid i) (\<lambda>snapshotmaxseq_path.
     Inr (store_maxseq (rw_maxseq w) snapshotmaxseq_path f1, w))))))"

section \<open>Snapshots\<close>

text \<open>The flag \<^verbatim>\<open>is_snapshot\<close> is set when the function starts and cleared when it ends.\<close>

definition init_snapshot :: "('d, 's) rocksdb \<Rightarrow> (nat \<Rightarrow> byte list) \<Rightarrow> ('d, 's) store_state \<Rightarrow> ('d, 's) store_state res" where
  "init_snapshot kv mem s = (case s of (f, w) \<Rightarrow>
     bind_res (require_snapshot w) (\<lambda>_.
     if rw_snapshotid w \<noteq> -1 then Inr (f, w)
     else if rw_is_snapshot w then Inr (f, w)
     else
       bind_res (deref (rw_db w)) (\<lambda>db.
       let sp = db_GetSnapshot kv db; snapshotdbseq = db_GetSequenceNumber kv sp in
       bind_res (invariant (rw_snapshotdb w = None)) (\<lambda>_.
       bind_res (invariant (ds_size (rw_snapshot_deleted_set w) = 0)) (\<lambda>_.
       bind_res (invariant (length (rw_inswitch_snapshot w) = 0)) (\<lambda>_.
       bind_res (invariant (rw_latest_sp w = None)) (\<lambda>_.
       bind_res (invariant (ds_size (rw_latest_snapshot_deleted_set w) = 0)) (\<lambda>_.
       let w1 = w\<lparr>rw_sp := Some sp, rw_snapshotid := rw_snapshotid w + 1\<rparr> in
       bind_res (invariant (rw_snapshotid w1 = 0)) (\<lambda>_.
       bind_res (store_serverside mem (rw_snapshotid w1) snapshotdbseq (rw_snapshot_deleted_set w1) (f, w1)) (\<lambda>s1.
       store_inswitch_snapshot mem (rw_snapshotid w1) s1))))))))))"

definition clean_snapshot :: "('d, 's) rocksdb \<Rightarrow> (nat \<Rightarrow> byte list) \<Rightarrow> int \<Rightarrow> ('d, 's) store_state \<Rightarrow> ('d, 's) store_state res" where
  "clean_snapshot kv mem tmpsnapshotid s =
     bind_res (require_snapshot (snd s)) (\<lambda>_.
     bind_res (if rw_snapshotid (snd s) = -1 then init_snapshot kv mem s else Inr s) (\<lambda>s1.
     let snapshotid = rw_snapshotid (snd s1) in
     bind_res (invariant (tmpsnapshotid = snapshotid \<or> tmpsnapshotid = snapshotid + 1)) (\<lambda>_.
     bind_res (remove_snapshot_files tmpsnapshotid s1) (\<lambda>(f, w).
     let w1 = w\<lparr>rw_latest_sp := None, rw_latest_snapshot_deleted_set := ds_clear (rw_latest_snapshot_deleted_set w)\<rparr> in
     if tmpsnapshotid = snapshotid then
       let w2 = w1\<lparr>rw_sp := None, rw_snapshot_deleted_set := ds_clear (rw_snapshot_deleted_set w1), rw_inswitch_snapshot := []\<rparr> in
       bind_res (load_snapshot_files kv (snapshotid - 1) (f, w2)) (\<lambda>(f2, w3). Inr (f2, w3\<lparr>rw_snapshotid := rw_snapshotid w3 - 1\<rparr>))
     else Inr (f, w1)))))"

definition make_snapshot :: "('d, 's) rocksdb \<Rightarrow> (nat \<Rightarrow> byte list) \<Rightarrow> int \<Rightarrow> ('d, 's) store_state \<Rightarrow> (bool \<times> ('d, 's) store_state) res" where
  "make_snapshot kv mem tmpsnapshotid s = (case s of (f, w) \<Rightarrow>
     bind_res (require_snapshot w) (\<lambda>_.
     bind_res (invariant (0 \<le> tmpsnapshotid)) (\<lambda>_.
     if rw_snapshotid w = -1 then Inr (False, f, w)
     else if rw_is_snapshot w then Inr (False, f, w)
     else
       bind_res (deref (rw_db w)) (\<lambda>db.
       let latest_sp = db_GetSnapshot kv db;
           w1 = w\<lparr>rw_is_snapshot := True, rw_latest_sp := Some latest_sp,
             rw_latest_snapshot_deleted_set := ds_assign (rw_latest_snapshot_deleted_set w) (rw_deleted_set w)\<rparr> in
       bind_res (store_serverside mem (rw_snapshotid w1 + 1) (db_GetSequenceNumber kv latest_sp) (rw_snapshot_deleted_set w1) (f, w1)) (\<lambda>s1.
       Inr (True, s1))))))"

definition update_snapshot :: "('d, 's) rocksdb \<Rightarrow> (nat \<Rightarrow> byte list) \<Rightarrow> (net_key, snapshot_record) omap \<Rightarrow> int \<Rightarrow> ('d, 's) store_state \<Rightarrow> ('d, 's) store_state res" where
  "update_snapshot kv mem tmp_inswitch_snapshot tmpsnapshotid s = (case s of (f, w) \<Rightarrow>
     bind_res (require_snapshot w) (\<lambda>_.
     bind_res (invariant (tmpsnapshotid = rw_snapshotid w + 1)) (\<lambda>_.
     let w1 = w\<lparr>rw_sp := None, rw_snapshot_deleted_set := ds_clear (rw_snapshot_deleted_set w), rw_inswitch_snapshot := []\<rparr> in
     bind_res (case rw_latest_sp w1 of
         Some sp \<Rightarrow> Inr (f, w1\<lparr>rw_sp := Some sp, rw_snapshot_deleted_set := ds_assign (rw_snapshot_deleted_set w1) (rw_latest_snapshot_deleted_set w1)\<rparr>)
       | None \<Rightarrow> load_serverside_snapshot_files kv (rw_snapshotid w1 + 1) (f, w1)) (\<lambda>(f2, w2).
     let w3 = w2\<lparr>rw_latest_sp := None, rw_latest_snapshot_deleted_set := ds_clear (rw_latest_snapshot_deleted_set w2),
           rw_inswitch_snapshot := tmp_inswitch_snapshot, rw_snapshotid := rw_snapshotid w2 + 1\<rparr> in
     bind_res (store_inswitch_snapshot mem (rw_snapshotid w3) (f2, w3)) (\<lambda>(f4, w4).
     bind_res (get_server_snapshotid_path (rw_methodid w4) (rw_workerid w4)) (\<lambda>snapshotid_path.
     let s5 = (store_snapshotid (rw_snapshotid w4) snapshotid_path f4, w4) in
     if 2 \<le> rw_snapshotid w4 then remove_snapshot_files (rw_snapshotid w4 - 2) s5 else Inr s5))))))"

definition stop_snapshot :: "('d, 's) store_state \<Rightarrow> ('d, 's) store_state res" where
  "stop_snapshot s = (case s of (f, w) \<Rightarrow> bind_res (require_snapshot w) (\<lambda>_. Inr (f, w\<lparr>rw_is_snapshot := False\<rparr>)))"

section \<open>Opening and closing\<close>

text \<open>\<^verbatim>\<open>stored\<close> is the database in the directory, if there is one.\<close>

definition rw_open :: "('d, 's) rocksdb \<Rightarrow> 'd option \<Rightarrow> u16 \<Rightarrow> ('d, 's) store_state \<Rightarrow> (bool \<times> ('d, 's) store_state) res" where
  "rw_open kv stored tmpworkerid s = (case s of (f, w0) \<Rightarrow>
     let m = rw_methodid w0; is_runtime_existing = (stored \<noteq> None); w = w0\<lparr>rw_workerid := tmpworkerid\<rparr> in
     bind_res (get_server_db_path m tmpworkerid) (\<lambda>db_path.
     let (db, ok) = db_Open kv stored in
     if \<not> ok then Inl Exit
     else
       let w1 = w\<lparr>rw_db := Some db\<rparr> in
       bind_res (method_needsnapshot w1) (\<lambda>needsnapshot.
       bind_res
         (if \<not> needsnapshot then Inr (f, w1)
          else
            bind_res (get_server_deletedset_path m tmpworkerid) (\<lambda>deletedset_path.
            bind_res (if is_runtime_existing \<and> isexist f deletedset_path then ds_load (f deletedset_path) (rw_deleted_set w1)
              else Inr (ds_clear (rw_deleted_set w1))) (\<lambda>ds.
            let w2 = w1\<lparr>rw_deleted_set := ds\<rparr> in
            bind_res (get_server_snapshotid_path m tmpworkerid) (\<lambda>snapshotid_path.
            if isexist f snapshotid_path then
              bind_res (load_snapshotid f snapshotid_path) (\<lambda>snapshotid.
              bind_res (invariant (0 \<le> snapshotid)) (\<lambda>_.
              bind_res (load_snapshot_files kv snapshotid (f, w2\<lparr>rw_snapshotid := snapshotid\<rparr>)) (\<lambda>(f3, w3).
              Inr (f3, w3\<lparr>rw_latest_sp := None\<rparr>))))
            else
              Inr (f, w2\<lparr>rw_snapshotid := -1, rw_snapshotdb := None, rw_snapshot_deleted_set := ds_clear (rw_snapshot_deleted_set w2),
                rw_inswitch_snapshot := [], rw_sp := None, rw_latest_sp := None,
                rw_latest_snapshot_deleted_set := ds_clear (rw_latest_snapshot_deleted_set w2)\<rparr>))))) (\<lambda>(f4, w4).
       bind_res (get_server_latestmaxseq_path m tmpworkerid) (\<lambda>latestmaxseq_path.
       bind_res
         (if isexist f4 latestmaxseq_path then
            bind_res (load_maxseq f4 latestmaxseq_path) (\<lambda>tmpmaxseq. Inr (if rw_maxseq w4 < tmpmaxseq then tmpmaxseq else rw_maxseq w4))
          else Inr (rw_maxseq w4)) (\<lambda>maxseq.
       Inr (is_runtime_existing, f4, w4\<lparr>rw_maxseq := maxseq\<rparr>)))))))"

text \<open>The destructor leaves the files and the database directory.\<close>

definition rw_close :: "(nat \<Rightarrow> byte list) \<Rightarrow> ('d, 's) store_state \<Rightarrow> (fs \<times> 'd option) res" where
  "rw_close mem s =
     bind_res (flush_latestmaxseq s) (\<lambda>(f, w).
     bind_res (method_needsnapshot w) (\<lambda>needsnapshot.
     bind_res
       (if needsnapshot then
          bind_res (get_server_deletedset_path (rw_methodid w) (rw_workerid w)) (\<lambda>deletedset_path.
          store_deleted_set mem (rw_deleted_set w) deletedset_path (rmfiles deletedset_path f))
        else Inr f) (\<lambda>f1.
     Inr (f1, rw_db w))))"

end
