(* ===== verification/Kv_Protocol.thy ===== *)
theory Kv_Protocol
  imports Kv_Snapshot
begin

text \<open>
  The snapshot protocol of the storage engine: what each operation of \<^verbatim>\<open>Kv_Snapshot\<close> does to state and files, the
  invariant of the engine between the operations of a server that follows the common case of the protocol, range queries as
  reads of a point in time, and restarts. The read-only lookups of the abstract store are those of \<^verbatim>\<open>Kv_Store\<close> and
  \<^verbatim>\<open>Kv_Scan\<close>.
\<close>

section \<open>Files\<close>

definition spath :: "server_file \<Rightarrow> ('d, 's) rocksdb_wrapper \<Rightarrow> string" where
  "spath k w = projr (server_path k (rw_methodid w) (rw_workerid w))"

lemma spath_eq: "rw_methodid w \<noteq> INVALID_ID \<Longrightarrow> server_path k (rw_methodid w) (rw_workerid w) = Inr (spath k w)"
  using server_path_total [of "rw_methodid w" k "rw_workerid w"] by (auto simp: spath_def)

lemma spath_inject: "rw_methodid w \<noteq> INVALID_ID \<Longrightarrow> spath k w = spath k' w \<longleftrightarrow> k = k'"
  using spath_eq [of w k] spath_eq [of w k'] server_path_inject by metis

lemma spath_cong: "rw_methodid w = rw_methodid w' \<Longrightarrow> rw_workerid w = rw_workerid w' \<Longrightarrow> spath k w = spath k w'"
  by (simp add: spath_def)

lemmas spath_simps = spath_eq [where k = Deletedset, simplified] spath_eq [where k = Snapshotid, simplified]
  spath_eq [where k = Snapshotdb, simplified] spath_eq [where k = Latestmaxseq, simplified] spath_eq [where k = Db, simplified]
  spath_eq [where k = "Snapshotdbseq i" for i, simplified] spath_eq [where k = "Inswitchsnapshot i" for i, simplified]
  spath_eq [where k = "Snapshotdeletedset i" for i, simplified] spath_eq [where k = "Snapshotmaxseq i" for i, simplified]

definition mem_ok :: "(nat \<Rightarrow> byte list) \<Rightarrow> bool" where
  "mem_ok mem \<longleftrightarrow> (\<forall>n. length (mem n) = n)"

lemma snapshot_method_valid: "snapshot_method w \<Longrightarrow> rw_methodid w \<noteq> INVALID_ID"
  by auto

lemma require_snapshot_ok: "snapshot_method w \<Longrightarrow> require_snapshot w = Inr ()"
  by (auto simp: require_snapshot_def methods_simps invariant_def)

lemma store_deleted_set_eq: "mem_ok mem \<Longrightarrow> store_deleted_set mem d path f = Inr (f(path \<mapsto> ds_file d))"
  by (simp add: store_deleted_set_def ds_store_file mem_ok_def MAX_BUFSIZE_def)

section \<open>The file of the in-switch snapshot\<close>

definition record_bytes :: "net_key \<times> snapshot_record \<Rightarrow> byte list" where
  "record_bytes kr = key_bytes (fst kr) @ val_pat (sr_val (snd kr)) @ le32 (sr_seq (snd kr)) @ [if sr_stat (snd kr) then 1 else 0]"

definition inswitch_file :: "(net_key, snapshot_record) omap \<Rightarrow> byte list" where
  "inswitch_file m = le32 (of_nat (length m)) @ concat (map record_bytes m)"

definition inswitch_ok :: "(net_key, snapshot_record) omap \<Rightarrow> bool" where
  "inswitch_ok m \<longleftrightarrow> om_ok m \<and> list_all (\<lambda>r. val_small (sr_val (snd r))) m \<and> length (inswitch_file m) \<le> MAX_LARGE_BUFSIZE"

lemma emits_put_record: "val_small (sr_val (snd kr)) \<Longrightarrow> emits (put_record kr) (bytes_pat (record_bytes kr))"
proof -
  assume v: "val_small (sr_val (snd kr))"
  have "emits (put_record kr) (bytes_pat (key_bytes (fst kr)) @ bytes_pat (val_pat (sr_val (snd kr))) @ bytes_pat (le32 (sr_seq (snd kr))) @
      bytes_pat [if sr_stat (snd kr) then 1 else 0])"
    unfolding put_record_def using v
    by (intro emits_wseq_Cons emits_wseq_single emits_key_serialize emits_val_serialize emits_put_bytes) (simp add: val_small_def)
  then show ?thesis by (simp add: record_bytes_def)
qed

lemma emits_records:
  "list_all (\<lambda>r. val_small (sr_val (snd r))) m \<Longrightarrow> emits (wseq (map put_record m)) (bytes_pat (concat (map record_bytes m)))"
proof (induction m)
  case Nil
  show ?case using emits_wseq_Nil by (simp del: wseq.simps)
next
  case (Cons r m)
  then show ?case using emits_wseq_Cons [OF emits_put_record [of r] Cons.IH] by (simp del: wseq.simps)
qed

lemma store_inswitch_eq:
  assumes "mem_ok mem" "snapshot_method w" "inswitch_ok (rw_inswitch_snapshot w)"
  shows "store_inswitch_snapshot mem i (f, w) = Inr (f(spath (Inswitchsnapshot (word_of_int i)) w \<mapsto> inswitch_file (rw_inswitch_snapshot w)), w)"
proof -
  let ?m = "rw_inswitch_snapshot w" and ?buf = "mem MAX_LARGE_BUFSIZE"
  have "emits (wseq (put_bytes (le32 (of_nat (length ?m))) # map put_record ?m)) (bytes_pat (inswitch_file ?m))"
    using emits_wseq_Cons [OF emits_put_bytes emits_records [of ?m]] assms(3) by (simp add: inswitch_ok_def inswitch_file_def)
  moreover have fits: "0 + length (inswitch_file ?m) \<le> length ?buf" using assms(1,3) by (simp add: mem_ok_def inswitch_ok_def)
  ultimately have "wseq (put_bytes (le32 (of_nat (length ?m))) # map put_record ?m) (?buf, 0) =
      Inr (overwrite 0 (inswitch_file ?m) ?buf, length (inswitch_file ?m))"
    using overlay_bytes [OF fits] by (simp add: emits_def del: wseq.simps)
  moreover have "take (length (inswitch_file ?m)) (overwrite 0 (inswitch_file ?m) ?buf) = inswitch_file ?m" by (simp add: overwrite_def)
  moreover have "rw_methodid w \<noteq> INVALID_ID" using assms(2) by auto
  ultimately show ?thesis
    by (simp add: store_inswitch_snapshot_def require_snapshot_ok [OF assms(2)] spath_simps store_buf_def del: wseq.simps)
qed

lemma parses_get_record: "val_small (sr_val (snd kr)) \<Longrightarrow> parses get_record (bytes_pat (record_bytes kr)) kr"
proof -
  assume v: "val_small (sr_val (snd kr))"
  have "parses get_record (bytes_pat (key_bytes (fst kr)) @ bytes_pat (val_pat (sr_val (snd kr))) @ bytes_pat (le32 (sr_seq (snd kr))) @
      bytes_pat [if sr_stat (snd kr) then 1 else 0] @ []) (fst kr, \<lparr>sr_val = sr_val (snd kr), sr_seq = sr_seq (snd kr), sr_stat = sr_stat (snd kr)\<rparr>)"
    unfolding get_record_def
    by (rule parses_rbind [OF parses_key_deserialize], rule parses_rbind [OF parses_val_deserialize [OF v]], rule parses_rbind [OF parses_get32], rule parses_rbind [OF parses_get_bool], rule parses_rreturn)
  then show ?thesis by (cases kr; cases "snd kr") (simp add: record_bytes_def split del: if_split)
qed

lemma load_inswitch_records_eq:
  assumes "holds_pat off (bytes_pat (concat (map record_bytes m))) buf" "list_all (\<lambda>r. val_small (sr_val (snd r))) m" "om_ok (acc @ m)"
  shows "load_inswitch_records (length m) (buf, off) acc = Inr (acc @ m)"
  using assms
proof (induction m arbitrary: off acc)
  case (Cons r m)
  obtain k v where r: "r = (k, v)" by force
  have "parses get_record (bytes_pat (record_bytes r)) r" using Cons.prems(2) by (intro parses_get_record) simp
  moreover have h: "holds_pat off (bytes_pat (record_bytes r)) buf"
      "holds_pat (off + length (record_bytes r)) (bytes_pat (concat (map record_bytes m))) buf"
    using Cons.prems(1) by (simp_all add: holds_pat_append)
  ultimately have "get_record (buf, off) = Inr (r, buf, off + length (record_bytes r))" by (simp add: parses_def)
  moreover have "om_ok (acc @ [r])" using om_ok_take [OF Cons.prems(3), of "Suc (length acc)"] by simp
  then have "fst (om_insert k v acc) = acc @ [r]" using om_set_snoc [of acc k v] by (simp add: r om_insert_simps)
  ultimately show ?case using Cons.IH [OF h(2), of "acc @ [r]"] Cons.prems(2,3) by (simp add: r)
qed simp

lemma load_inswitch_eq:
  assumes "snapshot_method w" "inswitch_ok m" "f (spath (Inswitchsnapshot (word_of_int i)) w) = Some (inswitch_file m)"
  shows "load_inswitch_snapshot i (f, w) = Inr (f, w\<lparr>rw_inswitch_snapshot := m\<rparr>)"
proof -
  have m: "om_ok m" "list_all (\<lambda>r. val_small (sr_val (snd r))) m" "length (inswitch_file m) \<le> 8388608"
    using assms(2) by (auto simp: inswitch_ok_def MAX_LARGE_BUFSIZE_def)
  have "16 * length m \<le> length (concat (map record_bytes m))" by (induction m) (auto simp: record_bytes_def)
  then have len: "length m < 2 ^ 31" "length (inswitch_file m) < 2 ^ 32" using m(3) by (simp_all add: inswitch_file_def)
  have "holds_pat 0 (bytes_pat (le32 (of_nat (length m) :: u32))) (inswitch_file m)" "holds_pat 4 (bytes_pat (concat (map record_bytes m))) (inswitch_file m)"
    by (simp_all add: inswitch_file_def holds_pat_bytes)
  then have "get32 (inswitch_file m, 0) = Inr (of_nat (length m), inswitch_file m, 4)"
      "load_inswitch_records (length m) (inswitch_file m, 4) [] = Inr m"
    using parses_get32 [of "of_nat (length m)"] load_inswitch_records_eq [of 4 m "inswitch_file m" "[]"] m(1,2) by (simp_all add: parses_def)
  moreover have "sint (of_nat (length m) :: u32) = int (length m)" using len(1) sint_small_u32 [of "of_nat (length m)"] by (simp add: unat_of_nat)
  moreover have "length (inswitch_file m) \<noteq> 0" by (simp add: inswitch_file_def le32_def)
  then have "(of_nat (length (inswitch_file m)) :: u32) \<noteq> 0" using len(2) by (simp add: word_unat_eq_iff unat_of_nat)
  moreover have "rw_methodid w \<noteq> INVALID_ID" using assms(1) by auto
  ultimately show ?thesis
    using assms(3) len(2)
    by (simp add: load_inswitch_snapshot_def require_snapshot_ok [OF assms(1)] spath_simps isexist_def readonly_mmap_def get_filesize_def
        deref_def unat_of_nat)
qed

section \<open>What the operations do\<close>

definition serverside_files :: "int \<Rightarrow> u64 \<Rightarrow> deleted_set \<Rightarrow> u32 \<Rightarrow> ('d, 's) rocksdb_wrapper \<Rightarrow> fs \<Rightarrow> fs" where
  "serverside_files i dbseq ds maxseq w f = f(spath (Snapshotdbseq (word_of_int i)) w \<mapsto> le64 dbseq,
     spath (Snapshotdeletedset (word_of_int i)) w \<mapsto> ds_file ds, spath (Snapshotmaxseq (word_of_int i)) w \<mapsto> le32 maxseq)"

definition without_files :: "int \<Rightarrow> ('d, 's) rocksdb_wrapper \<Rightarrow> fs \<Rightarrow> fs" where
  "without_files i w f = f(spath (Snapshotdbseq (word_of_int i)) w := None, spath (Snapshotdeletedset (word_of_int i)) w := None,
     spath (Snapshotmaxseq (word_of_int i)) w := None, spath (Inswitchsnapshot (word_of_int i)) w := None)"

lemma store_serverside_eq:
  "mem_ok mem \<Longrightarrow> snapshot_method w \<Longrightarrow> store_serverside mem i dbseq ds (f, w) = Inr (serverside_files i dbseq ds (rw_maxseq w) w f, w)"
  by (simp add: store_serverside_def spath_simps [OF snapshot_method_valid] store_deleted_set_eq serverside_files_def store_snapshotdbseq_def store_maxseq_def Let_def)

lemma remove_snapshot_files_eq: "snapshot_method w \<Longrightarrow> remove_snapshot_files i (f, w) = Inr (without_files i w f, w)"
  by (simp add: remove_snapshot_files_def require_snapshot_ok spath_simps [OF snapshot_method_valid] without_files_def rmfiles_def Let_def)

lemma stop_snapshot_eq: "snapshot_method w \<Longrightarrow> stop_snapshot (f, w) = Inr (f, w\<lparr>rw_is_snapshot := False\<rparr>)"
  by (simp add: stop_snapshot_def require_snapshot_ok)

definition made :: "('d, 's) rocksdb \<Rightarrow> 'd \<Rightarrow> ('d, 's) rocksdb_wrapper \<Rightarrow> ('d, 's) rocksdb_wrapper" where
  "made kv d w = w\<lparr>rw_is_snapshot := True, rw_latest_sp := Some (db_GetSnapshot kv d),
     rw_latest_snapshot_deleted_set := ds_assign (rw_latest_snapshot_deleted_set w) (rw_deleted_set w)\<rparr>"

lemma spath_upd [simp]:
  "spath k (w\<lparr>rw_is_snapshot := b\<rparr>) = spath k w" "spath k (w\<lparr>rw_latest_sp := sp\<rparr>) = spath k w"
  "spath k (w\<lparr>rw_latest_snapshot_deleted_set := ds\<rparr>) = spath k w" "spath k (w\<lparr>rw_sp := sp\<rparr>) = spath k w"
  "spath k (w\<lparr>rw_snapshotid := i\<rparr>) = spath k w" "spath k (w\<lparr>rw_inswitch_snapshot := m\<rparr>) = spath k w"
  "spath k (w\<lparr>rw_snapshot_deleted_set := ds\<rparr>) = spath k w" "spath k (w\<lparr>rw_maxseq := q\<rparr>) = spath k w"
  "spath k (w\<lparr>rw_db := d\<rparr>) = spath k w" "spath k (w\<lparr>rw_deleted_set := ds\<rparr>) = spath k w" "spath k (w\<lparr>rw_snapshotdb := d\<rparr>) = spath k w"
  by (simp_all add: spath_def)

lemma make_snapshot_eq:
  assumes "mem_ok mem" "snapshot_method w" "rw_db w = Some d" "0 \<le> i"
  shows "make_snapshot kv mem i (f, w) =
    (if rw_snapshotid w = -1 \<or> rw_is_snapshot w then Inr (False, f, w)
     else Inr (True, serverside_files (rw_snapshotid w + 1) (db_GetSequenceNumber kv (db_GetSnapshot kv d)) (rw_snapshot_deleted_set w) (rw_maxseq w) w f, made kv d w))"
  using assms by (auto simp: make_snapshot_def require_snapshot_ok invariant_def deref_def made_def store_serverside_eq serverside_files_def Let_def)

definition initialised :: "('d, 's) rocksdb \<Rightarrow> 'd \<Rightarrow> ('d, 's) rocksdb_wrapper \<Rightarrow> ('d, 's) rocksdb_wrapper" where
  "initialised kv d w = w\<lparr>rw_sp := Some (db_GetSnapshot kv d), rw_snapshotid := 0\<rparr>"

definition no_snapshot :: "('d, 's) rocksdb_wrapper \<Rightarrow> bool" where
  "no_snapshot w \<longleftrightarrow> rw_sp w = None \<and> rw_snapshotdb w = None \<and> records_sorted_bykey (rw_snapshot_deleted_set w) = [] \<and>
     rw_inswitch_snapshot w = [] \<and> rw_latest_sp w = None \<and> records_sorted_bykey (rw_latest_snapshot_deleted_set w) = [] \<and> \<not> rw_is_snapshot w"

lemma inswitch_ok_Nil: "inswitch_ok []"
  by (simp add: inswitch_ok_def inswitch_file_def MAX_LARGE_BUFSIZE_def le32_def)

lemma init_snapshot_eq:
  assumes "mem_ok mem" "snapshot_method w" "rw_db w = Some d" "rw_snapshotid w = -1 \<Longrightarrow> no_snapshot w"
  shows "init_snapshot kv mem (f, w) =
    (if rw_snapshotid w \<noteq> -1 then Inr (f, w)
     else Inr ((serverside_files 0 (db_GetSequenceNumber kv (db_GetSnapshot kv d)) (rw_snapshot_deleted_set w) (rw_maxseq w) w f)
       (spath (Inswitchsnapshot 0) w \<mapsto> inswitch_file []), initialised kv d w))"
  using assms inswitch_ok_Nil
  by (auto simp: init_snapshot_def require_snapshot_ok invariant_def deref_def initialised_def store_serverside_eq store_inswitch_eq no_snapshot_def
      ds_size_def serverside_files_def Let_def)

definition cleaned :: "('d, 's) rocksdb_wrapper \<Rightarrow> ('d, 's) rocksdb_wrapper" where
  "cleaned w = w\<lparr>rw_latest_sp := None, rw_latest_snapshot_deleted_set := ds_clear (rw_latest_snapshot_deleted_set w)\<rparr>"

lemma clean_snapshot_eq:
  assumes "snapshot_method w" "rw_snapshotid w \<noteq> -1" "i = rw_snapshotid w + 1"
  shows "clean_snapshot kv mem i (f, w) = Inr (without_files i w f, cleaned w)"
  using assms by (simp add: clean_snapshot_def require_snapshot_ok remove_snapshot_files_eq invariant_def cleaned_def Let_def)

definition updated :: "(net_key, snapshot_record) omap \<Rightarrow> 's \<Rightarrow> ('d, 's) rocksdb_wrapper \<Rightarrow> ('d, 's) rocksdb_wrapper" where
  "updated m sp w = w\<lparr>rw_sp := Some sp, rw_snapshot_deleted_set := ds_assign (rw_snapshot_deleted_set w) (rw_latest_snapshot_deleted_set w),
     rw_inswitch_snapshot := m, rw_latest_sp := None, rw_latest_snapshot_deleted_set := ds_clear (rw_latest_snapshot_deleted_set w),
     rw_snapshotid := rw_snapshotid w + 1\<rparr>"

definition updated_files :: "(net_key, snapshot_record) omap \<Rightarrow> int \<Rightarrow> ('d, 's) rocksdb_wrapper \<Rightarrow> fs \<Rightarrow> fs" where
  "updated_files m i w f = (let f1 = f(spath (Inswitchsnapshot (word_of_int i)) w \<mapsto> inswitch_file m, spath Snapshotid w \<mapsto> le32 (word_of_int i)) in
     if 2 \<le> i then without_files (i - 2) w f1 else f1)"

lemma ds_assign_clear: "ds_assign (ds_clear a) b = ds_assign a b"
  by (simp add: ds_assign_def ds_clear_def)

lemma update_snapshot_eq:
  assumes "mem_ok mem" "snapshot_method w" "rw_latest_sp w = Some sp" "inswitch_ok m" "i = rw_snapshotid w + 1"
  shows "update_snapshot kv mem m i (f, w) = Inr (updated_files m i w f, updated m sp w)"
  using assms by (simp add: update_snapshot_def require_snapshot_ok invariant_def Let_def store_inswitch_eq spath_simps [OF snapshot_method_valid] store_snapshotid_def
        remove_snapshot_files_eq updated_def updated_files_def without_files_def ds_assign_clear)

section \<open>The invariant\<close>

datatype store_op = Req kv_op | Init | Clean int | Make int | Update "(net_key, snapshot_record) omap" int | Stop

definition store_do :: "('d, 's) rocksdb \<Rightarrow> (nat \<Rightarrow> byte list) \<Rightarrow> store_op \<Rightarrow> ('d, 's) store_state \<Rightarrow> ('d, 's) store_state res" where
  "store_do kv mem a s = (case a of
      Req r \<Rightarrow> bind_res (kv_step kv r (snd s)) (\<lambda>(answer, w). Inr (fst s, w))
    | Init \<Rightarrow> init_snapshot kv mem s
    | Clean i \<Rightarrow> clean_snapshot kv mem i s
    | Make i \<Rightarrow> bind_res (make_snapshot kv mem i s) (\<lambda>(made, s'). Inr s')
    | Update m i \<Rightarrow> update_snapshot kv mem m i s
    | Stop \<Rightarrow> stop_snapshot s)"

text \<open>The common case of the protocol: a cleanup prepares the next snapshot, an update follows a snapshot that was
  made, and the snapshot number stays an \<^verbatim>\<open>int\<close>.\<close>

primrec op_ok :: "store_op \<Rightarrow> ('d, 's) rocksdb_wrapper \<Rightarrow> bool" where
  "op_ok (Req r) w = req_ok r"
| "op_ok Init w = True"
| "op_ok (Clean i) w = (i = max 0 (rw_snapshotid w) + 1)"
| "op_ok (Make i) w = (0 \<le> i)"
| "op_ok (Update m i) w = (inswitch_ok m \<and> i = rw_snapshotid w + 1 \<and> i < 2 ^ 31 \<and> rw_latest_sp w \<noteq> None)"
| "op_ok Stop w = True"

definition latest_inv :: "('s \<Rightarrow> byte list \<Rightarrow> byte list option) \<Rightarrow> ('d, 's) rocksdb_wrapper \<Rightarrow> bool" where
  "latest_inv scon w \<longleftrightarrow> (case rw_latest_sp w of None \<Rightarrow> True
     | Some sp \<Rightarrow> 0 \<le> rw_snapshotid w \<and> content_ok (scon sp) \<and> dom (live (scon sp)) \<inter> dom (ds_lookup (rw_latest_snapshot_deleted_set w)) = {})"

definition sets_ok :: "('d, 's) rocksdb_wrapper \<Rightarrow> bool" where
  "sets_ok w \<longleftrightarrow> ds_ok (rw_snapshot_deleted_set w) \<and> ds_ok (rw_latest_snapshot_deleted_set w) \<and>
     max_size (rw_deleted_set w) = max_size (DeletedSet_new 10 100) \<and> max_size (rw_snapshot_deleted_set w) = max_size (DeletedSet_new 10 100) \<and>
     max_size (rw_latest_snapshot_deleted_set w) = max_size (DeletedSet_new 10 100)"

definition store_inv :: "('d \<Rightarrow> byte list \<Rightarrow> byte list option) \<Rightarrow> ('s \<Rightarrow> byte list \<Rightarrow> byte list option) \<Rightarrow> ('d, 's) rocksdb_wrapper \<Rightarrow> bool" where
  "store_inv con scon w \<longleftrightarrow> snapshot_method w \<and> kv_ok con w \<and> sets_ok w \<and> -1 \<le> rw_snapshotid w \<and>
     (if rw_snapshotid w = -1 then no_snapshot w else scan_inv con scon w) \<and> latest_inv scon w"

lemma ds_assign_ok:
  "ds_ok b \<Longrightarrow> max_size a = max_size b \<Longrightarrow> ds_ok (ds_assign a b)" "ds_lookup (ds_assign a b) = ds_lookup b" "max_size (ds_assign a b) = max_size a"
  "max_size (ds_clear a) = max_size a"
  by (simp_all add: ds_ok_def ds_assign_def ds_lookup_def ds_clear_def)

lemma store_invD:
  assumes "store_inv con scon w"
  obtains d where "snapshot_method w" "rw_db w = Some d" "content_ok (con d)" "kv_ok con w" "ds_ok (rw_deleted_set w)" "sets_ok w"
    "dom (live (con d)) \<inter> dom (ds_lookup (rw_deleted_set w)) = {}" "rw_snapshotid w = -1 \<Longrightarrow> no_snapshot w"
    "rw_snapshotid w \<noteq> -1 \<Longrightarrow> scan_inv con scon w" "latest_inv scon w" "-1 \<le> rw_snapshotid w"
  using assms by (auto simp: store_inv_def kv_ok_def split: if_splits)

lemma scan_inv_upd [simp]:
  "scan_inv con scon (w\<lparr>rw_is_snapshot := b\<rparr>) \<longleftrightarrow> scan_inv con scon w"
  "scan_inv con scon (w\<lparr>rw_latest_sp := sp\<rparr>) \<longleftrightarrow> scan_inv con scon w"
  "scan_inv con scon (w\<lparr>rw_latest_snapshot_deleted_set := ds\<rparr>) \<longleftrightarrow> scan_inv con scon w"
  by (simp_all add: scan_inv_def snap_content_def cong: option.case_cong)

lemma kv_ok_upd [simp]:
  "kv_ok con (w\<lparr>rw_is_snapshot := b\<rparr>) \<longleftrightarrow> kv_ok con w" "kv_ok con (w\<lparr>rw_latest_sp := sp\<rparr>) \<longleftrightarrow> kv_ok con w"
  "kv_ok con (w\<lparr>rw_latest_snapshot_deleted_set := ds\<rparr>) \<longleftrightarrow> kv_ok con w"
  by (simp_all add: kv_ok_def)

lemma store_inv_req:
  assumes "store_inv con scon w" "kv_ok con w'" "kv_frame ks w w'"
  shows "store_inv con scon w'"
proof -
  have db: "rw_db w' \<noteq> None" "rw_db w \<noteq> None" using assms(1,2) by (auto simp: store_inv_def kv_ok_def)
  have rest: "rw_methodid w' = rw_methodid w" "rw_snapshotid w' = rw_snapshotid w" "rw_sp w' = rw_sp w" "rw_snapshotdb w' = rw_snapshotdb w"
    "rw_snapshot_deleted_set w' = rw_snapshot_deleted_set w" "rw_inswitch_snapshot w' = rw_inswitch_snapshot w" "rw_is_snapshot w' = rw_is_snapshot w"
    "rw_latest_sp w' = rw_latest_sp w" "rw_latest_snapshot_deleted_set w' = rw_latest_snapshot_deleted_set w"
    "max_size (rw_deleted_set w') = max_size (rw_deleted_set w)"
    using assms(3) by (auto simp: kv_frame_def rw_rest_def)
  have "snap_content con scon w' = snap_content con scon w" unfolding snap_content_def by (simp only: rest)
  then have "scan_inv con scon w' \<longleftrightarrow> scan_inv con scon w" using db unfolding scan_inv_def by (simp add: rest)
  moreover have "no_snapshot w' \<longleftrightarrow> no_snapshot w" "latest_inv scon w' \<longleftrightarrow> latest_inv scon w" "sets_ok w' \<longleftrightarrow> sets_ok w"
    unfolding no_snapshot_def latest_inv_def sets_ok_def by (simp_all only: rest)
  ultimately show ?thesis using assms(1,2) unfolding store_inv_def by (simp add: rest)
qed

lemma store_inv_init:
  assumes laws: "rocksdb_laws kv con scon" and inv: "store_inv con scon w" and d: "rw_db w = Some d" and i: "rw_snapshotid w = -1"
  shows "store_inv con scon (initialised kv d w)"
proof -
  have w: "no_snapshot w" "kv_ok con w" "snapshot_method w" "sets_ok w" "content_ok (con d)"
    using inv d i by (auto simp: store_inv_def kv_ok_def)
  then have "ds_lookup (rw_snapshot_deleted_set w) = Map.empty" by (simp add: no_snapshot_def ds_lookup_def om_find_empty)
  then have "scan_inv con scon (initialised kv d w)"
    using w d rocksdb_lawsD(4) [OF laws, of d] by (simp add: scan_inv_def initialised_def snap_content_def sets_ok_def no_snapshot_def)
  moreover have "kv_ok con (initialised kv d w)" "sets_ok (initialised kv d w)" "latest_inv scon (initialised kv d w)"
    using w by (simp_all add: initialised_def kv_ok_def sets_ok_def latest_inv_def no_snapshot_def)
  ultimately show ?thesis using w(3) by (simp add: store_inv_def initialised_def)
qed

lemma store_inv_cleaned:
  assumes "store_inv con scon w"
  shows "store_inv con scon (cleaned w)"
proof -
  have "latest_inv scon (cleaned w)" by (simp add: latest_inv_def cleaned_def)
  moreover have "sets_ok w \<Longrightarrow> sets_ok (cleaned w)" by (simp add: sets_ok_def cleaned_def ds_ok_clear ds_assign_ok)
  moreover have "no_snapshot w \<Longrightarrow> no_snapshot (cleaned w)" by (simp add: no_snapshot_def cleaned_def ds_clear_def)
  moreover have "scan_inv con scon (cleaned w) = scan_inv con scon w" "kv_ok con (cleaned w) = kv_ok con w" "rw_snapshotid (cleaned w) = rw_snapshotid w"
    "rw_methodid (cleaned w) = rw_methodid w"
    by (simp_all add: cleaned_def)
  ultimately show ?thesis using assms by (simp add: store_inv_def split: if_splits)
qed

lemma store_inv_made:
  assumes laws: "rocksdb_laws kv con scon" and inv: "store_inv con scon w" and d: "rw_db w = Some d" and i: "rw_snapshotid w \<noteq> -1"
  shows "store_inv con scon (made kv d w)"
proof -
  have "latest_inv scon (made kv d w)"
    using inv d i rocksdb_lawsD(4) [OF laws, of d] by (auto simp: store_inv_def made_def latest_inv_def kv_ok_def ds_assign_ok)
  moreover have "ds_ok (rw_deleted_set w)" using inv by (simp add: store_inv_def kv_ok_def)
  ultimately show ?thesis using inv i by (simp add: store_inv_def sets_ok_def ds_assign_ok made_def)
qed

lemma store_inv_updated:
  assumes inv: "store_inv con scon w" and sp: "rw_latest_sp w = Some sp" and m: "inswitch_ok m"
  shows "store_inv con scon (updated m sp w)"
  using inv sp m
  by (auto simp: store_inv_def updated_def kv_ok_def sets_ok_def latest_inv_def scan_inv_def snap_content_def ds_assign_ok ds_ok_clear inswitch_ok_def split: if_splits)

lemma store_inv_stop:
  assumes "store_inv con scon w"
  shows "store_inv con scon (w\<lparr>rw_is_snapshot := False\<rparr>)"
proof -
  let ?w = "w\<lparr>rw_is_snapshot := False\<rparr>"
  have "latest_inv scon ?w = latest_inv scon w" by (simp add: latest_inv_def split: option.split)
  moreover have "sets_ok ?w = sets_ok w" "no_snapshot w \<Longrightarrow> no_snapshot ?w" by (simp_all add: sets_ok_def no_snapshot_def)
  ultimately show ?thesis using assms by (simp add: store_inv_def split: if_splits)
qed

lemma store_do_inv:
  assumes laws: "rocksdb_laws kv con scon" and mem: "mem_ok mem" and inv: "store_inv con scon (snd s)" and a: "op_ok a (snd s)"
  obtains s' where "store_do kv mem a s = Inr s'" "store_inv con scon (snd s')"
proof -
  obtain f w where s: "s = (f, w)" by force
  obtain d where w: "snapshot_method w" "rw_db w = Some d" "rw_snapshotid w = -1 \<Longrightarrow> no_snapshot w" "-1 \<le> rw_snapshotid w" "kv_ok con w"
    using store_invD [OF inv] s by (metis snd_conv)
  have inv: "store_inv con scon w" using inv s by simp
  show thesis
  proof (cases a)
    case (Req r)
    then have "req_ok r" using a s by simp
    then obtain an w' where "kv_step kv r w = Inr (an, w')" "kv_ok con w'" "kv_frame (req_removes r) w w'"
      using kv_step_spec [OF laws w(5)] by metis
    then show thesis using that [of "(f, w')"] store_inv_req [OF inv] by (simp add: Req s store_do_def)
  next
    case Init
    show thesis
    proof (cases "rw_snapshotid w = -1")
      case True
      then show thesis using that init_snapshot_eq [OF mem w(1,2,3)] store_inv_init [OF laws inv w(2)] by (simp add: Init s store_do_def)
    next
      case False
      then show thesis using that [of s] init_snapshot_eq [OF mem w(1,2,3)] inv by (simp add: Init s store_do_def)
    qed
  next
    case (Clean i)
    show thesis
    proof (cases "rw_snapshotid w = -1")
      case True
      let ?w = "initialised kv d w"
      have "snapshot_method ?w" "rw_snapshotid ?w = 0" using w(1) by (simp_all add: initialised_def)
      then show thesis
        using that a True init_snapshot_eq [OF mem w(1,2,3)] store_inv_cleaned [OF store_inv_init [OF laws inv w(2) True]]
        by (simp add: Clean s store_do_def clean_snapshot_def require_snapshot_ok w(1) remove_snapshot_files_eq invariant_def cleaned_def Let_def)
    next
      case False
      then show thesis
        using that a w(4) clean_snapshot_eq [OF w(1) False, of i] store_inv_cleaned [OF inv] by (simp add: Clean s store_do_def)
    qed
  next
    case (Make i)
    show thesis
    proof (cases "rw_snapshotid w = -1 \<or> rw_is_snapshot w")
      case True
      then show thesis using that [of s] a make_snapshot_eq [OF mem w(1,2), of i] inv by (simp add: Make s store_do_def)
    next
      case False
      then show thesis using that a make_snapshot_eq [OF mem w(1,2), of i] store_inv_made [OF laws inv w(2)] by (simp add: Make s store_do_def)
    qed
  next
    case (Update m i)
    then obtain sp where "rw_latest_sp w = Some sp" "inswitch_ok m" "i = rw_snapshotid w + 1" using a s by auto
    then show thesis using that update_snapshot_eq [OF mem w(1), of sp m i] store_inv_updated [OF inv] by (simp add: Update s store_do_def)
  next
    case Stop
    then show thesis using that stop_snapshot_eq [OF w(1)] store_inv_stop [OF inv] by (simp add: s store_do_def)
  qed
qed

section \<open>Runs\<close>

inductive store_reach :: "('d, 's) rocksdb \<Rightarrow> (nat \<Rightarrow> byte list) \<Rightarrow> ('d, 's) store_state \<Rightarrow> ('d, 's) store_state \<Rightarrow> bool" for kv mem s0 where
  start: "store_reach kv mem s0 s0"
| step: "store_reach kv mem s0 s \<Longrightarrow> op_ok a (snd s) \<Longrightarrow> store_do kv mem a s = Inr s' \<Longrightarrow> store_reach kv mem s0 s'"

lemma store_reach_inv:
  assumes "rocksdb_laws kv con scon" "mem_ok mem" "store_inv con scon (snd s0)" "store_reach kv mem s0 s"
  shows "store_inv con scon (snd s)"
  using assms(4)
proof induction
  case start
  show ?case by (rule assms(3))
next
  case (step s a s')
  then show ?case using store_do_inv [OF assms(1,2) step.IH step.hyps(2)] by (metis sum.inject(2))
qed

fun store_run :: "('d, 's) rocksdb \<Rightarrow> (nat \<Rightarrow> byte list) \<Rightarrow> store_op list \<Rightarrow> ('d, 's) store_state \<Rightarrow> ('d, 's) store_state res" where
  "store_run kv mem [] s = Inr s"
| "store_run kv mem (a # as) s = bind_res (store_do kv mem a s) (store_run kv mem as)"

lemma store_run_append: "store_run kv mem (as @ bs) s = bind_res (store_run kv mem as s) (store_run kv mem bs)"
proof (induction as arbitrary: s)
  case (Cons a as)
  then show ?case by (cases "store_do kv mem a s") auto
qed simp

text \<open>Operations that leave the snapshot range queries read alone, and those that also leave the latest one alone while it is
  being made.\<close>

primrec reading :: "int \<Rightarrow> store_op \<Rightarrow> bool" where
  "reading i (Req r) = req_ok r"
| "reading i Init = True"
| "reading i (Clean j) = (j = i + 1)"
| "reading i (Make j) = (0 \<le> j)"
| "reading i (Update m j) = False"
| "reading i Stop = True"

primrec waiting :: "store_op \<Rightarrow> bool" where
  "waiting (Req r) = req_ok r"
| "waiting Init = True"
| "waiting (Clean j) = False"
| "waiting (Make j) = (0 \<le> j)"
| "waiting (Update m j) = False"
| "waiting Stop = False"

definition scan_view :: "('d, 's) rocksdb_wrapper \<Rightarrow> int \<times> 's option \<times> 'd option \<times> deleted_set \<times> (net_key, snapshot_record) omap" where
  "scan_view w = (rw_snapshotid w, rw_sp w, rw_snapshotdb w, rw_snapshot_deleted_set w, rw_inswitch_snapshot w)"

definition latest_view :: "('d, 's) rocksdb_wrapper \<Rightarrow> int \<times> bool \<times> 's option \<times> deleted_set" where
  "latest_view w = (rw_snapshotid w, rw_is_snapshot w, rw_latest_sp w, rw_latest_snapshot_deleted_set w)"

lemma reading_step:
  assumes laws: "rocksdb_laws kv con scon" and mem: "mem_ok mem" and inv: "store_inv con scon (snd s)" and i: "0 \<le> rw_snapshotid (snd s)"
    and a: "reading (rw_snapshotid (snd s)) a"
  obtains s' where "store_do kv mem a s = Inr s'" "store_inv con scon (snd s')" "scan_view (snd s') = scan_view (snd s)"
    "waiting a \<Longrightarrow> rw_is_snapshot (snd s) \<Longrightarrow> latest_view (snd s') = latest_view (snd s)"
proof -
  obtain f w where s: "s = (f, w)" by force
  have "op_ok a (snd s)" using a i by (cases a) auto
  then obtain s' where s': "store_do kv mem a s = Inr s'" "store_inv con scon (snd s')" by (rule store_do_inv [OF laws mem inv])
  obtain d where w: "snapshot_method w" "rw_db w = Some d" "kv_ok con w" using store_invD [OF inv] s by (metis snd_conv)
  have i: "rw_snapshotid w \<noteq> -1" using i s by simp
  have "scan_view (snd s') = scan_view w \<and> (waiting a \<longrightarrow> rw_is_snapshot w \<longrightarrow> latest_view (snd s') = latest_view w)"
  proof (cases a)
    case (Req r)
    then have "req_ok r" using a by simp
    then obtain an w' where "kv_step kv r w = Inr (an, w')" "kv_frame (req_removes r) w w'" using kv_step_spec [OF laws w(3)] by metis
    then show ?thesis using s' by (auto simp: Req s store_do_def kv_frame_def rw_rest_def scan_view_def latest_view_def)
  next
    case Init
    then show ?thesis using s' init_snapshot_eq [OF mem w(1,2), of kv f] i by (auto simp: s store_do_def)
  next
    case (Clean j)
    then show ?thesis using s' a clean_snapshot_eq [OF w(1) i, of j kv mem f] by (auto simp: s store_do_def scan_view_def cleaned_def)
  next
    case (Make j)
    then show ?thesis using s' a make_snapshot_eq [OF mem w(1,2), of j kv f] by (auto simp: s store_do_def scan_view_def made_def split: if_splits)
  next
    case (Update m j)
    then show ?thesis using a by simp
  next
    case Stop
    then show ?thesis using s' stop_snapshot_eq [OF w(1), of f] by (auto simp: s store_do_def scan_view_def)
  qed
  then show thesis using that s' s by simp
qed

lemma reading_run:
  assumes laws: "rocksdb_laws kv con scon" and mem: "mem_ok mem"
  shows "store_inv con scon (snd s) \<Longrightarrow> 0 \<le> rw_snapshotid (snd s) \<Longrightarrow> list_all (reading (rw_snapshotid (snd s))) as \<Longrightarrow>
    \<exists>s'. store_run kv mem as s = Inr s' \<and> store_inv con scon (snd s') \<and> scan_view (snd s') = scan_view (snd s) \<and>
      (list_all waiting as \<and> rw_is_snapshot (snd s) \<longrightarrow> latest_view (snd s') = latest_view (snd s))"
proof (induction as arbitrary: s)
  case (Cons a as)
  obtain s1 where s1: "store_do kv mem a s = Inr s1" "store_inv con scon (snd s1)" "scan_view (snd s1) = scan_view (snd s)"
    "waiting a \<Longrightarrow> rw_is_snapshot (snd s) \<Longrightarrow> latest_view (snd s1) = latest_view (snd s)"
    using reading_step [OF laws mem Cons.prems(1,2), of a] Cons.prems(3) by auto
  have "rw_snapshotid (snd s1) = rw_snapshotid (snd s)" using s1(3) by (simp add: scan_view_def)
  then have "0 \<le> rw_snapshotid (snd s1)" "list_all (reading (rw_snapshotid (snd s1))) as" using Cons.prems(2,3) by simp_all
  then obtain s2 where "store_run kv mem as s1 = Inr s2" "store_inv con scon (snd s2)" "scan_view (snd s2) = scan_view (snd s1)"
      "list_all waiting as \<and> rw_is_snapshot (snd s1) \<longrightarrow> latest_view (snd s2) = latest_view (snd s1)"
    using Cons.IH [OF s1(2)] by blast
  moreover have "latest_view (snd s1) = latest_view (snd s) \<Longrightarrow> rw_is_snapshot (snd s) \<Longrightarrow> rw_is_snapshot (snd s1)" by (simp add: latest_view_def)
  ultimately show ?case using s1 by auto
qed simp

lemma waiting_reading: "waiting a \<Longrightarrow> reading i a"
  by (cases a) auto

section \<open>The files of a server\<close>

text \<open>A set of a server holds at most 10000 tombstones, so that its file can be loaded.\<close>

lemma ds_load_server_file:
  assumes "ds_ok d" "max_size d = max_size (DeletedSet_new 10 100)"
  obtains d' where "ds_load (Some (ds_file d)) this = Inr d'" "ds_lookup d' = ds_lookup d" "max_size d' = max_size this"
    "linked (records_sorted_bykey d') (records_sorted_byseq d')" "records_sorted_bykey d' = records_sorted_bykey d"
proof -
  have "length (records_sorted_bykey d) < 214748365" using assms by (simp add: ds_ok_def DeletedSet_new_def)
  then show thesis using ds_load_file [OF assms(1)] that by metis
qed

definition serverside_ok :: "int \<Rightarrow> ('d, 's) store_state \<Rightarrow> bool" where
  "serverside_ok i s = (case s of (f, w) \<Rightarrow> \<exists>q ds n. f (spath (Snapshotdbseq (word_of_int i)) w) = Some (le64 q) \<and>
     f (spath (Snapshotdeletedset (word_of_int i)) w) = Some (ds_file ds) \<and>
     ds_ok ds \<and> max_size ds = max_size (DeletedSet_new 10 100) \<and> f (spath (Snapshotmaxseq (word_of_int i)) w) = Some (le32 n))"

definition inswitch_file_ok :: "int \<Rightarrow> ('d, 's) store_state \<Rightarrow> bool" where
  "inswitch_file_ok i s = (case s of (f, w) \<Rightarrow> \<exists>m. inswitch_ok m \<and> f (spath (Inswitchsnapshot (word_of_int i)) w) = Some (inswitch_file m))"

text \<open>The number of the snapshot range queries read is stored once an in-switch snapshot was installed, and then its files
  are there; the server-side files of the next one are there when it was made.\<close>

definition files_inv :: "('d, 's) store_state \<Rightarrow> bool" where
  "files_inv s = (case s of (f, w) \<Rightarrow> rw_snapshotid w < 2 ^ 31 \<and>
     (if rw_snapshotid w \<le> 0 then f (spath Snapshotid w) = None
      else f (spath Snapshotid w) = Some (le32 (word_of_int (rw_snapshotid w))) \<and> serverside_ok (rw_snapshotid w) s \<and> inswitch_file_ok (rw_snapshotid w) s) \<and>
     (rw_latest_sp w \<noteq> None \<longrightarrow> serverside_ok (rw_snapshotid w + 1) s))"

lemma word_ids: "(word_of_int (i + 1) :: u32) \<noteq> word_of_int i" "(word_of_int (i - 1) :: u32) \<noteq> word_of_int (i + 1)"
proof -
  have "(word_of_int i :: u32) + 1 \<noteq> word_of_int i" "(word_of_int i :: u32) - 1 \<noteq> word_of_int i + 1"
    by (simp_all add: algebra_simps)
  then show "(word_of_int (i + 1) :: u32) \<noteq> word_of_int i" "(word_of_int (i - 1) :: u32) \<noteq> word_of_int (i + 1)" by simp_all
qed

lemma files_inv_frame:
  assumes "files_inv (f, w)" "rw_methodid w' = rw_methodid w" "rw_workerid w' = rw_workerid w" "rw_snapshotid w' = rw_snapshotid w"
    "rw_latest_sp w' \<noteq> None \<Longrightarrow> rw_latest_sp w \<noteq> None"
  shows "files_inv (f, w')"
  using assms by (auto simp: files_inv_def serverside_ok_def inswitch_file_ok_def spath_def split: if_splits)

lemma files_inv_made:
  assumes "files_inv (f, w)" "snapshot_method w" "ds_ok ds" "max_size ds = max_size (DeletedSet_new 10 100)"
  shows "files_inv (serverside_files (rw_snapshotid w + 1) q ds n w f, made kv d w)"
  using assms(1,3,4) word_ids(1) [of "rw_snapshotid w"] spath_inject [OF snapshot_method_valid [OF assms(2)]]
  by (auto simp: files_inv_def serverside_ok_def inswitch_file_ok_def serverside_files_def made_def split: if_splits)

lemma files_inv_init:
  assumes "files_inv (f, w)" "snapshot_method w" "rw_snapshotid w = -1" "rw_latest_sp w = None"
  shows "files_inv ((serverside_files 0 q ds n w f)(spath (Inswitchsnapshot 0) w \<mapsto> b), initialised kv d w)"
  using assms(1,3,4) spath_inject [OF snapshot_method_valid [OF assms(2)]]
  by (auto simp: files_inv_def serverside_files_def initialised_def split: if_splits)

lemma files_inv_cleaned:
  assumes "files_inv (f, w)" "snapshot_method w"
  shows "files_inv (without_files (rw_snapshotid w + 1) w f, cleaned w)"
  using assms(1) word_ids(1) [of "rw_snapshotid w"] spath_inject [OF snapshot_method_valid [OF assms(2)]]
  by (auto simp: files_inv_def serverside_ok_def inswitch_file_ok_def without_files_def cleaned_def split: if_splits)

lemma files_inv_updated:
  assumes "files_inv (f, w)" "snapshot_method w" "inswitch_ok m" "rw_latest_sp w \<noteq> None" "0 \<le> rw_snapshotid w" "rw_snapshotid w + 1 < 2 ^ 31"
  shows "files_inv (updated_files m (rw_snapshotid w + 1) w f, updated m sp w)"
  using assms(1,3-6) word_ids(2) [of "rw_snapshotid w"] spath_inject [OF snapshot_method_valid [OF assms(2)]]
  by (auto simp: files_inv_def serverside_ok_def inswitch_file_ok_def updated_files_def without_files_def updated_def Let_def split: if_splits)

lemma store_do_files:
  assumes laws: "rocksdb_laws kv con scon" and mem: "mem_ok mem" and inv: "store_inv con scon (snd s)" and files: "files_inv s"
    and a: "op_ok a (snd s)" and do: "store_do kv mem a s = Inr s'"
  shows "files_inv s'"
proof -
  obtain f w where s: "s = (f, w)" by force
  obtain d where w: "snapshot_method w" "rw_db w = Some d" "rw_snapshotid w = -1 \<Longrightarrow> no_snapshot w" "-1 \<le> rw_snapshotid w" "kv_ok con w"
      "sets_ok w" "latest_inv scon w"
    using store_invD [OF inv] s by (metis snd_conv)
  have inv: "store_inv con scon w" and files: "files_inv (f, w)" using inv files s by simp_all
  show ?thesis
  proof (cases a)
    case (Req r)
    then have "req_ok r" using a s by simp
    then obtain an w' where w': "kv_step kv r w = Inr (an, w')" "kv_frame (req_removes r) w w'" using kv_step_spec [OF laws w(5)] by metis
    have "files_inv (f, w')" using w'(2) by (intro files_inv_frame [OF files]) (auto simp: kv_frame_def rw_rest_def)
    then show ?thesis using do w'(1) by (simp add: Req s store_do_def)
  next
    case Init
    show ?thesis
    proof (cases "rw_snapshotid w = -1")
      case True
      have "rw_latest_sp w = None" using w(3) True by (simp add: no_snapshot_def)
      then show ?thesis using do True init_snapshot_eq [OF mem w(1,2,3), of kv f] files_inv_init [OF files w(1) True] by (auto simp: Init s store_do_def)
    next
      case False
      then show ?thesis using do init_snapshot_eq [OF mem w(1,2,3), of kv f] files by (auto simp: Init s store_do_def)
    qed
  next
    case (Clean i)
    show ?thesis
    proof (cases "rw_snapshotid w = -1")
      case True
      let ?w = "initialised kv d w"
      have none: "rw_latest_sp w = None" using w(3) True by (simp add: no_snapshot_def)
      have w': "snapshot_method ?w" "rw_snapshotid ?w = 0" using w(1) by (simp_all add: initialised_def)
      obtain f' where init: "init_snapshot kv mem (f, w) = Inr (f', ?w)" "files_inv (f', ?w)"
        using init_snapshot_eq [OF mem w(1,2,3), of kv f] files_inv_init [OF files w(1) True none] True by auto
      have "store_do kv mem a s = Inr (without_files 1 ?w f', cleaned ?w)"
        using a True init(1) w' by (simp add: Clean s store_do_def clean_snapshot_def require_snapshot_ok w(1) remove_snapshot_files_eq invariant_def cleaned_def Let_def)
      then show ?thesis using do files_inv_cleaned [OF init(2) w'(1)] w'(2) by simp
    next
      case False
      then show ?thesis using do a w(4) clean_snapshot_eq [OF w(1) False, of i kv mem f] files_inv_cleaned [OF files w(1)] by (auto simp: Clean s store_do_def)
    qed
  next
    case (Make i)
    have "ds_ok (rw_snapshot_deleted_set w)" "max_size (rw_snapshot_deleted_set w) = max_size (DeletedSet_new 10 100)" using w(6) by (simp_all add: sets_ok_def)
    then show ?thesis
      using do a make_snapshot_eq [OF mem w(1,2), of i kv f] files files_inv_made [OF files w(1)] by (auto simp: Make s store_do_def split: if_splits)
  next
    case (Update m i)
    then obtain sp where sp: "rw_latest_sp w = Some sp" "inswitch_ok m" "i = rw_snapshotid w + 1" "i < 2 ^ 31" using a s by auto
    then have "0 \<le> rw_snapshotid w" using w(7) by (simp add: latest_inv_def)
    then show ?thesis
      using do update_snapshot_eq [OF mem w(1) sp(1,2,3), of kv f] files_inv_updated [OF files w(1) sp(2)] sp by (auto simp: Update s store_do_def)
  next
    case Stop
    have "files_inv (f, w\<lparr>rw_is_snapshot := False\<rparr>)" by (rule files_inv_frame [OF files]) simp_all
    then show ?thesis using do stop_snapshot_eq [OF w(1), of f] by (simp add: Stop s store_do_def)
  qed
qed

lemma store_reach_files:
  assumes "rocksdb_laws kv con scon" "mem_ok mem" "store_inv con scon (snd s0)" "files_inv s0" "store_reach kv mem s0 s"
  shows "files_inv s"
  using assms(5)
proof induction
  case start
  show ?case by (rule assms(4))
next
  case (step s a s')
  then show ?case using store_do_files [OF assms(1,2) store_reach_inv [OF assms(1-3) step.hyps(1)]] by blast
qed

section \<open>Restart\<close>

lemma load_serverside_eq:
  assumes laws: "rocksdb_laws kv con scon" and sm: "snapshot_method w" and db: "rw_db w = Some d" and files: "serverside_ok i (f, w)"
  obtains c ds q where "load_serverside_snapshot_files kv i (f, w) = Inr (f, w\<lparr>rw_snapshotdb := Some c, rw_sp := None, rw_snapshot_deleted_set := ds, rw_maxseq := q\<rparr>)"
proof -
  obtain q ds n where f: "f (spath (Snapshotdbseq (word_of_int i)) w) = Some (le64 q)" "f (spath (Snapshotdeletedset (word_of_int i)) w) = Some (ds_file ds)" "ds_ok ds"
      "f (spath (Snapshotmaxseq (word_of_int i)) w) = Some (le32 n)" "max_size ds = max_size (DeletedSet_new 10 100)"
    using files by (auto simp: serverside_ok_def)
  obtain c where c: "db_CreateCheckpoint kv d = (c, True)" using rocksdb_lawsD(7) [OF laws] by blast
  obtain ds' where ds': "ds_load (Some (ds_file ds)) (rw_snapshot_deleted_set w) = Inr ds'" using ds_load_server_file [OF f(3,5)] by metis
  have create: "create_snapshotdb_checkpoint kv q w = Inr (w\<lparr>rw_snapshotdb := Some c\<rparr>)"
    using sm db c by (simp add: create_snapshotdb_checkpoint_def require_snapshot_ok invariant_def deref_def spath_simps [OF snapshot_method_valid])
  have "load_snapshotdbseq f (spath (Snapshotdbseq (word_of_int i)) w) = Inr q" "load_maxseq f (spath (Snapshotmaxseq (word_of_int i)) w) = Inr n"
    using f(1,4) by (simp_all add: load_snapshotdbseq_def load_maxseq_def load_int_def)
  then show thesis
    using that [where c = c and ds = ds' and q = n] f create ds'
    by (simp add: load_serverside_snapshot_files_def require_snapshot_ok [OF sm] spath_simps [OF snapshot_method_valid [OF sm]] isexist_def invariant_def Let_def)
qed

lemma rw_close_eq:
  assumes "mem_ok mem" "snapshot_method w"
  shows "rw_close mem (f, w) = Inr (f(spath Latestmaxseq w \<mapsto> le32 (rw_maxseq w), spath Deletedset w \<mapsto> ds_file (rw_deleted_set w)), rw_db w)"
proof -
  have "method_needsnapshot w = Inr True" using assms(2) by (auto simp: methods_simps)
  then show ?thesis
    using assms by (simp add: rw_close_def flush_latestmaxseq_def spath_simps [OF snapshot_method_valid] store_maxseq_def store_deleted_set_eq rmfiles_def)
qed

text \<open>Opening the files of a closed server.\<close>

lemma rw_open_restart:
  assumes laws: "rocksdb_laws kv con scon" and mem: "mem_ok mem" and inv: "store_inv con scon w" and files: "files_inv (f, w)"
    and new: "rw_init (rw_methodid w) (rw_new wid0 maxseq0) = Inr w0" and close: "rw_close mem (f, w) = Inr (f1, stored)"
  obtains w' where "rw_open kv stored (rw_workerid w) (f1, w0) = Inr (True, f1, w')" "kv_ok con w'" "kv_abs con w' = kv_abs con w"
    "rw_maxseq w \<le> rw_maxseq w'" "rw_snapshotid w' = (if 1 \<le> rw_snapshotid w then rw_snapshotid w else -1)"
proof -
  obtain d where w: "snapshot_method w" "rw_db w = Some d" "content_ok (con d)" "kv_ok con w" "ds_ok (rw_deleted_set w)" "sets_ok w"
      "dom (live (con d)) \<inter> dom (ds_lookup (rw_deleted_set w)) = {}" "-1 \<le> rw_snapshotid w"
    using store_invD [OF inv] by metis
  let ?P = "\<lambda>k. spath k w"
  have f1: "f1 = f(?P Latestmaxseq \<mapsto> le32 (rw_maxseq w), ?P Deletedset \<mapsto> ds_file (rw_deleted_set w))" "stored = Some d"
    using close rw_close_eq [OF mem w(1), of f] w(2) by auto
  note inj = spath_inject [OF snapshot_method_valid [OF w(1)]]
  obtain d' where d': "db_Open kv (Some d) = (d', True)" "con d' = con d" using rocksdb_lawsD(8) [OF laws, of "Some d"] by auto
  obtain ds where ds: "ds_load (Some (ds_file (rw_deleted_set w))) (DeletedSet_new 10 100) = Inr ds" "ds_lookup ds = ds_lookup (rw_deleted_set w)"
      "records_sorted_bykey ds = records_sorted_bykey (rw_deleted_set w)" "max_size ds = max_size (DeletedSet_new 10 100)" "linked (records_sorted_bykey ds) (records_sorted_byseq ds)"
    using ds_load_server_file [OF w(5)] w(6) by (metis sets_ok_def)
  then have dsok: "ds_ok ds" using w(5,6) by (simp add: ds_ok_def sets_ok_def)
  have w0: "rw_methodid w0 = rw_methodid w" "rw_deleted_set w0 = DeletedSet_new 10 100"
    using new snapshot_method_valid [OF w(1)] by (auto simp: rw_init_def rw_new_def invariant_def)
  define w2 where "w2 = w0\<lparr>rw_workerid := rw_workerid w, rw_db := Some d', rw_deleted_set := ds\<rparr>"
  have w2: "snapshot_method w2" "rw_db w2 = Some d'" "rw_methodid w2 = rw_methodid w" "rw_deleted_set w2 = ds" using w(1) w0 by (simp_all add: w2_def)
  have sp: "spath k w2 = ?P k" for k using w0 by (simp add: spath_def w2_def)
  have data: "kv_ok con w'" "kv_abs con w' = kv_abs con w"
    if "rw_db w' = Some d'" "rw_deleted_set w' = ds" "rw_methodid w' = rw_methodid w" for w' :: "('a, 'b) rocksdb_wrapper"
    using that w(1,2,3,7) d'(2) ds(2) dsok by (auto simp: kv_ok_def kv_abs_def)
  have f1': "f1 (?P k) = f (?P k)" if "k \<noteq> Deletedset" "k \<noteq> Latestmaxseq" for k using that by (auto simp: f1(1) inj)
  have del: "f1 (?P Deletedset) = Some (ds_file (rw_deleted_set w))" "isexist f1 (?P Latestmaxseq)" by (auto simp: f1(1) inj isexist_def)
  have load: "load_maxseq f1 (?P Latestmaxseq) = Inr (rw_maxseq w)" by (simp add: load_maxseq_def load_int_def f1(1) inj)
  note paths = spath_simps [OF snapshot_method_valid [OF w(1)]]
  have need: "method_needsnapshot (w0\<lparr>rw_workerid := rw_workerid w, rw_db := Some d'\<rparr>) = Inr True" using w(1) w0(1) by (auto simp: methods_simps)
  show thesis
  proof (cases "rw_snapshotid w \<le> 0")
    case True
    then have none: "f1 (?P Snapshotid) = None" using files f1' [of Snapshotid] by (simp add: files_inv_def)
    let ?w' = "w2\<lparr>rw_snapshotid := -1, rw_snapshotdb := None, rw_snapshot_deleted_set := ds_clear (rw_snapshot_deleted_set w2),
        rw_inswitch_snapshot := [], rw_sp := None, rw_latest_sp := None, rw_latest_snapshot_deleted_set := ds_clear (rw_latest_snapshot_deleted_set w2),
        rw_maxseq := if rw_maxseq w2 < rw_maxseq w then rw_maxseq w else rw_maxseq w2\<rparr>"
    have "rw_open kv stored (rw_workerid w) (f1, w0) = Inr (True, f1, ?w')"
      using need ds(1) del none load
      by (simp add: rw_open_def f1(2) w0 d'(1) paths isexist_def w2_def Let_def)
    moreover have "rw_maxseq w \<le> rw_maxseq ?w'" by auto
    ultimately show thesis using that [of ?w'] data [of ?w'] w2 True by simp
  next
    case False
    then have fs: "f1 (?P Snapshotid) = Some (le32 (word_of_int (rw_snapshotid w)))" "rw_snapshotid w < 2 ^ 31"
      using files f1' [of Snapshotid] by (auto simp: files_inv_def)
    let ?w2 = "w2\<lparr>rw_snapshotid := rw_snapshotid w\<rparr>"
    have "serverside_ok (rw_snapshotid w) (f1, ?w2)" "inswitch_file_ok (rw_snapshotid w) (f1, ?w2)"
      using files False f1' by (auto simp: files_inv_def serverside_ok_def inswitch_file_ok_def sp)
    moreover then obtain m where m: "inswitch_ok m" "f1 (?P (Inswitchsnapshot (word_of_int (rw_snapshotid w)))) = Some (inswitch_file m)"
      by (auto simp: inswitch_file_ok_def sp)
    moreover have "snapshot_method ?w2" "rw_db ?w2 = Some d'" using w2 by simp_all
    ultimately obtain c ds3 q where l: "load_serverside_snapshot_files kv (rw_snapshotid w) (f1, ?w2) =
        Inr (f1, ?w2\<lparr>rw_snapshotdb := Some c, rw_sp := None, rw_snapshot_deleted_set := ds3, rw_maxseq := q\<rparr>)"
      using load_serverside_eq [OF laws] by metis
    let ?w3 = "?w2\<lparr>rw_snapshotdb := Some c, rw_sp := None, rw_snapshot_deleted_set := ds3, rw_maxseq := q\<rparr>"
    have "load_inswitch_snapshot (rw_snapshotid w) (f1, ?w3) = Inr (f1, ?w3\<lparr>rw_inswitch_snapshot := m\<rparr>)"
      using w2(1) m by (intro load_inswitch_eq) (simp_all add: sp)
    then have files3: "load_snapshot_files kv (rw_snapshotid w) (f1, ?w2) = Inr (f1, ?w3\<lparr>rw_inswitch_snapshot := m\<rparr>)"
      using l w2(1) by (simp add: load_snapshot_files_def require_snapshot_ok)
    have sid: "load_snapshotid f1 (?P Snapshotid) = Inr (rw_snapshotid w)"
      using load_store(3) [of "rw_snapshotid w" "?P Snapshotid" f1] False fs by (simp add: store_snapshotid_def load_snapshotid_def load_int_def)
    let ?w' = "?w3\<lparr>rw_inswitch_snapshot := m, rw_latest_sp := None, rw_maxseq := if q < rw_maxseq w then rw_maxseq w else q\<rparr>"
    have "rw_open kv stored (rw_workerid w) (f1, w0) = Inr (True, f1, ?w')"
      using need sid ds(1) del fs(1) load files3 False
      by (simp add: rw_open_def f1(2) w0 d'(1) paths isexist_def invariant_def w2_def Let_def)
    moreover have "rw_maxseq w \<le> rw_maxseq ?w'" by auto
    ultimately show thesis using that [of ?w'] data [of ?w'] w2 False by simp
  qed
qed

section \<open>Properties of the protocol\<close>

text \<open>C3: in every state a server reaches by requests and by snapshot operations in the common case of the protocol, in any
  interleaving, the next such operation succeeds, the invariant holds (no key is both live and deleted, neither in the
  database nor in a snapshot, and every record decodes), and once there is a snapshot every range query for 1 to 1000
  records is answered.\<close>

theorem snapshot_protocol_safe:
  assumes "rocksdb_laws kv con scon" "mem_ok mem" "store_inv con scon (snd s0)" "store_reach kv mem s0 s"
  shows "store_inv con scon (snd s) \<and> (op_ok a (snd s) \<longrightarrow> (\<exists>s'. store_do kv mem a s = Inr s')) \<and>
    (0 \<le> rw_snapshotid (snd s) \<and> get_scanrecordcnt startkey endkey = Inr n \<longrightarrow> (\<exists>rs. rw_range_scan kv startkey endkey (snd s) = Inr rs))"
proof -
  have inv: "store_inv con scon (snd s)" by (rule store_reach_inv [OF assms])
  moreover have "\<exists>s'. store_do kv mem a s = Inr s'" if "op_ok a (snd s)" using store_do_inv [OF assms(1,2) inv that] by metis
  moreover have "\<exists>rs. rw_range_scan kv startkey endkey (snd s) = Inr rs" if "0 \<le> rw_snapshotid (snd s)" "get_scanrecordcnt startkey endkey = Inr n"
  proof -
    have "scan_inv con scon (snd s)" using inv that(1) by (simp add: store_inv_def split: if_splits)
    moreover then obtain m where "snap_content con scon (snd s) = Some m" by (auto simp: scan_inv_def)
    ultimately show ?thesis using range_scan_spec [OF assms(1) _ _ that(2)] by blast
  qed
  ultimately show ?thesis by blast
qed

text \<open>Making a snapshot and waiting for the records of the switch: what will be installed is the state at the beginning.\<close>

lemma point_in_time:
  assumes "rocksdb_laws kv con scon" "mem_ok mem" "store_inv con scon w" "0 \<le> rw_snapshotid w" "\<not> rw_is_snapshot w" "rw_db w = Some d"
    "0 \<le> i" "list_all waiting ops"
  obtains f' w' where "store_run kv mem (Make i # ops) (f, w) = Inr (f', w')" "store_inv con scon w'" "rw_snapshotid w' = rw_snapshotid w"
    "rw_latest_sp w' = Some (db_GetSnapshot kv d)" "ds_lookup (rw_latest_snapshot_deleted_set w') = ds_lookup (rw_deleted_set w)"
proof -
  have sm: "snapshot_method w" using assms(3) by (simp add: store_inv_def)
  obtain f1 where make: "store_do kv mem (Make i) (f, w) = Inr (f1, made kv d w)"
    using make_snapshot_eq [OF assms(2) sm assms(6,7), of kv f] assms(4,5) by (simp add: store_do_def)
  have inv1: "store_inv con scon (made kv d w)" using store_inv_made [OF assms(1,3,6)] assms(4) by simp
  have w1: "rw_snapshotid (made kv d w) = rw_snapshotid w" "rw_is_snapshot (made kv d w)" "rw_latest_sp (made kv d w) = Some (db_GetSnapshot kv d)"
    "ds_lookup (rw_latest_snapshot_deleted_set (made kv d w)) = ds_lookup (rw_deleted_set w)"
    by (simp_all add: made_def ds_assign_ok)
  have "list_all (reading (rw_snapshotid (made kv d w))) ops" using assms(8) waiting_reading by (auto simp: list_all_iff)
  then obtain f2 w2 where run1: "store_run kv mem ops (f1, made kv d w) = Inr (f2, w2)" "store_inv con scon w2" "latest_view w2 = latest_view (made kv d w)"
    using reading_run [OF assms(1,2), of "(f1, made kv d w)" ops] inv1 w1 assms(4,8) by auto
  show thesis by (rule that [of f2 w2]) (use make run1 w1 in \<open>auto simp: latest_view_def\<close>)
qed

text \<open>A range query on an installed snapshot.\<close>

lemma installed_scan:
  assumes "rocksdb_laws kv con scon" "store_inv con scon w" "0 \<le> rw_snapshotid w2" "ds_lookup (rw_latest_snapshot_deleted_set w2) = t"
    "scan_view w = scan_view (updated m (db_GetSnapshot kv d) w2)" "get_scanrecordcnt startkey endkey = Inr n"
  shows "\<exists>rs. rw_range_scan kv startkey endkey w = Inr rs \<and> scan_answer startkey (nat n) (con d) t m rs"
proof -
  have w: "rw_snapshotid w = rw_snapshotid w2 + 1" "rw_sp w = Some (db_GetSnapshot kv d)" "rw_inswitch_snapshot w = m"
    "ds_lookup (rw_snapshot_deleted_set w) = t"
    using assms(4,5) by (auto simp: scan_view_def updated_def ds_assign_ok)
  have "scan_inv con scon w" "snap_content con scon w = Some (con d)"
    using assms(2,3) w(1,2) rocksdb_lawsD(4) [OF assms(1), of d] by (auto simp: store_inv_def snap_content_def split: if_splits)
  then show ?thesis using range_scan_spec [OF assms(1) _ _ assms(6)] w(3,4) by metis
qed

text \<open>C2: range queries read a point in time. Take any state in which a snapshot can be made, make one, process requests,
  install it with the records of the switch, and process further requests and prepare the next snapshot: a range query for
  n records then answers from the database and the tombstones as they were when the snapshot was made, and the records of the
  switch, whatever the later requests wrote. The answer consists of the first n of the newest existing records among the
  first n records of each of these three sources; where the first n records of the sources are enough, these are the first n
  of all records visible in the snapshot. (Where they are not, because deleted or older records take up the n places of a
  source, the code may leave out visible records or show older ones.)\<close>

theorem snapshot_isolation:
  assumes "rocksdb_laws kv con scon" "mem_ok mem" "store_inv con scon w" "0 \<le> rw_snapshotid w" "rw_snapshotid w + 1 < 2 ^ 31"
    "\<not> rw_is_snapshot w" "rw_db w = Some d" "0 \<le> i" "list_all waiting ops" "inswitch_ok m" "list_all (reading (rw_snapshotid w + 1)) later"
    "get_scanrecordcnt startkey endkey = Inr n"
  shows "\<exists>f' w' rs. store_run kv mem (Make i # ops @ Update m (rw_snapshotid w + 1) # later) (f, w) = Inr (f', w') \<and>
    rw_range_scan kv startkey endkey w' = Inr rs \<and> scan_answer startkey (nat n) (con d) (ds_lookup (rw_deleted_set w)) m rs"
proof -
  obtain f2 w2 where run1: "store_run kv mem (Make i # ops) (f, w) = Inr (f2, w2)" "store_inv con scon w2" "rw_snapshotid w2 = rw_snapshotid w"
      "rw_latest_sp w2 = Some (db_GetSnapshot kv d)" "ds_lookup (rw_latest_snapshot_deleted_set w2) = ds_lookup (rw_deleted_set w)"
    by (rule point_in_time [OF assms(1-4,6-9)])
  let ?w3 = "updated m (db_GetSnapshot kv d) w2"
  obtain f3 where upd: "store_do kv mem (Update m (rw_snapshotid w + 1)) (f2, w2) = Inr (f3, ?w3)"
    using update_snapshot_eq [OF assms(2) _ run1(4) assms(10), of "rw_snapshotid w + 1" kv f2] run1(2,3) by (auto simp: store_do_def store_inv_def)
  have inv3: "store_inv con scon ?w3" by (rule store_inv_updated [OF run1(2,4) assms(10)])
  have "rw_snapshotid ?w3 = rw_snapshotid w + 1" using run1(3) by (simp add: updated_def)
  then obtain f4 w4 where run2: "store_run kv mem later (f3, ?w3) = Inr (f4, w4)" "store_inv con scon w4" "scan_view w4 = scan_view ?w3"
    using reading_run [OF assms(1,2), of "(f3, ?w3)" later] inv3 assms(4,11) by auto
  obtain rs where "rw_range_scan kv startkey endkey w4 = Inr rs" "scan_answer startkey (nat n) (con d) (ds_lookup (rw_deleted_set w)) m rs"
    using installed_scan [OF assms(1) run2(2) _ run1(5) run2(3) assms(12)] assms(4) run1(3) by auto
  moreover have "store_run kv mem (Make i # ops @ Update m (rw_snapshotid w + 1) # later) (f, w) = Inr (f4, w4)"
    using run1(1) upd run2(1) store_run_append [of kv mem "Make i # ops" "Update m (rw_snapshotid w + 1) # later"] by simp
  ultimately show ?thesis by blast
qed

text \<open>C5: a server that shuts down in any state reached by the protocol and is opened again on its files and database has the
  same live records and tombstones, a \<^verbatim>\<open>maxseq\<close> that is no smaller, and the number of the last snapshot that was
  installed.\<close>

theorem restart_restores:
  assumes "rocksdb_laws kv con scon" "mem_ok mem" "store_inv con scon (snd s0)" "files_inv s0" "store_reach kv mem s0 (f, w)"
    "rw_init (rw_methodid w) (rw_new wid0 maxseq0) = Inr w0"
  shows "\<exists>f1 stored w'. rw_close mem (f, w) = Inr (f1, stored) \<and> rw_open kv stored (rw_workerid w) (f1, w0) = Inr (True, f1, w') \<and>
    kv_ok con w' \<and> kv_abs con w' = kv_abs con w \<and> rw_maxseq w \<le> rw_maxseq w' \<and>
    rw_snapshotid w' = (if 1 \<le> rw_snapshotid w then rw_snapshotid w else -1)"
proof -
  have inv: "store_inv con scon w" "files_inv (f, w)"
    using store_reach_inv [OF assms(1-3,5)] store_reach_files [OF assms(1-5)] by simp_all
  then have "snapshot_method w" by (simp add: store_inv_def)
  then obtain f1 stored where close: "rw_close mem (f, w) = Inr (f1, stored)" using rw_close_eq [OF assms(2)] by metis
  obtain w' where "rw_open kv stored (rw_workerid w) (f1, w0) = Inr (True, f1, w')" "kv_ok con w'" "kv_abs con w' = kv_abs con w"
    "rw_maxseq w \<le> rw_maxseq w'" "rw_snapshotid w' = (if 1 \<le> rw_snapshotid w then rw_snapshotid w else -1)"
    by (rule rw_open_restart [OF assms(1,2) inv assms(6) close])
  then show ?thesis using close by blast
qed

section \<open>A concrete server\<close>

definition demo_mem :: "nat \<Rightarrow> byte list" where
  "demo_mem n = replicate n 7"

lemma demo_mem_ok: "mem_ok demo_mem"
  by (simp add: mem_ok_def demo_mem_def)

lemma store_inv_demo: "store_inv RBT.lookup RBT.lookup demo_store" "files_inv (Map.empty, demo_store)"
proof -
  have "no_snapshot demo_store" "sets_ok demo_store" "latest_inv RBT.lookup demo_store" "rw_snapshotid demo_store = -1"
    by (simp_all add: demo_store_def rw_new_def no_snapshot_def sets_ok_def latest_inv_def ds_ok_new DeletedSet_new_def)
      (simp_all add: ds_ok_def)
  then show "store_inv RBT.lookup RBT.lookup demo_store" "files_inv (Map.empty, demo_store)"
    using kv_ok_demo(1,4) by (simp_all add: store_inv_def files_inv_def no_snapshot_def)
qed

lemma demo_cnt: "get_scanrecordcnt key_min (Key 5 0 0 0) = Inr 5"
  by (simp add: get_scanrecordcnt_def key_min_def invariant_def)

lemma demo_put:
  obtains w where "store_do mem_rocksdb demo_mem (Req (Put_req key_min demo_val 7 False)) (Map.empty, demo_store) = Inr (Map.empty, w)"
    "kv_abs RBT.lookup w = [key_min \<mapsto> Live demo_val 7]" "rw_methodid w = FARREACH_ID"
proof -
  have ok: "req_ok (Put_req key_min demo_val 7 False)" using demo_reqs_ok(1) by (simp add: demo_reqs_def)
  obtain a w where w: "kv_step mem_rocksdb (Put_req key_min demo_val 7 False) demo_store = Inr (a, w)" "kv_ok RBT.lookup w" "rw_maxseq w = max (rw_maxseq demo_store) 7"
      "kv_frame {} demo_store w" "room_for {} demo_store \<Longrightarrow> spec_step True (Put_req key_min demo_val 7 False) (kv_abs RBT.lookup demo_store) = (a, kv_abs RBT.lookup w)"
    using kv_step_spec [OF mem_rocksdb_laws kv_ok_demo(1) ok] kv_ok_demo(4) by auto
  have "room_for {} demo_store" by (simp add: room_for_def demo_store_def rw_new_def DeletedSet_new_def ds_lookup_def om_find_empty)
  then have "kv_abs RBT.lookup w = [key_min \<mapsto> Live demo_val 7]"
    using w(5) by (simp add: spec_step_def spec_put_def kv_ok_demo(2))
  moreover have "rw_methodid w = FARREACH_ID" using w(4) by (simp add: kv_frame_def rw_rest_def demo_store_def)
  ultimately show thesis using that w(1) by (simp add: store_do_def)
qed

theorem snapshot_protocol_safe_witness:
  "\<exists>s'. store_do mem_rocksdb demo_mem (Clean 1) (Map.empty, demo_store) = Inr s'"
  using snapshot_protocol_safe [OF mem_rocksdb_laws demo_mem_ok _ store_reach.start, of "(Map.empty, demo_store)" "Clean 1" key_min key_min 0]
    store_inv_demo(1) by (simp add: demo_store_def rw_new_def)

text \<open>A server with one record.\<close>

definition demo_db :: "(byte list, byte list) rbt" where
  "demo_db = RBT.insert (to_string_for_rocksdb key_min) ([65] @ le32 7) RBT.empty"

lemma live_demo_db: "live (RBT.lookup demo_db) = [key_min \<mapsto> (demo_val, 7)]" "content_ok (RBT.lookup demo_db)"
proof -
  have dec: "val_from_string_for_rocksdb ([65] @ le32 7) = Inr (demo_val, 7)"
    by (simp add: val_from_string_for_rocksdb_def le32_def of_le32_def demo_val_def val_default_def)
  then show "live (RBT.lookup demo_db) = [key_min \<mapsto> (demo_val, 7)]"
    by (auto simp: demo_db_def live_def fun_eq_iff)
  have "val_ok demo_val" using demo_reqs_ok(1) by (simp add: demo_reqs_def storable_def)
  then have "record_str ([65] @ le32 7)" using dec by (auto simp: record_str_def)
  then show "content_ok (RBT.lookup demo_db)" by (simp add: content_ok_def demo_db_def)
qed

theorem snapshot_isolation_witness:
  "\<exists>f' w'. store_run mem_rocksdb demo_mem
      (Make 1 # [Req (Remove_req key_min 8 False)] @ Update [] 1 # [Stop, Clean 2, Req (Put_req key_min demo_val 9 False)])
      (Map.empty, initialised mem_rocksdb demo_db (demo_store\<lparr>rw_db := Some demo_db\<rparr>)) = Inr (f', w') \<and>
    rw_range_scan mem_rocksdb key_min (Key 5 0 0 0) w' = Inr [(key_min, scan_record (demo_val, 7))]"
proof -
  let ?s = "demo_store\<lparr>rw_db := Some demo_db\<rparr>" and ?x = "(key_min, scan_record (demo_val, 7))"
  let ?w = "initialised mem_rocksdb demo_db ?s"
  have "store_inv RBT.lookup RBT.lookup ?s"
    using store_inv_demo(1) live_demo_db
    by (simp add: store_inv_def kv_ok_def demo_store_def rw_new_def no_snapshot_def sets_ok_def latest_inv_def DeletedSet_new_def ds_lookup_def om_find_empty)
  then have inv: "store_inv RBT.lookup RBT.lookup ?w" by (rule store_inv_init [OF mem_rocksdb_laws]) (simp_all add: demo_store_def rw_new_def)
  have w: "rw_snapshotid ?w = 0" "\<not> rw_is_snapshot ?w" "rw_db ?w = Some demo_db" "ds_lookup (rw_deleted_set ?w) = Map.empty"
    by (simp_all add: initialised_def demo_store_def rw_new_def DeletedSet_new_def ds_lookup_def om_find_empty)
  have "storable demo_val" using demo_reqs_ok(1) by (simp add: demo_reqs_def)
  then obtain f' w' rs where run: "store_run mem_rocksdb demo_mem
      (Make 1 # [Req (Remove_req key_min 8 False)] @ Update [] 1 # [Stop, Clean 2, Req (Put_req key_min demo_val 9 False)]) (Map.empty, ?w) = Inr (f', w')"
    "rw_range_scan mem_rocksdb key_min (Key 5 0 0 0) w' = Inr rs" "scan_answer key_min 5 (RBT.lookup demo_db) Map.empty [] rs"
    using snapshot_isolation [OF mem_rocksdb_laws demo_mem_ok inv, of demo_db 1
        "[Req (Remove_req key_min 8 False)]" "[]" "[Stop, Clean 2, Req (Put_req key_min demo_val 9 False)]" key_min "Key 5 0 0 0" 5 Map.empty]
      w demo_cnt inswitch_ok_Nil by (auto simp del: store_run.simps append.simps)
  have "lists_from key_min (\<lambda>k. map_option scan_record (live (RBT.lookup demo_db) k)) [?x]" "lists_from key_min (\<lambda>k. map_option tomb_record None) []"
    "lists_from key_min (visible (RBT.lookup demo_db) Map.empty (om_find [])) [?x]"
    by (auto simp: lists_from_def live_demo_db om_ok_def fun_eq_iff visible_def server_rec_def kept_def scan_record_def om_find_empty)
  then have "scan_answer key_min 5 (RBT.lookup demo_db) Map.empty [] [?x]"
    unfolding scan_answer_def
    by - (rule exI [of _ "[?x]"], rule exI [of _ "[]"], rule exI [of _ "[?x]"], rule exI [of _ "[?x]"], simp add: om_lower_bound_def om_ok_def fun_eq_iff kept_def scan_record_def)
  then have "rs = [?x]" using run(3) by (rule scan_answer_unique [symmetric])
  then show ?thesis using run(1,2) by blast
qed

theorem restart_restores_witness:
  "\<exists>w f1 stored w'. store_do mem_rocksdb demo_mem (Req (Put_req key_min demo_val 7 False)) (Map.empty, demo_store) = Inr (Map.empty, w) \<and>
     rw_close demo_mem (Map.empty, w) = Inr (f1, stored) \<and> kv_abs RBT.lookup w' = [key_min \<mapsto> Live demo_val 7] \<and>
     rw_open mem_rocksdb stored (rw_workerid w) (f1, rw_new 3 4\<lparr>rw_methodid := FARREACH_ID\<rparr>) = Inr (True, f1, w')"
proof -
  obtain w where w: "store_do mem_rocksdb demo_mem (Req (Put_req key_min demo_val 7 False)) (Map.empty, demo_store) = Inr (Map.empty, w)"
    "kv_abs RBT.lookup w = [key_min \<mapsto> Live demo_val 7]" "rw_methodid w = FARREACH_ID"
    by (rule demo_put)
  have "op_ok (Req (Put_req key_min demo_val 7 False)) demo_store" using demo_reqs_ok(1) by (simp add: demo_reqs_def)
  then have "store_reach mem_rocksdb demo_mem (Map.empty, demo_store) (Map.empty, w)"
    using store_reach.step [OF store_reach.start, of _ "(Map.empty, demo_store)"] w(1) by (metis snd_conv)
  moreover have "rw_init (rw_methodid w) (rw_new 3 4) = Inr (rw_new 3 4\<lparr>rw_methodid := FARREACH_ID\<rparr>)"
    using w(3) by (simp add: rw_init_def rw_new_def invariant_def)
  ultimately show ?thesis
    using restart_restores [OF mem_rocksdb_laws demo_mem_ok _ store_inv_demo(2)] store_inv_demo(1) w by fastforce
qed

end
