(* ===== verification/Outband.thy ===== *)
theory Outband
  imports Packet_Res Kv_Protocol
begin

text \<open>
  The messages of the snapshot protocol outside the data plane (src/farreach/outband_packet_format.c): the control signals
  between controller, switch operating system and servers, the collection of the in-switch records from the switch operating
  system (\<^verbatim>\<open>SNAPSHOT_GETDATA_ACK\<close>), their distribution to the servers (\<^verbatim>\<open>SNAPSHOT_SENDDATA\<close>), and the notification and
  files of the upstream backups. The parallel arrays of keys, values, sequence numbers and status bits that the code passes
  around are one list of records. The control types come from the configuration and are arguments. A received message is
  the list of its bytes, and reading past its end is \<^verbatim>\<open>Undefined\<close> (in a \<^verbatim>\<open>DynamicArray\<close> with spare capacity the code
  would see the zero bytes behind it).
\<close>

type_synonym keyed_record = "net_key \<times> snapshot_record"

section \<open>Primitive fields\<close>

text \<open>An \<^verbatim>\<open>int\<close> copied by \<^verbatim>\<open>memcpy\<close>.\<close>

definition int_bytes :: "int \<Rightarrow> byte list" where
  "int_bytes x = le32 (word_of_int x)"

definition get_int :: "int reader" where
  "get_int = rbind get32 (\<lambda>w. rreturn (sint w))"

definition get64 :: "u64 reader" where
  "get64 = rbind (get_bytes 8) (\<lambda>bs. rreturn (load64 bs))"

primrec rtimes :: "nat \<Rightarrow> 'a reader \<Rightarrow> 'a list reader" where
  "rtimes 0 r = rreturn []"
| "rtimes (Suc n) r = rbind r (\<lambda>x. rbind (rtimes n r) (\<lambda>xs. rreturn (x # xs)))"

definition dput_val :: "net_val \<Rightarrow> dwriter" where
  "dput_val v s = (case s of (d, off) \<Rightarrow>
     bind_res (val_dynamic_serialize v d off) (\<lambda>d.
     bind_res (get_padding_size (val_length v)) (\<lambda>padding_size.
     Inr (d, off + int (unat (2 + val_length v + padding_size))))))"

text \<open>The first \<^verbatim>\<open>n\<close> bytes behind \<^verbatim>\<open>array()\<close>.\<close>

definition da_first :: "dyn_array \<Rightarrow> int \<Rightarrow> byte list res" where
  "da_first d n = (case da_array d of None \<Rightarrow> Inl Undefined
     | Some a \<Rightarrow> if nat n \<le> length a then Inr (take (nat n) a) else Inl Undefined)"

section \<open>Control signals\<close>

record snapshot_signal =
  ss_control_type :: int
  ss_snapshotid :: int

definition SnapshotSignal_serialize :: "snapshot_signal \<Rightarrow> writer" where
  "SnapshotSignal_serialize x = wseq [require_space 8, put_bytes (int_bytes (ss_control_type x)), put_bytes (int_bytes (ss_snapshotid x))]"

definition SnapshotSignal_deserialize :: "snapshot_signal reader" where
  "SnapshotSignal_deserialize = rthen (require_space 8)
     (rbind get_int (\<lambda>c. rbind get_int (\<lambda>i. rreturn \<lparr>ss_control_type = c, ss_snapshotid = i\<rparr>)))"

section \<open>Collecting the records of the switch\<close>

text \<open>The switch operating system appends the record of each cached key to the buffer of its server.\<close>

definition dput_record :: "keyed_record \<Rightarrow> dwriter" where
  "dput_record kr = dseq [dput_key (fst kr), dput_val (sr_val (snd kr)), dput (le32 (sr_seq (snd kr))), dput (bool_byte (sr_stat (snd kr)))]"

type_synonym collect_state = "(dyn_array \<times> int) list \<times> int list"

definition add_record :: "u16 \<times> keyed_record \<Rightarrow> collect_state \<Rightarrow> collect_state res" where
  "add_record r s = (case (r, s) of ((tmp_serveridx, kr), (bufs, cnts)) \<Rightarrow>
     let i = unat tmp_serveridx in
     if i < length bufs \<and> i < length cnts
     then bind_res (dput_record kr (bufs ! i)) (\<lambda>b. Inr (bufs[i := b], cnts[i := cnts ! i + 1]))
     else Inl Undefined)"

primrec add_records :: "(u16 \<times> keyed_record) list \<Rightarrow> collect_state \<Rightarrow> collect_state res" where
  "add_records [] s = Inr s"
| "add_records (r # rs) s = bind_res (add_record r s) (add_records rs)"

text \<open>The header of one server and its records.\<close>

definition dput_server :: "nat \<Rightarrow> dyn_array \<times> int \<Rightarrow> int \<Rightarrow> u64 \<Rightarrow> dwriter" where
  "dput_server i sendbuf record_cnt bwcost s = bind_res (da_first (fst sendbuf) (snd sendbuf)) (\<lambda>data.
     dseq [dput (int_bytes (snd sendbuf + 4 + 2 + 4 + 8)), dput (le16 (of_nat i)), dput (int_bytes record_cnt),
       dput (le64 bwcost), dput data] s)"

text \<open>The number of servers is a 16-bit number like the indices that count up to it. The arrays of one pipeline are a list of
  its records with the server each of them belongs to.\<close>

definition dynamic_serialize_snapshot_getdata_ack ::
    "dyn_array \<Rightarrow> int \<Rightarrow> u16 \<Rightarrow> (u16 \<times> keyed_record) list list \<Rightarrow> u64 list \<Rightarrow> (dyn_array \<times> int) res" where
  "dynamic_serialize_snapshot_getdata_ack dynamic_buf control_type max_logicalservernum pipelines bwcosts =
     (let n = unat max_logicalservernum in
      bind_res (da_new (int MAX_BUFSIZE) (int MAX_LARGE_BUFSIZE)) (\<lambda>d0.
      bind_res (da_clear d0) (\<lambda>d0.
      bind_res (add_records (concat pipelines) (replicate n (d0, 0), replicate n 0)) (\<lambda>(bufs, cnts).
      bind_res (ensure_defined (n \<le> length bwcosts)) (\<lambda>_.
      bind_res (dseq (map (\<lambda>i. dput_server i (bufs ! i) (cnts ! i) (bwcosts ! i)) [0..<n]) (dynamic_buf, 8)) (\<lambda>(d, total_bytes).
      bind_res (dynamic_memcpy d 0 (int_bytes control_type)) (\<lambda>d.
      bind_res (dynamic_memcpy d 4 (int_bytes total_bytes)) (\<lambda>d.
      bind_res (invariant (total_bytes \<le> int MAX_LARGE_BUFSIZE)) (\<lambda>_. Inr (d, total_bytes))))))))))"

record server_data =
  sd_bytes :: int
  sd_serveridx :: u16
  sd_recordcnt :: int
  sd_specialcase_bwcost :: u64
  sd_records :: "keyed_record list"

definition get_server :: "server_data reader" where
  "get_server = rbind get_int (\<lambda>b. rbind get16 (\<lambda>i. rbind get_int (\<lambda>c. rbind get64 (\<lambda>w.
     rbind (rtimes (nat c) get_record) (\<lambda>rs.
     rreturn \<lparr>sd_bytes = b, sd_serveridx = i, sd_recordcnt = c, sd_specialcase_bwcost = w, sd_records = rs\<rparr>)))))"

text \<open>Every reader moves the offset forward, so the loop over the servers ends.\<close>

definition advances :: "nat \<Rightarrow> 'a reader \<Rightarrow> bool" where
  "advances n r \<longleftrightarrow> (\<forall>s x s'. r s = Inr (x, s') \<longrightarrow> snd s + n \<le> snd s')"

lemma advances_get_bytes: "advances n (get_bytes n)"
  by (auto simp: advances_def get_bytes_def split: if_splits)

lemma advances_rreturn: "advances 0 (rreturn x)"
  by (simp add: advances_def rreturn_def)

lemma advances_rbind: "advances m r \<Longrightarrow> (\<And>x. advances 0 (f x)) \<Longrightarrow> advances m (rbind r f)"
  unfolding advances_def rbind_def by (fastforce simp: bind_res_eq_Inr)

lemma advances_get32: "advances 4 get32"
  unfolding get32_def by (intro advances_rbind advances_get_bytes advances_rreturn)

lemma advances_get_int: "advances 4 get_int"
  unfolding get_int_def by (intro advances_rbind advances_get32 advances_rreturn)

lemma advances_weaken: "advances m r \<Longrightarrow> advances 0 r"
  unfolding advances_def by fastforce

lemma advances_rthen:
  assumes "advances m r" "\<And>s s'. w s = Inr s' \<Longrightarrow> snd s \<le> snd s'"
  shows "advances m (rthen w r)"
  using assms unfolding advances_def rthen_def by (fastforce simp: bind_res_eq_Inr)

lemma require_space_forward: "require_space n s = Inr s' \<Longrightarrow> snd s \<le> snd s'"
  by (auto simp: require_space_def split: prod.splits if_splits)

lemma skip_bytes_forward: "skip_bytes n s = Inr s' \<Longrightarrow> snd s \<le> snd s'"
  by (auto simp: skip_bytes_def split: prod.splits)

lemma advances_get16: "advances 0 get16"
  unfolding get16_def by (intro advances_rbind advances_weaken [OF advances_get_bytes] advances_rreturn)

lemma advances_key_deserialize: "advances 0 key_deserialize"
  unfolding key_deserialize_def
  by (intro advances_rthen advances_rbind advances_weaken [OF advances_get32] advances_get16 advances_rreturn) (rule require_space_forward)

lemma advances_deserialize_val: "advances 0 (deserialize_val len)"
proof -
  have "advances 0 (rthen (require_space m) (rbind (get_bytes (unat len)) (\<lambda>d. rthen (skip_bytes q) (rreturn (g d)))))" for m q and g :: "byte list \<Rightarrow> net_val"
    by (intro advances_rthen advances_rbind advances_weaken [OF advances_get_bytes] advances_rreturn) (auto dest: require_space_forward skip_bytes_forward)
  then show ?thesis
    unfolding deserialize_val_def advances_def
    by (auto simp: bind_res_eq_Inr Let_def rreturn_def split: if_splits)
qed

lemma advances_val_deserialize: "advances 0 val_deserialize"
  unfolding val_deserialize_def deserialize_vallen_def
  by (intro advances_rbind advances_rthen advances_get16 advances_rreturn advances_deserialize_val) (rule require_space_forward)

lemma advances_get_bool: "advances 0 get_bool"
proof -
  have "advances 0 (\<lambda>s. if hd bs = 0 then Inr (False, s) else if hd bs = 1 then Inr (True, s) else Inl Undefined)" for bs :: "byte list"
    by (auto simp: advances_def split: if_splits)
  then show ?thesis unfolding get_bool_def by (intro advances_rbind advances_weaken [OF advances_get_bytes])
qed

lemma advances_get_record: "advances 0 get_record"
  unfolding get_record_def
  by (intro advances_rbind advances_key_deserialize advances_val_deserialize advances_weaken [OF advances_get32] advances_get_bool advances_rreturn)

lemma advances_rtimes: "advances 0 r \<Longrightarrow> advances 0 (rtimes n r)"
  by (induction n) (auto intro!: advances_rbind advances_rreturn)

lemma advances_get_server: "advances 4 get_server"
  unfolding get_server_def get64_def
  by (intro advances_rbind advances_get_int advances_get16 advances_weaken [OF advances_get_int] advances_weaken [OF advances_get_bytes]
      advances_rtimes advances_get_record advances_rreturn)

lemma get_server_forward: "get_server s = Inr (x, s1) \<Longrightarrow> snd s + 4 \<le> snd s1"
  using advances_get_server unfolding advances_def by blast

function get_servers :: "int \<Rightarrow> wbuf \<Rightarrow> (server_data list \<times> wbuf) res" where
  "get_servers total_bytes s =
     (if int (snd s) < total_bytes
      then case get_server s of Inl e \<Rightarrow> Inl e
        | Inr (x, s1) \<Rightarrow> bind_res (get_servers total_bytes s1) (\<lambda>(xs, s2). Inr (x # xs, s2))
      else Inr ([], s))"
  by pat_completeness auto
termination
  by (relation "measure (\<lambda>(t, s). nat (t - int (snd s)))") (auto dest!: get_server_forward)

declare get_servers.simps [simp del]

definition deserialize_snapshot_getdata_ack :: "int \<Rightarrow> byte list \<Rightarrow> (int \<times> server_data list) res" where
  "deserialize_snapshot_getdata_ack control_type buf =
     bind_res (get_int (buf, 0)) (\<lambda>(tmp_control_type, s).
     bind_res (invariant (tmp_control_type = control_type)) (\<lambda>_.
     bind_res (get_int s) (\<lambda>(total_bytes, s).
     bind_res (invariant (int (length buf) = total_bytes)) (\<lambda>_.
     bind_res (get_servers total_bytes s) (\<lambda>(servers, _). Inr (total_bytes, servers))))))"

section \<open>Distributing the records to the servers\<close>

text \<open>\<^verbatim>\<open>bool tmpstat = tmpserver_seqarray[i];\<close> the status byte is computed from the sequence number.\<close>

definition sent_record :: "keyed_record \<Rightarrow> keyed_record" where
  "sent_record kr = (fst kr, (snd kr)\<lparr>sr_stat := (sr_seq (snd kr) \<noteq> 0)\<rparr>)"

definition dynamic_serialize_snapshot_senddata ::
    "dyn_array \<Rightarrow> int \<Rightarrow> int \<Rightarrow> u16 \<Rightarrow> int \<Rightarrow> keyed_record list \<Rightarrow> (dyn_array \<times> int) res" where
  "dynamic_serialize_snapshot_senddata dynamic_buf control_type snapshotid serveridx recordcnt records =
     bind_res (dseq [dput (int_bytes control_type), dput (int_bytes snapshotid), dskip (Inr 4), dput (le16 serveridx), dput (int_bytes recordcnt)]
       (dynamic_buf, 0)) (\<lambda>s.
     bind_res (dseq (map (\<lambda>kr. dput_record (sent_record kr)) records) s) (\<lambda>(d, offset).
     bind_res (dynamic_memcpy d 8 (int_bytes offset)) (\<lambda>d. Inr (d, offset))))"

record senddata =
  sn_snapshotid :: int
  sn_bytes :: int
  sn_serveridx :: u16
  sn_recordcnt :: int
  sn_records :: "keyed_record list"

definition deserialize_snapshot_senddata :: "int \<Rightarrow> byte list \<Rightarrow> senddata res" where
  "deserialize_snapshot_senddata control_type buf =
     bind_res (rbind get_int (\<lambda>tmp_control_type. rthen (require (tmp_control_type = control_type))
       (rbind get_int (\<lambda>i. rbind get_int (\<lambda>b. rbind get16 (\<lambda>x. rbind get_int (\<lambda>c. rbind (rtimes (nat c) get_record) (\<lambda>rs.
         rreturn \<lparr>sn_snapshotid = i, sn_bytes = b, sn_serveridx = x, sn_recordcnt = c, sn_records = rs\<rparr>))))))) (buf, 0))
     (\<lambda>(x, _). Inr x)"

text \<open>The controller turns the data of the switch into one message per server. The build defines \<^verbatim>\<open>SERVER_ROTATION\<close>
  (src/common/helper.h), so servers that do not take part in the current rotation are skipped.\<close>

definition prepare_server_snapshot ::
    "int \<Rightarrow> int \<Rightarrow> u16 list \<Rightarrow> (u16 \<Rightarrow> dyn_array) \<Rightarrow> server_data \<Rightarrow> (u16 \<Rightarrow> dyn_array) res" where
  "prepare_server_snapshot control_type snapshotid valid_idxes bufs x =
     (if sd_serveridx x \<notin> set valid_idxes then Inr bufs
      else bind_res (dynamic_serialize_snapshot_senddata (bufs (sd_serveridx x)) control_type snapshotid (sd_serveridx x) (sd_recordcnt x) (sd_records x))
        (\<lambda>(d, _). Inr (bufs(sd_serveridx x := d))))"

primrec prepare_server_snapshots ::
    "int \<Rightarrow> int \<Rightarrow> u16 list \<Rightarrow> (u16 \<Rightarrow> dyn_array) \<Rightarrow> server_data list \<Rightarrow> (u16 \<Rightarrow> dyn_array) res" where
  "prepare_server_snapshots control_type snapshotid valid_idxes bufs [] = Inr bufs"
| "prepare_server_snapshots control_type snapshotid valid_idxes bufs (x # xs) =
     bind_res (prepare_server_snapshot control_type snapshotid valid_idxes bufs x)
       (\<lambda>bufs. prepare_server_snapshots control_type snapshotid valid_idxes bufs xs)"

section \<open>Upstream backups\<close>

definition dynamic_serialize_upstream_backup_notification ::
    "dyn_array \<Rightarrow> (net_key \<times> u32) list list \<Rightarrow> (dyn_array \<times> int) res" where
  "dynamic_serialize_upstream_backup_notification dynamic_buf perserver =
     bind_res (dseq (map (\<lambda>(k, seq). dseq [dput_key k, dput (le32 (htonl seq))]) (concat perserver)) (dynamic_buf, 4)) (\<lambda>(d, offset).
     bind_res (dynamic_memcpy d 0 (le32 (htonl (of_nat (length (concat perserver)))))) (\<lambda>d. Inr (d, offset)))"

text \<open>A backup in the file of a client: the sequence number in network order, the status a byte that is 1 for an existing key.\<close>

definition get_backup :: "keyed_record reader" where
  "get_backup = rbind key_deserialize (\<lambda>k. rbind val_deserialize (\<lambda>v. rbind get32_be (\<lambda>seq. rbind (get_bytes 1) (\<lambda>bs.
     rreturn (k, \<lparr>sr_val = v, sr_seq = seq, sr_stat = (hd bs = 1)\<rparr>)))))"

definition deserialize_upstream_backup_content :: "byte list \<Rightarrow> keyed_record list res" where
  "deserialize_upstream_backup_content buf =
     bind_res (rbind get32_be (\<lambda>num. rtimes (nat (sint num)) get_backup) (buf, 0)) (\<lambda>(rs, _). Inr rs)"

section \<open>What the readers return\<close>

definition int_ok :: "int \<Rightarrow> bool" where
  "int_ok x \<longleftrightarrow> - (2 ^ 31) \<le> x \<and> x < 2 ^ 31"

lemma length_int_bytes [simp]: "length (int_bytes x) = 4"
  by (simp add: int_bytes_def)

lemma parses_get_int: "int_ok x \<Longrightarrow> parses get_int (bytes_pat (int_bytes x)) x"
  unfolding get_int_def int_bytes_def int_ok_def
  by (rule parses_rbind_final [OF parses_get32]) (simp add: sint_sbintrunc' signed_take_bit_int_eq_self)

definition signal_ok :: "snapshot_signal \<Rightarrow> bool" where
  "signal_ok x \<longleftrightarrow> int_ok (ss_control_type x) \<and> int_ok (ss_snapshotid x)"

interpretation signal: codec SnapshotSignal_serialize SnapshotSignal_deserialize
  "\<lambda>x. bytes_pat (int_bytes (ss_control_type x)) @ bytes_pat (int_bytes (ss_snapshotid x))" signal_ok
proof unfold_locales
  fix x :: snapshot_signal
  have "emits (wseq [put_bytes (int_bytes (ss_control_type x)), put_bytes (int_bytes (ss_snapshotid x))])
      (bytes_pat (int_bytes (ss_control_type x)) @ bytes_pat (int_bytes (ss_snapshotid x)))"
    by (intro emits_wseq_Cons emits_wseq_single emits_put_bytes)
  then show "emits (SnapshotSignal_serialize x) (bytes_pat (int_bytes (ss_control_type x)) @ bytes_pat (int_bytes (ss_snapshotid x)))"
    unfolding SnapshotSignal_serialize_def by (rule emits_require_space) simp
  assume "signal_ok x"
  then have "parses (rbind get_int (\<lambda>c. rbind get_int (\<lambda>i. rreturn \<lparr>ss_control_type = c, ss_snapshotid = i\<rparr>)))
      (bytes_pat (int_bytes (ss_control_type x)) @ bytes_pat (int_bytes (ss_snapshotid x))) \<lparr>ss_control_type = ss_control_type x, ss_snapshotid = ss_snapshotid x\<rparr>"
    by (intro parses_rbind [OF parses_get_int] parses_rbind_final [OF parses_get_int] refl) (simp_all add: signal_ok_def)
  then show "parses SnapshotSignal_deserialize (bytes_pat (int_bytes (ss_control_type x)) @ bytes_pat (int_bytes (ss_snapshotid x))) x"
    unfolding SnapshotSignal_deserialize_def by (cases x) (auto intro!: parses_rthen_space)
qed

lemma parses_get64: "parses get64 (bytes_pat (le64 w)) w"
  unfolding get64_def by (rule parses_rbind_final [OF parses_get_bytes]) simp_all

lemma parses_rtimes:
  "list_all (\<lambda>x. parses r (bytes_pat (enc x)) x) xs \<Longrightarrow> parses (rtimes (length xs) r) (bytes_pat (concat (map enc xs))) xs"
proof (induction xs)
  case (Cons x xs)
  have "parses (rbind (rtimes (length xs) r) (\<lambda>xs. rreturn (x # xs))) (bytes_pat (concat (map enc xs))) (x # xs)"
    by (rule parses_rbind_final) (use Cons in simp_all)
  with Cons.prems have "parses (rtimes (length (x # xs)) r) (bytes_pat (enc x) @ bytes_pat (concat (map enc xs))) (x # xs)"
    unfolding list.size rtimes.simps add_Suc_right add_0_right by (intro parses_rbind) simp_all
  then show ?case by simp
qed (simp add: parses_rreturn)

abbreviation records_ok :: "keyed_record list \<Rightarrow> bool" where
  "records_ok rs \<equiv> list_all (\<lambda>r. val_small (sr_val (snd r))) rs"

abbreviation recs_bytes :: "keyed_record list \<Rightarrow> byte list" where
  "recs_bytes rs \<equiv> concat (map record_bytes rs)"

lemma parses_records: "records_ok rs \<Longrightarrow> parses (rtimes (length rs) get_record) (bytes_pat (recs_bytes rs)) rs"
  by (rule parses_rtimes) (auto simp: list_all_iff intro!: parses_get_record)

definition server_ok :: "server_data \<Rightarrow> bool" where
  "server_ok x \<longleftrightarrow> int_ok (sd_bytes x) \<and> int_ok (sd_recordcnt x) \<and> sd_recordcnt x = int (length (sd_records x)) \<and> records_ok (sd_records x)"

definition server_bytes :: "server_data \<Rightarrow> byte list" where
  "server_bytes x = int_bytes (sd_bytes x) @ le16 (sd_serveridx x) @ int_bytes (sd_recordcnt x) @ le64 (sd_specialcase_bwcost x) @
     recs_bytes (sd_records x)"

lemma parses_get_server:
  assumes "server_ok x"
  shows "parses get_server (bytes_pat (server_bytes x)) x"
proof -
  have ok: "int_ok (sd_bytes x)" "int_ok (sd_recordcnt x)" "nat (sd_recordcnt x) = length (sd_records x)" "records_ok (sd_records x)"
    using assms by (auto simp: server_ok_def)
  have "parses (rtimes (nat (sd_recordcnt x)) get_record) (bytes_pat (recs_bytes (sd_records x))) (sd_records x)"
    using ok parses_records [of "sd_records x"] by simp
  then have "parses get_server (bytes_pat (int_bytes (sd_bytes x)) @ bytes_pat (le16 (sd_serveridx x)) @ bytes_pat (int_bytes (sd_recordcnt x)) @
      bytes_pat (le64 (sd_specialcase_bwcost x)) @ bytes_pat (recs_bytes (sd_records x)))
      \<lparr>sd_bytes = sd_bytes x, sd_serveridx = sd_serveridx x, sd_recordcnt = sd_recordcnt x,
       sd_specialcase_bwcost = sd_specialcase_bwcost x, sd_records = sd_records x\<rparr>"
    unfolding get_server_def
    by - (rule parses_rbind [OF parses_get_int [OF ok(1)]], rule parses_rbind [OF parses_get16],
      rule parses_rbind [OF parses_get_int [OF ok(2)]], rule parses_rbind [OF parses_get64], erule parses_rbind_final, rule refl)
  then show ?thesis by (cases x) (simp add: server_bytes_def)
qed

lemma get_servers_eq:
  assumes "list_all server_ok xs" "holds_pat off (bytes_pat (concat (map server_bytes xs))) buf"
    "tb = int (off + length (concat (map server_bytes xs)))"
  shows "\<exists>s. get_servers tb (buf, off) = Inr (xs, s)"
  using assms
proof (induction xs arbitrary: off)
  case (Cons x xs)
  have h: "holds_pat off (bytes_pat (server_bytes x)) buf" "holds_pat (off + length (server_bytes x)) (bytes_pat (concat (map server_bytes xs))) buf"
    using Cons.prems(2) by (simp_all add: holds_pat_append)
  then have "get_server (buf, off) = Inr (x, buf, off + length (server_bytes x))"
    using parses_get_server [of x] Cons.prems(1) by (simp add: parses_def)
  moreover obtain s where "get_servers tb (buf, off + length (server_bytes x)) = Inr (xs, s)"
    using Cons.IH [OF _ h(2)] Cons.prems(1,3) by (auto simp: add.assoc)
  moreover have "int off < tb" using Cons.prems(3) by (simp add: server_bytes_def)
  ultimately show ?case by (subst get_servers.simps) simp
qed (simp add: get_servers.simps)

section \<open>What the writers store\<close>

lemma dstores_val:
  assumes "val_small v"
  shows "dstores_at off (dput_val v) (val_pat v)"
proof -
  have ok: "val_ok v" "unat (val_length v) < 65536" using assms by (auto simp: val_small_def)
  obtain q where q: "get_padding_size (val_length v) = Inr q" "unat q = padding v"
    using get_padding_size_nat [of "val_length v"] by (auto simp: padding_def)
  have "unat (2 + val_length v + q) = 2 + length (val_body v)"
    using ok q(2) padding_less [of v] by (simp add: unat_word_ariths length_val_body mod_simps)
  then have sz: "uint (2 + val_length v + q) = 2 + int (length (val_body v))" by (simp only: uint_nat)
  have len: "length (val_pat v) = 2 + length (val_body v)" by (simp add: val_pat_def)
  show ?thesis unfolding dstores_at_def
  proof (intro allI impI)
    fix d assume d: "da_ok d \<and> off \<le> length (da_bytes d) \<and> off + length (val_pat v) \<le> nat (da_maxcapability d)"
    have "\<exists>d'. val_dynamic_serialize v d (int off) = Inr d' \<and> da_ok d' \<and> da_bytes d' = patch off (val_pat v) (da_bytes d) \<and>
        nat (da_maxcapability d') = nat (da_maxcapability d)"
      using dynamic_val_patch [OF ok(1), of d off "le16 (htons (ucast (val_length v)))" 2] d len
      by (simp add: val_dynamic_serialize_def val_pat_def)
    then show "\<exists>d'. dput_val v (d, int off) = Inr (d', int (off + length (val_pat v))) \<and> da_ok d' \<and>
        da_bytes d' = patch off (val_pat v) (da_bytes d) \<and> nat (da_maxcapability d') = nat (da_maxcapability d)"
      using q(1) sz len by (auto simp: dput_val_def)
  qed
qed

lemma dstores_record:
  assumes "val_small (sr_val (snd kr))"
  shows "dstores_at off (dput_record kr) (record_bytes kr)"
proof -
  have "dstores_at off (dput_record kr) (concat [key_bytes (fst kr), val_pat (sr_val (snd kr)), le32 (sr_seq (snd kr)), bool_byte (sr_stat (snd kr))])"
    unfolding dput_record_def by (intro dstores_intros dstores_val assms)
  then show ?thesis by (simp add: record_bytes_def bool_byte_def)
qed

lemma dstores_records:
  "records_ok rs \<Longrightarrow> dstores_at off (dseq (map dput_record rs)) (recs_bytes rs)"
proof (induction rs arbitrary: off)
  case Nil
  show ?case using dstores_Nil [of off] by (simp del: dseq.simps)
next
  case (Cons r rs)
  then show ?case using dstores_Cons [OF dstores_record [of r off] Cons.IH] by (simp del: dseq.simps)
qed

text \<open>A writer that starts behind the end of the array: the gap is filled with zeros.\<close>

definition dstores_gap :: "nat \<Rightarrow> dwriter \<Rightarrow> byte list \<Rightarrow> bool" where
  "dstores_gap off w bs \<longleftrightarrow> (\<forall>d. da_ok d \<and> off + length bs \<le> nat (da_maxcapability d) \<longrightarrow>
     (\<exists>d'. w (d, int off) = Inr (d', int (off + length bs)) \<and> da_ok d' \<and>
       da_bytes d' = patch off bs (da_bytes d) \<and> nat (da_maxcapability d') = nat (da_maxcapability d)))"

lemma dstores_gap_put: "dstores_gap off (dput bs) bs"
  using da.store_fits [of _ off bs] by (fastforce simp: dstores_gap_def dput_def)

lemma dstores_gap_Cons:
  assumes "dstores_gap off w bs" "dstores_at (off + length bs) (dseq ws) (concat bss)"
  shows "dstores_gap off (dseq (w # ws)) (concat (bs # bss))"
  unfolding dstores_gap_def
proof (intro allI impI)
  fix d assume d: "da_ok d \<and> off + length (concat (bs # bss)) \<le> nat (da_maxcapability d)"
  obtain d1 where d1: "w (d, int off) = Inr (d1, int (off + length bs))" "da_ok d1"
    "da_bytes d1 = patch off bs (da_bytes d)" "nat (da_maxcapability d1) = nat (da_maxcapability d)"
    using assms(1) d unfolding dstores_gap_def by (auto dest!: spec [of _ d])
  obtain d2 where "dseq ws (d1, int (off + length bs)) = Inr (d2, int (off + length bs + length (concat bss)))" "da_ok d2"
    "da_bytes d2 = patch (off + length bs) (concat bss) (da_bytes d1)" "nat (da_maxcapability d2) = nat (da_maxcapability d)"
    using assms(2) d d1 unfolding dstores_at_def by (auto simp: length_patch dest!: spec [of _ d1])
  then show "\<exists>d'. dseq (w # ws) (d, int off) = Inr (d', int (off + length (concat (bs # bss)))) \<and> da_ok d' \<and>
     da_bytes d' = patch off (concat (bs # bss)) (da_bytes d) \<and> nat (da_maxcapability d') = nat (da_maxcapability d)"
    using d d1 patch_patch [of off bs "concat bss" "da_bytes d"] by (simp add: add.assoc)
qed

lemma dstores_gap_at: "dstores_gap off w bs \<Longrightarrow> dstores_at off w bs"
  by (simp add: dstores_gap_def dstores_at_def)

lemma patch_gap: "xs = [] \<Longrightarrow> patch n bs xs = replicate n 0 @ bs"
  by (simp add: patch_def)

lemma patch_inside: "off = length xs \<Longrightarrow> length ys = length bs \<Longrightarrow> patch off bs (xs @ ys @ zs) = xs @ bs @ zs"
  by (simp add: patch_def)

lemma da_first_all: "da_ok d \<Longrightarrow> n = int (length (da_bytes d)) \<Longrightarrow> da_first d n = Inr (da_bytes d)"
  by (auto simp: da_ok_def da_bytes_def da_first_def min_def)

section \<open>The records of each server\<close>

definition records_of :: "nat \<Rightarrow> (u16 \<times> keyed_record) list \<Rightarrow> keyed_record list" where
  "records_of i L = map snd (filter (\<lambda>r. unat (fst r) = i) L)"

definition collected :: "nat \<Rightarrow> (nat \<Rightarrow> keyed_record list) \<Rightarrow> collect_state \<Rightarrow> bool" where
  "collected n R st \<longleftrightarrow> length (fst st) = n \<and> length (snd st) = n \<and>
     (\<forall>i < n. da_ok (fst (fst st ! i)) \<and> da_bytes (fst (fst st ! i)) = recs_bytes (R i) \<and>
       snd (fst st ! i) = int (length (recs_bytes (R i))) \<and> nat (da_maxcapability (fst (fst st ! i))) = MAX_LARGE_BUFSIZE \<and>
       snd st ! i = int (length (R i)))"

lemma add_record_ok:
  assumes st: "collected n R st" and i: "unat j < n" "val_small (sr_val (snd kr))"
    and fits: "length (recs_bytes (R (unat j) @ [kr])) \<le> MAX_LARGE_BUFSIZE"
  shows "\<exists>st'. add_record (j, kr) st = Inr st' \<and> collected n (R(unat j := R (unat j) @ [kr])) st'"
proof -
  obtain bufs cnts where s: "st = (bufs, cnts)" by force
  obtain d off where b: "bufs ! unat j = (d, off)" by force
  have d: "da_ok d" "da_bytes d = recs_bytes (R (unat j))" "off = int (length (recs_bytes (R (unat j))))"
      "nat (da_maxcapability d) = MAX_LARGE_BUFSIZE"
    and len: "length bufs = n" "length cnts = n"
    using st i b unfolding collected_def s by auto
  have "\<exists>d'. dput_record kr (d, off) = Inr (d', off + int (length (record_bytes kr))) \<and> da_ok d' \<and>
      da_bytes d' = recs_bytes (R (unat j)) @ record_bytes kr \<and> nat (da_maxcapability d') = MAX_LARGE_BUFSIZE"
    using dstores_record [OF i(2), of "length (recs_bytes (R (unat j)))"] d fits
    by (auto simp: dstores_at_def patch_append dest!: spec [of _ d])
  then obtain d' where d': "dput_record kr (d, off) = Inr (d', off + int (length (record_bytes kr)))" "da_ok d'"
      "da_bytes d' = recs_bytes (R (unat j)) @ record_bytes kr" "nat (da_maxcapability d') = MAX_LARGE_BUFSIZE"
    by blast
  let ?st = "(bufs[unat j := (d', off + int (length (record_bytes kr)))], cnts[unat j := cnts ! unat j + 1])"
  have "add_record (j, kr) st = Inr ?st"
    using i len d'(1) by (simp add: add_record_def s b Let_def)
  moreover have "collected n (R(unat j := R (unat j) @ [kr])) ?st"
    using st d' d(3) len i(1) unfolding collected_def s by (auto simp: nth_list_update)
  ultimately show ?thesis by blast
qed

lemma add_records_ok:
  assumes "collected n R st" "list_all (\<lambda>r. unat (fst r) < n \<and> val_small (sr_val (snd (snd r)))) L"
    "\<forall>i < n. length (recs_bytes (R i @ records_of i L)) \<le> MAX_LARGE_BUFSIZE"
  shows "\<exists>st'. add_records L st = Inr st' \<and> collected n (\<lambda>i. R i @ records_of i L) st'"
  using assms
proof (induction L arbitrary: R st)
  case Nil
  then show ?case by (simp add: records_of_def)
next
  case (Cons r L)
  obtain j kr where r: "r = (j, kr)" by (cases r)
  let ?R = "R(unat j := R (unat j) @ [kr])"
  have R: "R i @ records_of i (r # L) = ?R i @ records_of i L" for i by (simp add: records_of_def r)
  have j: "unat j < n" "val_small (sr_val (snd kr))" using Cons.prems(2) by (simp_all add: r)
  have "length (recs_bytes (R (unat j) @ [kr])) \<le> MAX_LARGE_BUFSIZE"
    using Cons.prems(3) j(1) unfolding R by (auto dest!: spec [of _ "unat j"])
  then obtain st1 where st1: "add_record (j, kr) st = Inr st1" "collected n ?R st1"
    using add_record_ok [OF Cons.prems(1) j] by blast
  have "\<exists>st'. add_records L st1 = Inr st' \<and> collected n (\<lambda>i. ?R i @ records_of i L) st'"
    by (rule Cons.IH [OF st1(2)]) (use Cons.prems(2,3) R in simp_all)
  then show ?case unfolding R unfolding r using st1(1) by (simp del: fun_upd_apply)
qed

lemma collected_init:
  assumes "da_ok d" "da_bytes d = []" "nat (da_maxcapability d) = MAX_LARGE_BUFSIZE"
  shows "collected n (\<lambda>_. []) (replicate n (d, 0), replicate n 0)"
  using assms by (simp add: collected_def)

text \<open>The entry of one server in the collected data.\<close>

definition server_entry :: "nat \<Rightarrow> keyed_record list \<Rightarrow> u64 \<Rightarrow> server_data" where
  "server_entry i rs bwcost = \<lparr>sd_bytes = int (length (recs_bytes rs)) + 18, sd_serveridx = of_nat i,
     sd_recordcnt = int (length rs), sd_specialcase_bwcost = bwcost, sd_records = rs\<rparr>"

lemma length_server_bytes: "length (server_bytes x) = 18 + length (recs_bytes (sd_records x))"
  by (simp add: server_bytes_def)

lemma length_records: "length rs \<le> length (recs_bytes rs)"
  by (induction rs) (simp_all add: record_bytes_def)

lemma server_ok_entry:
  "records_ok rs \<Longrightarrow> length (recs_bytes rs) \<le> MAX_LARGE_BUFSIZE \<Longrightarrow> server_ok (server_entry i rs bw)"
  using length_records [of rs] by (auto simp: server_ok_def server_entry_def int_ok_def MAX_LARGE_BUFSIZE_def)

lemma dstores_gap_server:
  assumes "da_ok (fst b)" "da_bytes (fst b) = recs_bytes rs" "snd b = int (length (recs_bytes rs))" "cnt = int (length rs)"
  shows "dstores_gap off (dput_server i b cnt bw) (server_bytes (server_entry i rs bw))"
proof -
  have "da_first (fst b) (snd b) = Inr (recs_bytes rs)" using da_first_all [OF assms(1)] assms(2,3) by simp
  then have eq: "dput_server i b cnt bw = dseq [dput (int_bytes (int (length (recs_bytes rs)) + 18)), dput (le16 (of_nat i)), dput (int_bytes cnt),
       dput (le64 bw), dput (recs_bytes rs)]"
    using assms(3) by (auto simp: dput_server_def fun_eq_iff add.assoc simp del: dseq.simps)
  have "dstores_gap off (dseq [dput (int_bytes (int (length (recs_bytes rs)) + 18)), dput (le16 (of_nat i)), dput (int_bytes cnt),
       dput (le64 bw), dput (recs_bytes rs)])
     (concat [int_bytes (int (length (recs_bytes rs)) + 18), le16 (of_nat i), int_bytes cnt, le64 bw, recs_bytes rs])"
    by (intro dstores_gap_Cons dstores_gap_put dstores_intros)
  then show ?thesis unfolding eq by (simp add: server_bytes_def server_entry_def assms(4) del: dseq.simps)
qed

lemma dstores_servers:
  assumes "list_all2 (\<lambda>w x. \<forall>off. dstores_gap off w (enc x)) ws xs"
  shows "dstores_at off (dseq ws) (concat (map enc xs))"
  using assms
proof (induction arbitrary: off rule: list_all2_induct)
  case Nil
  show ?case using dstores_Nil by (simp del: dseq.simps)
next
  case (Cons w ws x xs)
  have "dstores_at off w (enc x)" using Cons.hyps(1) by (simp add: dstores_gap_at)
  from dstores_Cons [OF this Cons.IH] show ?case by (simp del: dseq.simps)
qed

lemma dstores_gap_servers:
  assumes "list_all2 (\<lambda>w x. \<forall>off. dstores_gap off w (enc x)) ws xs" "ws \<noteq> []"
  shows "dstores_gap off (dseq ws) (concat (map enc xs))"
proof -
  obtain w ws' x xs' where c: "ws = w # ws'" "xs = x # xs'" "dstores_gap off w (enc x)"
      "list_all2 (\<lambda>w x. \<forall>off. dstores_gap off w (enc x)) ws' xs'"
    using assms by (cases ws; cases xs) auto
  from dstores_gap_Cons [OF c(3) dstores_servers [OF c(4)]] show ?thesis unfolding c(1,2) by (simp del: dseq.simps)
qed

definition servers_of :: "nat \<Rightarrow> (u16 \<times> keyed_record) list \<Rightarrow> u64 list \<Rightarrow> server_data list" where
  "servers_of n L bwcosts = map (\<lambda>i. server_entry i (records_of i L) (bwcosts ! i)) [0..<n]"

lemma length_enc_le: "x \<in> set xs \<Longrightarrow> length (enc x) \<le> length (concat (map enc xs))"
  by (induction xs) auto

text \<open>Both length fields of the messages are written last, into space the writers left.\<close>

lemma patch_headers:
  assumes "length a = 4" "length b = 4"
  shows "patch 4 b (patch 0 a (replicate 8 0 @ body)) = a @ b @ body"
proof -
  have "patch 0 a (replicate 8 0 @ body) = a @ replicate 4 0 @ body"
    using patch_inside [of 0 "[]" "replicate 4 0" a "replicate 4 0 @ body"] assms(1) by (simp add: replicate_add [of 4 4, simplified])
  then show ?thesis using patch_inside [of 4 a "replicate 4 0" b body] assms by simp
qed

lemma dynamic_memcpy_store:
  assumes "da_ok d" "0 \<le> off" "nat off + length bs \<le> nat (da_maxcapability d)"
  obtains d' where "dynamic_memcpy d off bs = Inr d'" "da_ok d'" "da_bytes d' = patch (nat off) bs (da_bytes d)"
    "nat (da_maxcapability d') = nat (da_maxcapability d)"
  using da.store_fits [of d "nat off" bs] assms by auto

lemma collect_servers:
  assumes "list_all (\<lambda>r. unat (fst r) < n \<and> val_small (sr_val (snd (snd r)))) L" "n \<le> length bwcosts" "0 < n"
    "8 + length (concat (map server_bytes (servers_of n L bwcosts))) \<le> MAX_LARGE_BUFSIZE"
    "da_ok d0" "da_bytes d0 = []" "nat (da_maxcapability d0) = MAX_LARGE_BUFSIZE"
  shows "\<exists>bufs cnts. add_records L (replicate n (d0, 0), replicate n 0) = Inr (bufs, cnts) \<and>
    dstores_gap 8 (dseq (map (\<lambda>i. dput_server i (bufs ! i) (cnts ! i) (bwcosts ! i)) [0..<n])) (concat (map server_bytes (servers_of n L bwcosts)))"
proof -
  have small: "length (recs_bytes (records_of i L)) \<le> MAX_LARGE_BUFSIZE" if "i < n" for i
  proof -
    have "server_entry i (records_of i L) (bwcosts ! i) \<in> set (servers_of n L bwcosts)" using that by (simp add: servers_of_def)
    from length_enc_le [OF this, of server_bytes] show ?thesis using assms(4) by (simp add: length_server_bytes server_entry_def)
  qed
  then obtain bufs cnts where st: "add_records L (replicate n (d0, 0), replicate n 0) = Inr (bufs, cnts)" "collected n (\<lambda>i. records_of i L) (bufs, cnts)"
    using add_records_ok [OF collected_init [OF assms(5-7)] assms(1)] by auto
  have "list_all2 (\<lambda>w x. \<forall>off. dstores_gap off w (server_bytes x)) (map (\<lambda>i. dput_server i (bufs ! i) (cnts ! i) (bwcosts ! i)) [0..<n])
      (servers_of n L bwcosts)"
    using st(2) unfolding servers_of_def list_all2_map1 list_all2_map2 collected_def
    by (auto simp: list_all2_conv_all_nth intro!: dstores_gap_server)
  from dstores_gap_servers [OF this] st(1) assms(3) show ?thesis by auto
qed

lemma servers_of_ok:
  assumes "list_all (\<lambda>r. unat (fst r) < n \<and> val_small (sr_val (snd (snd r)))) L"
    "8 + length (concat (map server_bytes (servers_of n L bwcosts))) \<le> MAX_LARGE_BUFSIZE"
  shows "list_all server_ok (servers_of n L bwcosts)"
proof -
  have "server_ok x" if x: "x \<in> set (servers_of n L bwcosts)" for x
  proof -
    obtain i where i: "x = server_entry i (records_of i L) (bwcosts ! i)" using x by (auto simp: servers_of_def)
    have "records_ok (records_of i L)" using assms(1) by (auto simp: records_of_def list_all_iff)
    moreover have "length (recs_bytes (records_of i L)) \<le> MAX_LARGE_BUFSIZE"
      using length_enc_le [OF x, of server_bytes] assms(2) by (simp add: length_server_bytes i server_entry_def)
    ultimately show ?thesis unfolding i by (rule server_ok_entry)
  qed
  then show ?thesis by (simp add: list_all_iff)
qed

lemma deserialize_getdata_eq:
  assumes "list_all server_ok xs" "int_ok control_type" "8 + length (concat (map server_bytes xs)) \<le> MAX_LARGE_BUFSIZE"
    "msg = int_bytes control_type @ int_bytes (int (8 + length (concat (map server_bytes xs)))) @ concat (map server_bytes xs)"
  shows "deserialize_snapshot_getdata_ack c msg = (if c = control_type then Inr (int (length msg), xs) else Inl Abort)"
proof -
  let ?tb = "int (8 + length (concat (map server_bytes xs)))"
  have tb: "int_ok ?tb" using assms(3) by (simp add: int_ok_def MAX_LARGE_BUFSIZE_def)
  have h: "holds_pat 0 (bytes_pat (int_bytes control_type)) msg" "holds_pat 4 (bytes_pat (int_bytes ?tb)) msg"
      "holds_pat 8 (bytes_pat (concat (map server_bytes xs))) msg"
    by (simp_all add: assms(4) holds_pat_bytes)
  have "get_int (msg, 0) = Inr (control_type, msg, 4)" "get_int (msg, 4) = Inr (?tb, msg, 8)"
    using h(1,2) parses_get_int [OF assms(2)] parses_get_int [OF tb] by (simp_all add: parses_def)
  moreover note get_servers_eq [OF assms(1) h(3) refl]
  moreover have "int (length msg) = ?tb" by (simp add: assms(4))
  ultimately show ?thesis by (auto simp: deserialize_snapshot_getdata_ack_def invariant_def)
qed

text \<open>C9: the records of the switch. Whatever the pipelines hold, the message the switch operating system builds from them is
  parsed by the controller into one entry per server, in the order of the servers, with its bandwidth cost and exactly the
  records of the keys of this server, in the order of the pipelines, values, sequence numbers and status bits unchanged; the
  total size it carries is its size. A message with another control type is refused.\<close>

theorem getdata_roundtrip:
  assumes "da_ok d" "da_bytes d = []" "nat (da_maxcapability d) = MAX_LARGE_BUFSIZE" "int_ok control_type"
    "0 < max_logicalservernum" "unat max_logicalservernum \<le> length bwcosts"
    "list_all (\<lambda>r. unat (fst r) < unat max_logicalservernum \<and> val_small (sr_val (snd (snd r)))) (concat pipelines)"
    "8 + length (concat (map server_bytes (servers_of (unat max_logicalservernum) (concat pipelines) bwcosts))) \<le> MAX_LARGE_BUFSIZE"
  shows "\<exists>d'. dynamic_serialize_snapshot_getdata_ack d control_type max_logicalservernum pipelines bwcosts = Inr (d', int (length (da_bytes d'))) \<and>
    (\<forall>c. deserialize_snapshot_getdata_ack c (da_bytes d') =
      (if c = control_type then Inr (int (length (da_bytes d')), servers_of (unat max_logicalservernum) (concat pipelines) bwcosts) else Inl Abort))"
proof -
  let ?n = "unat max_logicalservernum" and ?L = "concat pipelines"
  let ?body = "concat (map server_bytes (servers_of ?n ?L bwcosts))"
  let ?tb = "int (8 + length ?body)"
  have n: "0 < ?n" using assms(5) by (simp add: word_less_nat_alt)
  obtain d0 where new: "da_new (int MAX_BUFSIZE) (int MAX_LARGE_BUFSIZE) = Inr d0" "da_ok d0" "da_maxcapability d0 = int MAX_LARGE_BUFSIZE"
    using da_ok_init [of "int MAX_BUFSIZE" "int MAX_LARGE_BUFSIZE"] by (auto simp: MAX_BUFSIZE_def MAX_LARGE_BUFSIZE_def)
  obtain d1 where d1: "da_clear d0 = Inr d1" "da_ok d1" "da_bytes d1 = []" "nat (da_maxcapability d1) = MAX_LARGE_BUFSIZE"
    using da_clear_ok [OF new(2)] new(3) by auto
  obtain bufs cnts where st: "add_records ?L (replicate ?n (d1, 0), replicate ?n 0) = Inr (bufs, cnts)"
      "dstores_gap 8 (dseq (map (\<lambda>i. dput_server i (bufs ! i) (cnts ! i) (bwcosts ! i)) [0..<?n])) ?body"
    using collect_servers [OF assms(7,6) n assms(8) d1(2-4)] by blast
  obtain d2 where d2: "dseq (map (\<lambda>i. dput_server i (bufs ! i) (cnts ! i) (bwcosts ! i)) [0..<?n]) (d, 8) = Inr (d2, ?tb)"
      "da_ok d2" "da_bytes d2 = replicate 8 0 @ ?body" "nat (da_maxcapability d2) = MAX_LARGE_BUFSIZE"
    using st(2) assms(1-3,8) unfolding dstores_gap_def by (auto simp: patch_gap dest!: spec [of _ d])
  obtain d3 where d3: "dynamic_memcpy d2 0 (int_bytes control_type) = Inr d3" "da_ok d3"
      "da_bytes d3 = patch 0 (int_bytes control_type) (da_bytes d2)" "nat (da_maxcapability d3) = MAX_LARGE_BUFSIZE"
    using dynamic_memcpy_store [of d2 0 "int_bytes control_type"] d2 assms(8) by auto
  obtain d4 where d4: "dynamic_memcpy d3 4 (int_bytes ?tb) = Inr d4" "da_bytes d4 = patch 4 (int_bytes ?tb) (da_bytes d3)"
    using dynamic_memcpy_store [of d3 4 "int_bytes ?tb"] d3 assms(8) by auto
  have msg: "da_bytes d4 = int_bytes control_type @ int_bytes ?tb @ ?body"
    unfolding d4(2) d3(3) d2(3) by (rule patch_headers) simp_all
  then have len: "int (length (da_bytes d4)) = ?tb" by simp
  have "dynamic_serialize_snapshot_getdata_ack d control_type max_logicalservernum pipelines bwcosts = Inr (d4, int (length (da_bytes d4)))"
    unfolding len using new(1) d1(1) st(1) d2(1) d3(1) d4(1) assms(6,8)
    by (simp add: dynamic_serialize_snapshot_getdata_ack_def Let_def del: dseq.simps)
  then show ?thesis
    using deserialize_getdata_eq [OF servers_of_ok [OF assms(7,8)] assms(4,8) msg] by blast
qed

definition demo_record :: "u32 \<Rightarrow> bool \<Rightarrow> keyed_record" where
  "demo_record seq stat = (Key 1 2 3 4, \<lparr>sr_val = \<lparr>val_length = 3, val_data = Some [1, 2, 3]\<rparr>, sr_seq = seq, sr_stat = stat\<rparr>)"

definition demo_pipelines :: "(u16 \<times> keyed_record) list list" where
  "demo_pipelines = [[(1, demo_record 7 True), (0, demo_record 8 False)], [(1, demo_record 9 False)]]"

lemma demo_record_ok: "val_small (sr_val (snd (demo_record seq stat)))" "length (record_bytes (demo_record seq stat)) = 31"
  by (simp_all add: demo_record_def val_small_def val_ok_def record_bytes_def val_pat_def length_val_body padding_def)

lemma demo_array: "\<exists>d. da_new (int MAX_BUFSIZE) (int MAX_LARGE_BUFSIZE) = Inr d \<and> da_ok d \<and> da_bytes d = [] \<and> nat (da_maxcapability d) = MAX_LARGE_BUFSIZE"
  using da_ok_init [of "int MAX_BUFSIZE" "int MAX_LARGE_BUFSIZE"] by (auto simp: MAX_BUFSIZE_def MAX_LARGE_BUFSIZE_def)

theorem getdata_roundtrip_witness:
  "\<exists>d d'. da_new (int MAX_BUFSIZE) (int MAX_LARGE_BUFSIZE) = Inr d \<and>
     dynamic_serialize_snapshot_getdata_ack d 10 2 demo_pipelines [5, 6] = Inr (d', int (length (da_bytes d'))) \<and>
     deserialize_snapshot_getdata_ack 10 (da_bytes d') = Inr (int (length (da_bytes d')),
       [server_entry 0 [demo_record 8 False] 5, server_entry 1 [demo_record 7 True, demo_record 9 False] 6]) \<and>
     deserialize_snapshot_getdata_ack 12 (da_bytes d') = Inl Abort"
proof -
  have eq: "servers_of 2 (concat demo_pipelines) [5, 6] =
      [server_entry 0 [demo_record 8 False] 5, server_entry 1 [demo_record 7 True, demo_record 9 False] 6]"
    by (simp add: servers_of_def records_of_def demo_pipelines_def upt_conv_Cons)
  obtain d where d: "da_new (int MAX_BUFSIZE) (int MAX_LARGE_BUFSIZE) = Inr d" "da_ok d" "da_bytes d = []" "nat (da_maxcapability d) = MAX_LARGE_BUFSIZE"
    using demo_array by blast
  have "list_all (\<lambda>r. unat (fst r) < unat (2 :: u16) \<and> val_small (sr_val (snd (snd r)))) (concat demo_pipelines)"
    by (simp add: demo_pipelines_def demo_record_ok)
  moreover have "8 + length (concat (map server_bytes (servers_of (unat (2 :: u16)) (concat demo_pipelines) [5, 6]))) \<le> MAX_LARGE_BUFSIZE"
    by (simp add: eq length_server_bytes server_entry_def demo_record_ok MAX_LARGE_BUFSIZE_def)
  ultimately show ?thesis
    using getdata_roundtrip [OF d(2-4), of 10 2 "[5, 6]" demo_pipelines] d(1) by (auto simp: eq int_ok_def)
qed

section \<open>What a server receives\<close>

lemma sent_records_ok [simp]: "records_ok (map sent_record rs) \<longleftrightarrow> records_ok rs"
  by (simp add: list_all_iff sent_record_def)

lemma length_sent_records [simp]: "length (recs_bytes (map sent_record rs)) = length (recs_bytes rs)"
  by (induction rs) (simp_all add: record_bytes_def sent_record_def)

definition delivered :: "int \<Rightarrow> u16 \<Rightarrow> keyed_record list \<Rightarrow> senddata" where
  "delivered snapshotid serveridx rs = \<lparr>sn_snapshotid = snapshotid, sn_bytes = int (18 + length (recs_bytes rs)), sn_serveridx = serveridx,
     sn_recordcnt = int (length rs), sn_records = map sent_record rs\<rparr>"

definition senddata_bytes :: "int \<Rightarrow> int \<Rightarrow> u16 \<Rightarrow> keyed_record list \<Rightarrow> byte list" where
  "senddata_bytes control_type snapshotid serveridx rs = int_bytes control_type @ int_bytes snapshotid @ int_bytes (int (18 + length (recs_bytes rs))) @
     le16 serveridx @ int_bytes (int (length rs)) @ recs_bytes (map sent_record rs)"

lemma senddata_stores:
  assumes d: "da_ok d" "da_bytes d = []" "nat (da_maxcapability d) = MAX_LARGE_BUFSIZE"
    and rs: "records_ok rs" "18 + length (recs_bytes rs) \<le> MAX_LARGE_BUFSIZE"
  shows "\<exists>d'. dynamic_serialize_snapshot_senddata d control_type snapshotid serveridx (int (length rs)) rs =
      Inr (d', int (18 + length (recs_bytes rs))) \<and> da_bytes d' = senddata_bytes control_type snapshotid serveridx rs"
proof -
  let ?h = "int_bytes control_type @ int_bytes snapshotid" and ?t = "le16 serveridx @ int_bytes (int (length rs))"
  let ?b = "recs_bytes (map sent_record rs)" and ?off = "int (18 + length (recs_bytes rs))"
  have "dstores_at 0 (dseq [dput (int_bytes control_type), dput (int_bytes snapshotid)]) (concat [int_bytes control_type, int_bytes snapshotid])"
    by (intro dstores_intros)
  then obtain d1 where d1: "dseq [dput (int_bytes control_type), dput (int_bytes snapshotid)] (d, 0) = Inr (d1, 8)" "da_ok d1"
      "da_bytes d1 = ?h" "nat (da_maxcapability d1) = MAX_LARGE_BUFSIZE"
    using d rs(2) unfolding dstores_at_def by (auto simp: patch_append dest!: spec [of _ d])
  have "dstores_gap 12 (dseq [dput (le16 serveridx), dput (int_bytes (int (length rs)))]) (concat [le16 serveridx, int_bytes (int (length rs))])"
    by (intro dstores_gap_Cons dstores_gap_put dstores_intros)
  then obtain d2 where d2: "dseq [dput (le16 serveridx), dput (int_bytes (int (length rs)))] (d1, 12) = Inr (d2, 18)" "da_ok d2"
      "da_bytes d2 = patch 12 ?t ?h" "nat (da_maxcapability d2) = MAX_LARGE_BUFSIZE"
    using d1 rs(2) unfolding dstores_gap_def by (auto dest!: spec [of _ d1])
  then have b2: "da_bytes d2 = ?h @ replicate 4 0 @ ?t" by (simp add: patch_def)
  define rs' where "rs' = map sent_record rs"
  have rs': "records_ok rs'" "length (recs_bytes rs') = length (recs_bytes rs)" using rs(1) unfolding rs'_def by (simp_all only: sent_records_ok length_sent_records)
  have fits: "da_ok d2 \<and> 18 \<le> length (da_bytes d2) \<and> 18 + length (recs_bytes rs') \<le> nat (da_maxcapability d2)"
    using d2(2,4) b2 rs(2) rs'(2) by simp
  have "\<exists>d3. dseq (map dput_record rs') (d2, int 18) = Inr (d3, int (18 + length (recs_bytes rs'))) \<and> da_ok d3 \<and>
      da_bytes d3 = patch 18 (recs_bytes rs') (da_bytes d2) \<and> nat (da_maxcapability d3) = nat (da_maxcapability d2)"
    using dstores_records [OF rs'(1), of 18] fits unfolding dstores_at_def by blast
  then obtain d3 where d3: "dseq (map dput_record rs') (d2, 18) = Inr (d3, ?off)" "da_ok d3"
      "da_bytes d3 = ?h @ replicate 4 0 @ ?t @ ?b" "nat (da_maxcapability d3) = MAX_LARGE_BUFSIZE"
    using d2(4) rs'(2) unfolding b2 rs'_def [symmetric] by (auto simp: patch_append)
  obtain d4 where d4: "dynamic_memcpy d3 8 (int_bytes ?off) = Inr d4" "da_bytes d4 = patch 8 (int_bytes ?off) (da_bytes d3)"
    using dynamic_memcpy_store [of d3 8 "int_bytes ?off"] d3 rs(2) by auto
  have "da_bytes d4 = senddata_bytes control_type snapshotid serveridx rs"
    unfolding d4(2) d3(3) senddata_bytes_def using patch_inside [of 8 ?h "replicate 4 0" "int_bytes ?off" "?t @ ?b"] by simp
  moreover have "dseq [dput (int_bytes control_type), dput (int_bytes snapshotid), dskip (Inr 4), dput (le16 serveridx), dput (int_bytes (int (length rs)))]
      (d, 0) = Inr (d2, 18)"
    using d1(1) d2(1) by (auto simp: dskip_def bind_res_eq_Inr)
  ultimately show ?thesis using d3(1) d4(1) by (simp add: dynamic_serialize_snapshot_senddata_def rs'_def comp_def del: dseq.simps)
qed

lemma senddata_parses:
  assumes "records_ok rs" "18 + length (recs_bytes rs) \<le> MAX_LARGE_BUFSIZE" "int_ok control_type" "int_ok snapshotid"
  shows "deserialize_snapshot_senddata c (senddata_bytes control_type snapshotid serveridx rs) =
    (if c = control_type then Inr (delivered snapshotid serveridx rs) else Inl Abort)"
proof -
  let ?msg = "senddata_bytes control_type snapshotid serveridx rs" and ?rs = "map sent_record rs"
  have ok: "int_ok (int (18 + length (recs_bytes rs)))" "int_ok (int (length rs))"
    using assms(2) length_records [of rs] by (auto simp: int_ok_def MAX_LARGE_BUFSIZE_def)
  have rs: "parses (rtimes (nat (int (length rs))) get_record) (bytes_pat (recs_bytes ?rs)) ?rs"
    using parses_records [of ?rs] assms(1) by (simp only: sent_records_ok length_map nat_int)
  have "parses (rbind get_int (\<lambda>tmp_control_type. rthen (require (tmp_control_type = control_type))
       (rbind get_int (\<lambda>i. rbind get_int (\<lambda>b. rbind get16 (\<lambda>x. rbind get_int (\<lambda>c. rbind (rtimes (nat c) get_record) (\<lambda>rs.
         rreturn \<lparr>sn_snapshotid = i, sn_bytes = b, sn_serveridx = x, sn_recordcnt = c, sn_records = rs\<rparr>))))))))
     (bytes_pat (int_bytes control_type) @ bytes_pat (int_bytes snapshotid) @ bytes_pat (int_bytes (int (18 + length (recs_bytes rs)))) @
      bytes_pat (le16 serveridx) @ bytes_pat (int_bytes (int (length rs))) @ bytes_pat (recs_bytes ?rs)) (delivered snapshotid serveridx rs)"
    unfolding delivered_def
    by (rule parses_rbind [OF parses_get_int [OF assms(3)]], rule parses_rthen_require [OF refl], rule parses_rbind [OF parses_get_int [OF assms(4)]],
      rule parses_rbind [OF parses_get_int [OF ok(1)]], rule parses_rbind [OF parses_get16], rule parses_rbind [OF parses_get_int [OF ok(2)]],
      rule parses_rbind_final [OF rs], rule refl)
  then have "deserialize_snapshot_senddata control_type ?msg = Inr (delivered snapshotid serveridx rs)"
    unfolding map_append [symmetric] senddata_bytes_def [symmetric]
    by (simp add: parses_def deserialize_snapshot_senddata_def holds_pat_bytes)
  moreover have "get_int (?msg, 0) = Inr (control_type, ?msg, 4)"
    using parses_get_int [OF assms(3)] by (simp add: parses_def senddata_bytes_def holds_pat_bytes)
  then have "c \<noteq> control_type \<Longrightarrow> deserialize_snapshot_senddata c ?msg = Inl Abort"
    by (auto simp: deserialize_snapshot_senddata_def rbind_def rthen_def require_def)
  ultimately show ?thesis by simp
qed

lemma prepare_server_ok:
  assumes "server_ok x" "18 + length (recs_bytes (sd_records x)) \<le> MAX_LARGE_BUFSIZE" "sd_serveridx x \<in> set valid_idxes"
    "da_ok (bufs (sd_serveridx x))" "da_bytes (bufs (sd_serveridx x)) = []" "nat (da_maxcapability (bufs (sd_serveridx x))) = MAX_LARGE_BUFSIZE"
  shows "\<exists>d. prepare_server_snapshot control_type snapshotid valid_idxes bufs x = Inr (bufs(sd_serveridx x := d)) \<and>
    da_bytes d = senddata_bytes control_type snapshotid (sd_serveridx x) (sd_records x)"
  using senddata_stores [OF assms(4-6) _ assms(2), of control_type snapshotid "sd_serveridx x"] assms(1,3)
  by (auto simp: prepare_server_snapshot_def server_ok_def)

text \<open>What the controller needs to prepare the message of a server: its data fits and its buffer is empty.\<close>

definition preparable :: "(u16 \<Rightarrow> dyn_array) \<Rightarrow> server_data \<Rightarrow> bool" where
  "preparable bufs x \<longleftrightarrow> server_ok x \<and> 18 + length (recs_bytes (sd_records x)) \<le> MAX_LARGE_BUFSIZE \<and>
     da_ok (bufs (sd_serveridx x)) \<and> da_bytes (bufs (sd_serveridx x)) = [] \<and> nat (da_maxcapability (bufs (sd_serveridx x))) = MAX_LARGE_BUFSIZE"

lemma prepare_servers_ok:
  assumes "\<forall>x \<in> set xs. sd_serveridx x \<in> set valid_idxes \<longrightarrow> preparable bufs x" "distinct (map sd_serveridx xs)"
  shows "\<exists>bufs'. prepare_server_snapshots control_type snapshotid valid_idxes bufs xs = Inr bufs' \<and>
    (\<forall>i. i \<notin> sd_serveridx ` set xs \<or> i \<notin> set valid_idxes \<longrightarrow> bufs' i = bufs i) \<and>
    (\<forall>x \<in> set xs. sd_serveridx x \<in> set valid_idxes \<longrightarrow>
      da_bytes (bufs' (sd_serveridx x)) = senddata_bytes control_type snapshotid (sd_serveridx x) (sd_records x))"
  using assms
proof (induction xs arbitrary: bufs)
  case (Cons x xs)
  let ?i = "sd_serveridx x"
  have fresh: "?i \<notin> sd_serveridx ` set xs" using Cons.prems(2) by simp
  obtain bufs1 where b1: "prepare_server_snapshot control_type snapshotid valid_idxes bufs x = Inr bufs1" "\<And>i. i \<noteq> ?i \<or> i \<notin> set valid_idxes \<Longrightarrow> bufs1 i = bufs i"
      "?i \<in> set valid_idxes \<Longrightarrow> da_bytes (bufs1 ?i) = senddata_bytes control_type snapshotid ?i (sd_records x)"
  proof (cases "?i \<in> set valid_idxes")
    case True
    then have "preparable bufs x" using Cons.prems(1) by simp
    then obtain d where "prepare_server_snapshot control_type snapshotid valid_idxes bufs x = Inr (bufs(?i := d))"
        "da_bytes d = senddata_bytes control_type snapshotid ?i (sd_records x)"
      using prepare_server_ok [of x valid_idxes bufs control_type snapshotid] True by (auto simp: preparable_def)
    then show thesis using that [of "bufs(?i := d)"] True by auto
  next
    case False
    then show thesis using that [of bufs] by (simp add: prepare_server_snapshot_def)
  qed
  have "bufs1 (sd_serveridx y) = bufs (sd_serveridx y)" if "y \<in> set xs" for y
    using b1(2) fresh imageI [OF that, of sd_serveridx] by metis
  then have "\<forall>y \<in> set xs. sd_serveridx y \<in> set valid_idxes \<longrightarrow> preparable bufs1 y"
    using Cons.prems(1) by (simp add: preparable_def)
  then obtain bufs' where b: "prepare_server_snapshots control_type snapshotid valid_idxes bufs1 xs = Inr bufs'"
      "\<forall>i. i \<notin> sd_serveridx ` set xs \<or> i \<notin> set valid_idxes \<longrightarrow> bufs' i = bufs1 i"
      "\<forall>x \<in> set xs. sd_serveridx x \<in> set valid_idxes \<longrightarrow>
        da_bytes (bufs' (sd_serveridx x)) = senddata_bytes control_type snapshotid (sd_serveridx x) (sd_records x)"
    using Cons.IH [of bufs1] Cons.prems(2) by auto
  have "bufs' ?i = bufs1 ?i" using b(2) fresh by blast
  moreover have "bufs' i = bufs i" if "i \<notin> sd_serveridx ` set (x # xs) \<or> i \<notin> set valid_idxes" for i
    using that b(2) b1(2) [of i] by (cases "i = ?i") auto
  ultimately show ?case using b1(1,3) b(1,3) by (intro exI [of _ bufs']) simp
qed simp

text \<open>C8: the records of each server. The controller prepares one message for every server of the current rotation, in its own
  buffer, leaves the buffers of all other servers alone, and the server parses
  from it the snapshot number, the size of the message, its index and its records with keys, values and sequence numbers
  unchanged. The status bit of a record is lost: it arrives as whether the sequence number is not zero, so the records arrive
  unchanged exactly if every deleted record has sequence number 0 and every existing one a larger number.\<close>

theorem senddata_delivery:
  assumes "\<forall>x \<in> set xs. sd_serveridx x \<in> set valid_idxes \<longrightarrow> preparable bufs x"
    "distinct (map sd_serveridx xs)" "int_ok control_type" "int_ok snapshotid"
  shows "\<exists>bufs'. prepare_server_snapshots control_type snapshotid valid_idxes bufs xs = Inr bufs' \<and>
    (\<forall>i. i \<notin> sd_serveridx ` set xs \<or> i \<notin> set valid_idxes \<longrightarrow> bufs' i = bufs i) \<and>
    (\<forall>x \<in> set xs. sd_serveridx x \<in> set valid_idxes \<longrightarrow> (\<exists>m. deserialize_snapshot_senddata control_type (da_bytes (bufs' (sd_serveridx x))) = Inr m \<and>
      sn_snapshotid m = snapshotid \<and> sn_bytes m = int (length (da_bytes (bufs' (sd_serveridx x)))) \<and> sn_serveridx m = sd_serveridx x \<and>
      sn_recordcnt m = sd_recordcnt x \<and>
      sn_records m = map (\<lambda>(k, r). (k, r\<lparr>sr_stat := sr_seq r \<noteq> 0\<rparr>)) (sd_records x) \<and>
      (sn_records m = sd_records x \<longleftrightarrow> (\<forall>(k, r) \<in> set (sd_records x). sr_stat r = (sr_seq r \<noteq> 0)))))"
proof -
  obtain bufs' where b: "prepare_server_snapshots control_type snapshotid valid_idxes bufs xs = Inr bufs'"
      "\<forall>i. i \<notin> sd_serveridx ` set xs \<or> i \<notin> set valid_idxes \<longrightarrow> bufs' i = bufs i"
      "\<forall>x \<in> set xs. sd_serveridx x \<in> set valid_idxes \<longrightarrow>
        da_bytes (bufs' (sd_serveridx x)) = senddata_bytes control_type snapshotid (sd_serveridx x) (sd_records x)"
    using prepare_servers_ok [OF assms(1,2)] by blast
  have "\<exists>m. deserialize_snapshot_senddata control_type (da_bytes (bufs' (sd_serveridx x))) = Inr m \<and>
      sn_snapshotid m = snapshotid \<and> sn_bytes m = int (length (da_bytes (bufs' (sd_serveridx x)))) \<and> sn_serveridx m = sd_serveridx x \<and>
      sn_recordcnt m = sd_recordcnt x \<and>
      sn_records m = map (\<lambda>(k, r). (k, r\<lparr>sr_stat := sr_seq r \<noteq> 0\<rparr>)) (sd_records x) \<and>
      (sn_records m = sd_records x \<longleftrightarrow> (\<forall>(k, r) \<in> set (sd_records x). sr_stat r = (sr_seq r \<noteq> 0)))"
    if x: "x \<in> set xs" "sd_serveridx x \<in> set valid_idxes" for x
  proof -
    have ok: "server_ok x" "18 + length (recs_bytes (sd_records x)) \<le> MAX_LARGE_BUFSIZE" using assms(1) x by (auto simp: preparable_def)
    have msg: "da_bytes (bufs' (sd_serveridx x)) = senddata_bytes control_type snapshotid (sd_serveridx x) (sd_records x)" using b(3) x by blast
    have p: "deserialize_snapshot_senddata control_type (da_bytes (bufs' (sd_serveridx x))) = Inr (delivered snapshotid (sd_serveridx x) (sd_records x))"
      using msg senddata_parses [OF _ ok(2) assms(3,4)] ok(1) by (simp add: server_ok_def)
    have len: "length (da_bytes (bufs' (sd_serveridx x))) = 18 + length (recs_bytes (sd_records x))"
      using msg by (simp add: senddata_bytes_def del: map_map)
    have upd: "r\<lparr>sr_stat := b\<rparr> = r \<longleftrightarrow> sr_stat r = b" for r :: snapshot_record and b by (cases r) auto
    have same: "map (\<lambda>(k, r). (k, r\<lparr>sr_stat := sr_seq r \<noteq> 0\<rparr>)) rs = rs \<longleftrightarrow> (\<forall>(k, r) \<in> set rs. sr_stat r = (sr_seq r \<noteq> 0))" for rs :: "keyed_record list"
      by (induction rs) (auto simp: upd)
    have "sent_record = (\<lambda>(k, r). (k, r\<lparr>sr_stat := sr_seq r \<noteq> 0\<rparr>))" by (auto simp: sent_record_def fun_eq_iff)
    then show ?thesis using p len same [of "sd_records x"] ok(1) by (simp add: delivered_def server_ok_def del: map_eq_conv)
  qed
  with b(1,2) show ?thesis by blast
qed

theorem senddata_delivery_witness:
  "\<exists>d bufs' m. da_new (int MAX_BUFSIZE) (int MAX_LARGE_BUFSIZE) = Inr d \<and>
     prepare_server_snapshots 11 3 [1] (\<lambda>_. d) [server_entry 0 [demo_record 8 True] 5, server_entry 1 [demo_record 7 True, demo_record 9 False] 6] = Inr bufs' \<and>
     bufs' 0 = d \<and> deserialize_snapshot_senddata 11 (da_bytes (bufs' 1)) = Inr m \<and>
     sn_snapshotid m = 3 \<and> sn_records m = [demo_record 7 True, demo_record 9 True]"
proof -
  let ?x = "server_entry 0 [demo_record 8 True] 5" and ?y = "server_entry 1 [demo_record 7 True, demo_record 9 False] 6"
  obtain d where d: "da_new (int MAX_BUFSIZE) (int MAX_LARGE_BUFSIZE) = Inr d" "da_ok d" "da_bytes d = []" "nat (da_maxcapability d) = MAX_LARGE_BUFSIZE"
    using demo_array by blast
  have "server_ok ?y" by (rule server_ok_entry) (simp_all add: demo_record_ok MAX_LARGE_BUFSIZE_def)
  then have "\<forall>x \<in> set [?x, ?y]. sd_serveridx x \<in> set [1] \<longrightarrow> preparable (\<lambda>_. d) x"
    using d by (simp add: preparable_def server_entry_def demo_record_ok MAX_LARGE_BUFSIZE_def)
  from senddata_delivery [OF this, of 11 3] show ?thesis
    using d by (fastforce simp: int_ok_def server_entry_def demo_record_def)
qed

end
