(* ===== verification/Spec2Isabelle.thy ===== *)
theory Spec2Isabelle
  imports Fragments Outband
begin

text \<open>
  A verification library for FarReach (src/farreach, src/common), a key-value store in which a programmable
  switch caches hot records and answers reads and writes itself (write-back), and storage servers keep the rest.

  \<^bold>\<open>The program.\<close> A client sends requests for a key to the switch. The switch answers from its cache, or adds a sequence
  number and forwards the request to the server that owns the key. A server keeps live records in RocksDB and the
  sequence numbers of deletions in a \<^verbatim>\<open>DeletedSet\<close>. A controller moves records into the switch and out of it, and
  periodically takes a snapshot of the whole system: every server makes a snapshot of its database, the operating system of
  the switch collects the records in the switch, and the controller hands each server its part. Range queries read the last
  snapshot. Values that do not fit in one datagram travel in fragments.

  \<^bold>\<open>Theories, from the bottom up.\<close>

  \<^item> \<^verbatim>\<open>Prelude\<close>: words, bytes, byte order, and \<^verbatim>\<open>res\<close>, the result of a C++ function: \<^verbatim>\<open>Abort\<close> (failed
    \<^verbatim>\<open>INVARIANT\<close>), \<^verbatim>\<open>Exit\<close>, \<^verbatim>\<open>Undefined\<close> (undefined behaviour) or a value.
  \<^item> \<^verbatim>\<open>Wire\<close>: buffers that are written and read through a moving pointer; the locale \<^verbatim>\<open>codec\<close> is the contract
    of a \<^verbatim>\<open>serialize\<close> and its \<^verbatim>\<open>deserialize\<close>.
  \<^item> \<^verbatim>\<open>Ordered_Map\<close>: \<^verbatim>\<open>std::map\<close>; locale \<^verbatim>\<open>ordered_dict\<close>.
  \<^item> \<^verbatim>\<open>Hashing\<close> (common/crc32.c): \<^verbatim>\<open>crc32\<close> is the remainder of a polynomial division, written down
    independently of the code, \<^verbatim>\<open>cksum16\<close> the folded sum of the words of the message.
  \<^item> \<^verbatim>\<open>Dyn_Array\<close> (common/dynamic_array.c): the growing byte array, with its capacity; locale \<^verbatim>\<open>byte_array\<close>.
  \<^item> \<^verbatim>\<open>Net_Key\<close>, \<^verbatim>\<open>Net_Val\<close> (common/key.c, common/val.c): keys with their order, wire format, storage format and
    partition to servers and switches; values with their two wire formats and their storage format.
  \<^item> \<^verbatim>\<open>Packet_Base\<close>, \<^verbatim>\<open>Packet_Codec\<close>: operation codes, operation header, and the contract \<^verbatim>\<open>packet_codec\<close> of a
    packet class. \<^verbatim>\<open>Packet_Req\<close>, \<^verbatim>\<open>Packet_Res\<close>, \<^verbatim>\<open>Packet_Seq\<close>, \<^verbatim>\<open>Packet_Cache\<close>,
    \<^verbatim>\<open>Packet_Scan\<close>: the packet classes of common/packet_format.h and common/packet_format_impl.h for all six systems the code is
    configured for, each with its constructors, \<^verbatim>\<open>size\<close>, \<^verbatim>\<open>serialize\<close>, \<^verbatim>\<open>dynamic_serialize\<close> and
    \<^verbatim>\<open>deserialize\<close>, and the functions that read single fields of a datagram. A packet is one record of all members,
    \<^verbatim>\<open>C_new\<close> is the constructor of class \<^verbatim>\<open>C\<close> from its fields, \<^verbatim>\<open>C_data\<close> the one from a datagram.
  \<^item> \<^verbatim>\<open>Del_Set\<close> (common/deleted_set_impl.h, common/snapshot_record.c): the bounded set of deletions; locale
    \<^verbatim>\<open>tombstones\<close>.
  \<^item> \<^verbatim>\<open>Ring_Buffer\<close> (common/pkt_ring_buffer.c): packets that wait while a server assembles a large one; locale
    \<^verbatim>\<open>bounded_fifo\<close>.
  \<^item> \<^verbatim>\<open>Io_Helper\<close> (common/io_helper.c): the files of a server, as a map from paths to contents.
  \<^item> \<^verbatim>\<open>Kv_Wrapper\<close>, \<^verbatim>\<open>Kv_Snapshot\<close> (common/rocksdb_wrapper.c): the storage engine \<^verbatim>\<open>RocksdbWrapper\<close> as a record
    and one function per method. RocksDB is a parameter, a record of the calls that are made, and
    \<^verbatim>\<open>rocksdb_laws\<close> states what the engine relies on: reads return the last write, an iterator runs through the entries in
    order, a snapshot keeps the content, calls succeed; \<^verbatim>\<open>mem_rocksdb\<close>, an ordered tree, satisfies them.
    \<^verbatim>\<open>Kv_Store\<close>, \<^verbatim>\<open>Kv_Scan\<close>, \<^verbatim>\<open>Kv_Protocol\<close>: the abstract store and the proofs.
  \<^item> \<^verbatim>\<open>Outband\<close> (farreach/outband_packet_format.c and the part of farreach/controller.c that prepares the data of a
    snapshot): control signals and the messages that carry the in-switch records.
  \<^item> \<^verbatim>\<open>Fragments\<close> (common/socket_helper.c): \<^verbatim>\<open>udpsendlarge\<close> and \<^verbatim>\<open>udprecvlarge\<close>; the datagrams that arrive are a
    list, its end is the timeout of the socket.

  \<^bold>\<open>What is shown.\<close>

  \<^item> Storage engine: single-record requests refine a map from keys to a live value or a tombstone and never abort: a request
    that is older than the tombstone of its key is refused, against a live value requests apply in the order of arrival (with
    \<^verbatim>\<open>checkseq\<close>, only newer ones); range queries read the point in time at which the snapshot was made, whatever
    is written later, and answer with the newest existing records among the first n of each of their sources, which may leave
    out visible records; every interleaving of requests and snapshot operations of the common case keeps the invariant; a
    restart restores records, tombstones and the snapshot number; \<^verbatim>\<open>merge_sort\<close> keeps the newest record of every key.
  \<^item> Fragmentation: every message is delivered once all its fragments have arrived in any order, and what else arrives in
    between is neither lost nor reordered.
  \<^item> Snapshot data: what the switch collects is what each server of the current rotation receives, but for the existence
    flag (see below).
  \<^item> Deleted set and ring buffer refine a bounded map with eviction of the oldest entry and, call by call, a bounded queue; the byte array
    stores what it is given or exits at its maximal capacity.
  \<^item> Packets: what a constructor and \<^verbatim>\<open>serialize\<close> produce for each method, \<^verbatim>\<open>deserialize\<close> reads back, for every content of
    the buffer and of the receiving object; a datagram of another operation with the same layout is refused; constructors refuse
    the methods that do not use them.
  \<^item> Keys and values: the order in RocksDB is the order of keys; wire and storage formats round-trip; partitions are in
    range, for a number of servers that divides 65536.

  \<^bold>\<open>Fidelity and bounds.\<close> Machine integers are words of their width; \<^verbatim>\<open>int\<close> values are integers where the code stays in
  range, and leaving the range is \<^verbatim>\<open>Undefined\<close> where it can happen. The number of a
  snapshot is such an integer; it would leave the range after 2^31 snapshots only. Uninitialised memory is an arbitrary argument. The
  configuration is the one of common/helper.h and common/key.h (\<^verbatim>\<open>LARGE_KEY\<close>, \<^verbatim>\<open>USE_SCANRECORDCNT\<close>, \<^verbatim>\<open>SERVER_ROTATION\<close>, no
  \<^verbatim>\<open>USE_TOMMYDS_KVS\<close>). Hosts are little-endian. All loops are total recursive functions; no fuel is used. A capacity appears
  where the code has one: 8388608 bytes for a dynamic array and an in-switch snapshot file, 65535 fragments, 1000
  records of a range query, the size of the deleted set. Locks make the operations of the storage engine atomic. The common
  case of the snapshot protocol is the one without rollback: a cleanup names the next snapshot.

  Where the code does not do what its comments say, the model follows the code and the theorem states what happens: the
  fragment sequence number of some large requests is read with the wrong width, the size of some large responses counts a padding byte
  that is not written, the messages to the servers carry the sequence number in place of the existence flag, and duplicated
  fragments count as new ones.

  \<^bold>\<open>Not modelled.\<close> The threads of server, controller and switch operating system, which connect the parts above by sockets;
  raw and TCP sockets and the scan receivers \<^verbatim>\<open>udprecvlarge_multisrc\<close> of common/socket_helper.c; rollback of
  a snapshot (its functions are defined, the theorems cover the common case); the lock-free containers (concurrent_map.h), whose
  correctness is a question of the memory model; clients, loaders and benchmarks, which generate load and measure time; the
  switch programs in P4 and the Python scripts that drive them; the servers of the other systems (netcache, nocache, distcache,
  distnocache, distreach), which use the same src/common; RocksDB, iniparser and DPDK, which are libraries.
\<close>

end
